(* ===== verification/Prelude.thy ===== *)
theory Prelude
  imports Main "HOL-Library.Word" "HOL-Library.Monad_Syntax"
begin

text \<open>
  What the component theories share: the collections their automation is kept in, facts about
  division with bounded remainders (the calendar), about sorted lists of keys (the slices of
  times) and about the option monad. A function of type \<open>'a option\<close> that models Go code which
  loops returns \<open>None\<close> exactly when the code does not return.
\<close>

named_theorems go_time_simps \<open>readings of the Go time model\<close>
named_theorems sched_simps \<open>field updates and lookups of the scheduler state\<close>

section \<open>Division with a bounded remainder\<close>

lemma div_unique_bounds: "k * q \<le> n \<Longrightarrow> n < k * q + k \<Longrightarrow> n div k = q" for n k q :: int
  by (rule int_div_pos_eq [of n k q "n - k * q"]) auto

lemma mod_unique_bounds: "k * q \<le> n \<Longrightarrow> n < k * q + k \<Longrightarrow> n mod k = n - k * q" for n k q :: int
  using div_unique_bounds [of k q n] by (simp add: minus_div_mult_eq_mod [symmetric] algebra_simps)

lemma div_mono_int: "a \<le> b \<Longrightarrow> 0 < k \<Longrightarrow> a div k \<le> b div k" for a b k :: int
  by (rule zdiv_mono1)

lemma div_less_iff: "0 < k \<Longrightarrow> a div k < b \<longleftrightarrow> a < b * k" for a b k :: int
proof -
  assume k: "0 < k"
  have a: "a = a div k * k + a mod k" "0 \<le> a mod k" "a mod k < k" using k by simp_all
  show ?thesis
  proof
    assume "a div k < b"
    then have "(a div k + 1) * k \<le> b * k" using k by (intro mult_right_mono) auto
    then have "a div k * k + k \<le> b * k" by (simp add: distrib_right)
    with a show "a < b * k" by linarith
  next
    assume "a < b * k"
    then have "a div k * k < b * k" using a by linarith
    then show "a div k < b" using k by simp
  qed
qed

section \<open>Lists sorted by a key\<close>

definition sorted_by :: "('a \<Rightarrow> int) \<Rightarrow> 'a list \<Rightarrow> bool" where
  "sorted_by key xs \<longleftrightarrow> sorted_wrt (\<lambda>x y. key x \<le> key y) xs"

definition strict_by :: "('a \<Rightarrow> int) \<Rightarrow> 'a list \<Rightarrow> bool" where
  "strict_by key xs \<longleftrightarrow> sorted_wrt (\<lambda>x y. key x < key y) xs"

lemma sorted_by_simps [simp]:
  "sorted_by key []"
  "sorted_by key (x # xs) \<longleftrightarrow> (\<forall>y\<in>set xs. key x \<le> key y) \<and> sorted_by key xs"
  by (simp_all add: sorted_by_def)

lemma strict_by_simps [simp]:
  "strict_by key []"
  "strict_by key (x # xs) \<longleftrightarrow> (\<forall>y\<in>set xs. key x < key y) \<and> strict_by key xs"
  by (simp_all add: strict_by_def)

lemma sorted_by_append [simp]:
  "sorted_by key (xs @ ys) \<longleftrightarrow>
     sorted_by key xs \<and> sorted_by key ys \<and> (\<forall>x\<in>set xs. \<forall>y\<in>set ys. key x \<le> key y)"
  by (auto simp: sorted_by_def sorted_wrt_append)

lemma strict_by_append [simp]:
  "strict_by key (xs @ ys) \<longleftrightarrow>
     strict_by key xs \<and> strict_by key ys \<and> (\<forall>x\<in>set xs. \<forall>y\<in>set ys. key x < key y)"
  by (auto simp: strict_by_def sorted_wrt_append)

lemma strict_by_imp_sorted_by [simp]: "strict_by key xs \<Longrightarrow> sorted_by key xs"
  by (induction xs) (auto intro: less_imp_le)

lemma strict_by_imp_distinct: "strict_by key xs \<Longrightarrow> distinct xs"
  by (induction xs) auto

lemma sorted_by_filter: "sorted_by key xs \<Longrightarrow> sorted_by key (filter P xs)"
  by (induction xs) auto

lemma strict_by_filter: "strict_by key xs \<Longrightarrow> strict_by key (filter P xs)"
  by (induction xs) auto

lemma sorted_by_nth_mono:
  "sorted_by key xs \<Longrightarrow> i \<le> j \<Longrightarrow> j < length xs \<Longrightarrow> key (xs ! i) \<le> key (xs ! j)"
  by (cases "i = j") (auto simp: sorted_by_def sorted_wrt_iff_nth_less)

lemma sorted_by_hd: "sorted_by key xs \<Longrightarrow> x \<in> set xs \<Longrightarrow> key (hd xs) \<le> key x"
  by (cases xs) auto

lemma sorted_by_last: "sorted_by key xs \<Longrightarrow> x \<in> set xs \<Longrightarrow> key x \<le> key (last xs)"
  by (induction xs) (auto split: if_splits)

section \<open>The option monad\<close>

lemma bind_eq_SomeE:
  assumes "Option.bind x f = Some y"
  obtains z where "x = Some z" "f z = Some y"
  using assms by (cases x) auto

end
