(* ===== verification/GoTime.thy ===== *)
theory GoTime
  imports Prelude
begin

text \<open>
  The part of Go's package time that gocron computes with. An instant is a number of
  nanoseconds counted from Go's zero time, 0001-01-01T00:00:00 UTC, so that the zero time is
  instant 0; a duration is a number of nanoseconds. A location is an offset from UTC in seconds
  and the list of its transitions, each the second at which an offset begins, as in the zone
  tables Go loads. Calendar arithmetic is unbounded: int64 limits of the instants themselves
  are not modelled. Time values carry no monotonic reading, which the scheduler strips with In.
\<close>

section \<open>Locations\<close>

record location =
  loc_name :: string
  loc_base :: int
  loc_tx :: "(int \<times> int) list"

definition UTC :: location where
  "UTC = \<lparr>loc_name = ''UTC'', loc_base = 0, loc_tx = []\<rparr>"

text \<open>\<open>time.Local\<close> is recognised by its name, which is what its String method returns.\<close>

definition is_Local :: "location \<Rightarrow> bool" where
  "is_Local l \<longleftrightarrow> loc_name l = ''Local''"

text \<open>
  \<open>Location.lookup\<close>: the offset in use at a second, with the bounds of its period
  (\<open>None\<close> for an open end).
\<close>

fun zone_scan :: "int \<Rightarrow> int option \<Rightarrow> (int \<times> int) list \<Rightarrow> int \<Rightarrow> int \<times> int option \<times> int option" where
  "zone_scan off st [] sec = (off, st, None)"
| "zone_scan off st ((w, off') # tx) sec =
     (if sec < w then (off, st, Some w) else zone_scan off' (Some w) tx sec)"

definition lookup :: "location \<Rightarrow> int \<Rightarrow> int \<times> int option \<times> int option" where
  "lookup l sec = zone_scan (loc_base l) None (loc_tx l) sec"

definition offset_at :: "location \<Rightarrow> int \<Rightarrow> int" where
  "offset_at l sec = fst (lookup l sec)"

section \<open>The proleptic Gregorian calendar\<close>

definition is_leap :: "int \<Rightarrow> bool" where
  "is_leap y \<longleftrightarrow> y mod 4 = 0 \<and> (y mod 100 \<noteq> 0 \<or> y mod 400 = 0)"

definition days_before_year :: "int \<Rightarrow> int" where
  "days_before_year y = (let p = y - 1 in 365 * p + p div 4 - p div 100 + p div 400)"

definition days_before_month :: "bool \<Rightarrow> int \<Rightarrow> int" where
  "days_before_month leap m =
     (if m \<le> 1 then 0 else if m = 2 then 31
      else (if leap then 1 else 0) +
        (if m = 3 then 59 else if m = 4 then 90 else if m = 5 then 120 else if m = 6 then 151
         else if m = 7 then 181 else if m = 8 then 212 else if m = 9 then 243
         else if m = 10 then 273 else if m = 11 then 304 else if m = 12 then 334 else 365))"

definition days_in_month :: "int \<Rightarrow> int \<Rightarrow> int" where
  "days_in_month y m = days_before_month (is_leap y) (m + 1) - days_before_month (is_leap y) m"

text \<open>The day number (day 0 is 0001-01-01) of a date whose month is in 1..12; any day is taken.\<close>

definition day_number :: "int \<Rightarrow> int \<Rightarrow> int \<Rightarrow> int" where
  "day_number y m d = days_before_year y + days_before_month (is_leap y) m + (d - 1)"

text \<open>The inverse, cutting off cycles of 400, 100, 4 and 1 years as \<open>Time.date\<close> does.\<close>

definition month_of_yday :: "bool \<Rightarrow> int \<Rightarrow> int" where
  "month_of_yday leap yd =
     (if yd < days_before_month leap 2 then 1 else if yd < days_before_month leap 3 then 2
      else if yd < days_before_month leap 4 then 3 else if yd < days_before_month leap 5 then 4
      else if yd < days_before_month leap 6 then 5 else if yd < days_before_month leap 7 then 6
      else if yd < days_before_month leap 8 then 7 else if yd < days_before_month leap 9 then 8
      else if yd < days_before_month leap 10 then 9 else if yd < days_before_month leap 11 then 10
      else if yd < days_before_month leap 12 then 11 else 12)"

definition civil_year :: "int \<Rightarrow> int" where
  "civil_year n =
     (let a = n div 146097; r = n mod 146097;
          b = min 3 (r div 36524); r = r - 36524 * b;
          c = r div 1461; r = r - 1461 * c;
          e = min 3 (r div 365)
      in 400 * a + 100 * b + 4 * c + e + 1)"

definition civil_month :: "int \<Rightarrow> int" where
  "civil_month n = (let y = civil_year n in month_of_yday (is_leap y) (n - days_before_year y))"

definition civil_day :: "int \<Rightarrow> int" where
  "civil_day n = n + 1 - day_number (civil_year n) (civil_month n) 1"

section \<open>Calendar lemmas\<close>

lemma year_split:
  fixes p :: int
  obtains a b c e where "p = 400 * a + 100 * b + 4 * c + e"
    and "0 \<le> b" "b \<le> 3" "0 \<le> c" "c \<le> 24" "0 \<le> e" "e \<le> 3"
proof
  let ?r = "p mod 400" let ?s = "?r mod 100"
  have r: "0 \<le> ?r" "?r < 400" and s: "0 \<le> ?s" "?s < 100" by simp_all
  have "p = 400 * (p div 400) + ?r" "?r = 100 * (?r div 100) + ?s" "?s = 4 * (?s div 4) + ?s mod 4"
    by simp_all
  then show "p = 400 * (p div 400) + 100 * (?r div 100) + 4 * (?s div 4) + ?s mod 4"
    by linarith
  show "0 \<le> ?r div 100" "0 \<le> ?s div 4" using r s by (simp_all add: pos_imp_zdiv_nonneg_iff)
  show "?r div 100 \<le> 3" using div_mono_int [of ?r 399 100] r by simp
  show "?s div 4 \<le> 24" using div_mono_int [of ?s 99 4] s by simp
  show "0 \<le> ?s mod 4" by simp
  have "?s mod 4 < 4" by (rule pos_mod_bound) simp
  then show "?s mod 4 \<le> 3" by linarith
qed

lemma days_before_year_split:
  assumes "0 \<le> b" "b \<le> 3" "0 \<le> c" "c \<le> 24" "0 \<le> e" "e \<le> (3::int)"
  shows "days_before_year (400 * a + 100 * b + 4 * c + e + 1) =
    146097 * a + 36524 * b + 1461 * c + 365 * e"
proof -
  let ?p = "400 * a + 100 * b + 4 * c + e"
  have "?p div 4 = 100 * a + 25 * b + c" and "?p div 100 = 4 * a + b" and "?p div 400 = a"
    using assms by (auto intro!: div_unique_bounds)
  then show ?thesis by (simp add: days_before_year_def Let_def)
qed

lemma mod_add_multiple_eq_0:
  fixes k q r :: int
  assumes "0 < r" "r \<le> k"
  shows "(k * q + r) mod k = 0 \<longleftrightarrow> r = k"
  using assms by (cases "r = k") auto

lemma is_leap_split:
  assumes rng: "0 \<le> b" "b \<le> 3" "0 \<le> c" "c \<le> 24" "0 \<le> e" "e \<le> (3::int)"
  shows "is_leap (400 * a + 100 * b + 4 * c + e + 1) \<longleftrightarrow> e = 3 \<and> (c \<noteq> 24 \<or> b = 3)"
proof -
  let ?y = "400 * a + 100 * b + 4 * c + e + 1"
  have "?y mod 4 = 0 \<longleftrightarrow> e + 1 = 4"
    using mod_add_multiple_eq_0 [of "e + 1" 4 "100 * a + 25 * b + c"] rng
    by (simp add: algebra_simps)
  moreover have "?y mod 100 = 0 \<longleftrightarrow> 4 * c + e + 1 = 100"
    using mod_add_multiple_eq_0 [of "4 * c + e + 1" 100 "4 * a + b"] rng
    by (simp add: algebra_simps)
  moreover have "?y mod 400 = 0 \<longleftrightarrow> 100 * b + 4 * c + e + 1 = 400"
    using mod_add_multiple_eq_0 [of "100 * b + 4 * c + e + 1" 400 a] rng
    by (simp add: algebra_simps)
  ultimately show ?thesis unfolding is_leap_def using rng by auto
qed

lemma days_before_year_Suc:
  "days_before_year (y + 1) = days_before_year y + (if is_leap y then 366 else 365)"
proof -
  obtain a b c e where y: "y - 1 = 400 * a + 100 * b + 4 * c + e"
    and rng: "0 \<le> b" "b \<le> 3" "0 \<le> c" "c \<le> 24" "0 \<le> e" "e \<le> 3"
    by (rule year_split)
  from y have y': "y = 400 * a + 100 * b + 4 * c + e + 1" by simp
  note this_year = days_before_year_split [OF rng, of a, folded y'] is_leap_split [OF rng, of a, folded y']
  consider "e < 3" | "e = 3" "c < 24" | "e = 3" "c = 24" "b < 3" | "e = 3" "c = 24" "b = 3"
    using rng by linarith
  then show ?thesis
  proof cases
    case 1 then show ?thesis
      using rng days_before_year_split [of b c "e + 1" a] this_year y' by (simp add: algebra_simps)
  next
    case 2 then show ?thesis
      using rng days_before_year_split [of b "c + 1" 0 a] this_year y' by (simp add: algebra_simps)
  next
    case 3 then show ?thesis
      using rng days_before_year_split [of "b + 1" 0 0 a] this_year y' by (simp add: algebra_simps)
  next
    case 4 then show ?thesis
      using days_before_year_split [of 0 0 0 "a + 1"] this_year y' by (simp add: algebra_simps)
  qed
qed

lemma civil_year_eqI:
  assumes "days_before_year y \<le> n" and "n < days_before_year (y + 1)"
  shows "civil_year n = y"
proof -
  obtain a b c e where y: "y - 1 = 400 * a + 100 * b + 4 * c + e"
    and rng: "0 \<le> b" "b \<le> 3" "0 \<le> c" "c \<le> 24" "0 \<le> e" "e \<le> 3"
    by (rule year_split)
  from y have y': "y = 400 * a + 100 * b + 4 * c + e + 1" by simp
  define r where "r = n - days_before_year y"
  have n: "n = 146097 * a + 36524 * b + 1461 * c + 365 * e + r"
    unfolding r_def y' days_before_year_split [OF rng] by simp
  have r0: "0 \<le> r" and r1: "r < (if e = 3 \<and> (c \<noteq> 24 \<or> b = 3) then 366 else 365)"
    using assms unfolding r_def days_before_year_Suc y' is_leap_split [OF rng] by auto
  have a: "n div 146097 = a"
    unfolding n using rng r0 r1 by (intro div_unique_bounds) (auto split: if_splits)
  have a': "n mod 146097 = 36524 * b + 1461 * c + 365 * e + r"
    using a n by (simp add: minus_div_mult_eq_mod [symmetric])
  have b: "min 3 ((36524 * b + 1461 * c + 365 * e + r) div 36524) = b"
  proof (cases "1461 * c + 365 * e + r < 36524")
    case True
    then have "(36524 * b + 1461 * c + 365 * e + r) div 36524 = b"
      using rng r0 by (intro div_unique_bounds) auto
    with rng show ?thesis by simp
  next
    case False
    then have "b = 3" using rng r1 by (auto split: if_splits)
    moreover have "3 \<le> (36524 * 3 + 1461 * c + 365 * e + r) div 36524"
      using rng r0 div_mono_int [of "36524 * 3" "36524 * 3 + 1461 * c + 365 * e + r" 36524] by simp
    ultimately show ?thesis by simp
  qed
  have c: "(365 * e + r) div 1461 = 0"
    using rng r0 r1 by (intro div_unique_bounds) (auto split: if_splits)
  have e: "min 3 (e + r div 365) = e"
  proof (cases "r < 365")
    case True
    then have "r div 365 = 0" using r0 by (intro div_unique_bounds) auto
    with rng show ?thesis by simp
  next
    case False
    then have "e = 3" "r = 365" using r1 by (auto split: if_splits)
    then show ?thesis by simp
  qed
  show ?thesis
    unfolding civil_year_def a a' Let_def b by (simp add: c e y')
qed

lemma days_before_year_mono: "x \<le> y \<Longrightarrow> days_before_year x \<le> days_before_year y"
proof (induction y rule: int_ge_induct)
  case base
  show ?case by simp
next
  case (step y)
  then show ?case by (simp add: days_before_year_Suc)
qed

lemma year_exists: "\<exists>y. days_before_year y \<le> n \<and> n < days_before_year (y + 1)"
proof -
  define a where "a = n div 146097"
  have lo: "days_before_year (400 * a + 1) = 146097 * a"
    using days_before_year_split [of 0 0 0 a] by simp
  have hi: "days_before_year (400 * (a + 1) + 1) = 146097 * (a + 1)"
    using days_before_year_split [of 0 0 0 "a + 1"] by simp
  have n: "146097 * a \<le> n" "n < 146097 * (a + 1)"
    unfolding a_def using pos_mod_bound [of 146097 n] pos_mod_sign [of 146097 n]
    by (simp_all add: minus_div_mult_eq_mod [symmetric] algebra_simps)
  let ?S = "{y. 400 * a + 1 \<le> y \<and> y \<le> 400 * (a + 1) \<and> days_before_year y \<le> n}"
  have "finite ?S" by (rule finite_subset [of _ "{400 * a + 1..400 * (a + 1)}"]) auto
  moreover have base: "400 * a + 1 \<in> ?S" using lo n by simp
  ultimately have mx: "Max ?S \<in> ?S" by (intro Max_in) (assumption, blast)
  have "n < days_before_year (Max ?S + 1)"
  proof (rule ccontr)
    assume "\<not> n < days_before_year (Max ?S + 1)"
    then have le: "days_before_year (Max ?S + 1) \<le> n" by simp
    show False
    proof (cases "Max ?S = 400 * (a + 1)")
      case True
      then show False using le hi n by simp
    next
      case False
      then have "Max ?S + 1 \<in> ?S" using mx le by auto
      then have "Max ?S + 1 \<le> Max ?S" using \<open>finite ?S\<close> by (rule Max_ge [rotated])
      then show False by simp
    qed
  qed
  with mx show ?thesis by blast
qed

lemma civil_year_bounds:
  "days_before_year (civil_year n) \<le> n" "n < days_before_year (civil_year n + 1)"
  using year_exists [of n] civil_year_eqI by auto

lemma month_in_set: "1 \<le> m \<Longrightarrow> m \<le> 12 \<Longrightarrow> m \<in> {1, 2, 3, 4, 5, 6, 7, 8, 9, 10, 11, 12}" for m :: int
  by simp presburger

lemma month_bounds:
  assumes "0 \<le> yd" "yd < (if leap then 366 else 365)"
  defines "m \<equiv> month_of_yday leap yd"
  shows "1 \<le> m" "m \<le> 12" "days_before_month leap m \<le> yd" "yd < days_before_month leap (m + 1)"
  using assms by (auto simp: m_def month_of_yday_def days_before_month_def split: if_splits)

lemma month_of_yday_eqI:
  assumes "1 \<le> m" "m \<le> 12" "days_before_month leap m \<le> yd" "yd < days_before_month leap (m + 1)"
  shows "month_of_yday leap yd = m"
proof -
  have "m \<in> {1, 2, 3, 4, 5, 6, 7, 8, 9, 10, 11, 12}" using assms by (intro month_in_set)
  then show ?thesis using assms(3,4)
    by (auto simp: month_of_yday_def days_before_month_def split: if_splits)
qed

lemma days_in_month_bounds: "1 \<le> m \<Longrightarrow> m \<le> 12 \<Longrightarrow> 28 \<le> days_in_month y m \<and> days_in_month y m \<le> 31"
  by (drule month_in_set, assumption) (auto simp: days_in_month_def days_before_month_def)

lemma days_in_month_cases:
  assumes "1 \<le> m" "m \<le> 12"
  shows "days_in_month y m =
    (if m = 2 then (if is_leap y then 29 else 28)
     else if m = 4 \<or> m = 6 \<or> m = 9 \<or> m = 11 then 30 else 31)"
proof -
  have "m \<in> {1, 2, 3, 4, 5, 6, 7, 8, 9, 10, 11, 12}" using assms by (intro month_in_set)
  then show ?thesis by (auto simp: days_in_month_def days_before_month_def)
qed

text \<open>Reading a day number back: the date of a day, and the day of a valid date.\<close>

definition valid_date :: "int \<Rightarrow> int \<Rightarrow> int \<Rightarrow> bool" where
  "valid_date y m d \<longleftrightarrow> 1 \<le> m \<and> m \<le> 12 \<and> 1 \<le> d \<and> d \<le> days_in_month y m"

lemma days_before_month_mono:
  "1 \<le> m \<Longrightarrow> m \<le> 12 \<Longrightarrow> days_before_month leap m \<le> days_before_month leap (m + 1)"
  "1 \<le> m \<Longrightarrow> m \<le> 12 \<Longrightarrow> days_before_month leap (m + 1) \<le> (if leap then 366 else 365)"
  by (auto simp: days_before_month_def)

lemma days_before_month_nonneg: "0 \<le> days_before_month leap m"
  by (simp add: days_before_month_def)

lemma day_number_in_year:
  assumes "valid_date y m d"
  shows "days_before_year y \<le> day_number y m d" "day_number y m d < days_before_year (y + 1)"
  using assms days_before_month_mono [of m "is_leap y"] days_before_month_nonneg [of "is_leap y" m]
  by (auto simp: valid_date_def days_in_month_def day_number_def days_before_year_Suc split: if_splits)

lemma civil_day_number:
  assumes "valid_date y m d"
  shows "civil_year (day_number y m d) = y" "civil_month (day_number y m d) = m"
    "civil_day (day_number y m d) = d"
proof -
  show y: "civil_year (day_number y m d) = y"
    using day_number_in_year [OF assms] by (rule civil_year_eqI)
  have "month_of_yday (is_leap y) (day_number y m d - days_before_year y) = m"
    using assms by (intro month_of_yday_eqI)
      (auto simp: valid_date_def days_in_month_def day_number_def)
  then show m: "civil_month (day_number y m d) = m"
    by (simp add: civil_month_def Let_def y)
  show "civil_day (day_number y m d) = d"
    by (simp add: civil_day_def y m) (simp add: day_number_def)
qed

lemma valid_civil: "valid_date (civil_year n) (civil_month n) (civil_day n)"
proof -
  let ?y = "civil_year n" let ?yd = "n - days_before_year ?y"
  have "0 \<le> ?yd" "?yd < (if is_leap ?y then 366 else 365)"
    using civil_year_bounds [of n] by (auto simp: days_before_year_Suc)
  from month_bounds [OF this] show ?thesis
    by (auto simp: valid_date_def civil_month_def Let_def civil_day_def day_number_def days_in_month_def)
qed

lemma day_number_civil [simp]: "day_number (civil_year n) (civil_month n) (civil_day n) = n"
  by (simp add: civil_day_def day_number_def)

lemma day_number_shift: "day_number y m (d + k) = day_number y m d + k"
  by (simp add: day_number_def)

section \<open>Times\<close>

record gtime =
  inst :: int
  tloc :: location

definition zero_time :: gtime where
  "zero_time = \<lparr>inst = 0, tloc = UTC\<rparr>"

definition IsZero :: "gtime \<Rightarrow> bool" where
  "IsZero t \<longleftrightarrow> inst t = 0"

definition After :: "gtime \<Rightarrow> gtime \<Rightarrow> bool" where
  "After t u \<longleftrightarrow> inst t > inst u"

definition Before :: "gtime \<Rightarrow> gtime \<Rightarrow> bool" where
  "Before t u \<longleftrightarrow> inst t < inst u"

definition Equal :: "gtime \<Rightarrow> gtime \<Rightarrow> bool" where
  "Equal t u \<longleftrightarrow> inst t = inst u"

definition Compare :: "gtime \<Rightarrow> gtime \<Rightarrow> int" where
  "Compare t u = (if inst t < inst u then -1 else if inst t > inst u then 1 else 0)"

definition Add :: "gtime \<Rightarrow> int \<Rightarrow> gtime" where
  "Add t d = t\<lparr>inst := inst t + d\<rparr>"

definition Sub :: "gtime \<Rightarrow> gtime \<Rightarrow> int" where
  "Sub t u = inst t - inst u"

definition In :: "gtime \<Rightarrow> location \<Rightarrow> gtime" where
  "In t l = t\<lparr>tloc := l\<rparr>"

text \<open>Seconds read on the wall clock of the time's location, counted from the zero time.\<close>

definition nanos :: int where
  "nanos = 1000000000"

definition wall_of :: "location \<Rightarrow> int \<Rightarrow> int" where
  "wall_of l sec = sec + offset_at l sec"

definition wall :: "gtime \<Rightarrow> int" where
  "wall t = wall_of (tloc t) (inst t div nanos)"

definition Nanosecond :: "gtime \<Rightarrow> int" where
  "Nanosecond t = inst t mod nanos"

definition Year :: "gtime \<Rightarrow> int" where
  "Year t = civil_year (wall t div 86400)"

definition Month :: "gtime \<Rightarrow> int" where
  "Month t = civil_month (wall t div 86400)"

definition Day :: "gtime \<Rightarrow> int" where
  "Day t = civil_day (wall t div 86400)"

definition Hour :: "gtime \<Rightarrow> int" where
  "Hour t = wall t mod 86400 div 3600"

definition Minute :: "gtime \<Rightarrow> int" where
  "Minute t = wall t mod 3600 div 60"

definition Second :: "gtime \<Rightarrow> int" where
  "Second t = wall t mod 60"

text \<open>Sunday is 0; day 0 of the calendar is a Monday.\<close>

definition Weekday :: "gtime \<Rightarrow> int" where
  "Weekday t = (wall t div 86400 + 1) mod 7"

section \<open>Building a time from wall-clock fields\<close>

text \<open>Out-of-range fields are carried into the next larger one, as \<open>time.Date\<close> does.\<close>

definition wall_seconds :: "int \<Rightarrow> int \<Rightarrow> int \<Rightarrow> int \<Rightarrow> int \<Rightarrow> int \<Rightarrow> int" where
  "wall_seconds y m d h mi s =
     day_number (y + (m - 1) div 12) ((m - 1) mod 12 + 1) d * 86400 + h * 3600 + mi * 60 + s"

definition in_period :: "int option \<Rightarrow> int option \<Rightarrow> int \<Rightarrow> bool" where
  "in_period st en sec \<longleftrightarrow>
     (case st of None \<Rightarrow> True | Some a \<Rightarrow> a \<le> sec) \<and> (case en of None \<Rightarrow> True | Some b \<Rightarrow> sec < b)"

text \<open>
  The second that shows a wall-clock reading: the zone in use at the reading taken as UTC is
  tried first; if the second it gives lies outside that zone's period, the zone in use at that
  second is taken instead.
\<close>

definition resolve_wall :: "location \<Rightarrow> int \<Rightarrow> int" where
  "resolve_wall l w =
     (case lookup l w of (off, st, en) \<Rightarrow>
        if off = 0 then w
        else if in_period st en (w - off) then w - off
        else w - offset_at l (w - off))"

definition Date :: "int \<Rightarrow> int \<Rightarrow> int \<Rightarrow> int \<Rightarrow> int \<Rightarrow> int \<Rightarrow> int \<Rightarrow> location \<Rightarrow> gtime" where
  "Date y m d h mi s ns l =
     \<lparr>inst = resolve_wall l (wall_seconds y m d h mi s + ns div nanos) * nanos + ns mod nanos,
      tloc = l\<rparr>"

definition AddDate :: "gtime \<Rightarrow> int \<Rightarrow> int \<Rightarrow> int \<Rightarrow> gtime" where
  "AddDate t ys ms ds =
     Date (Year t + ys) (Month t + ms) (Day t + ds) (Hour t) (Minute t) (Second t)
       (Nanosecond t) (tloc t)"

section \<open>Lemmas on readings\<close>

lemmas order_defs = IsZero_def After_def Before_def Equal_def

declare order_defs [go_time_simps]

lemma zero_time_inst [simp]: "inst zero_time = 0"
  by (simp add: zero_time_def)

lemma IsZero_zero_time [simp]: "IsZero zero_time"
  by (simp add: IsZero_def)

lemma Add_simps [simp]: "inst (Add t d) = inst t + d" "tloc (Add t d) = tloc t"
  by (simp_all add: Add_def)

lemma In_simps [simp]: "inst (In t l) = inst t" "tloc (In t l) = l"
  by (simp_all add: In_def)

lemma tloc_Date [simp]: "tloc (Date y m d h mi s ns l) = l"
  by (simp add: Date_def)

lemma nanos_pos [simp]: "0 < nanos" "nanos \<noteq> 0"
  by (simp_all add: nanos_def)

lemma Date_second [simp]:
  "inst (Date y m d h mi s 0 l) div nanos = resolve_wall l (wall_seconds y m d h mi s)"
  by (simp add: Date_def)

lemma wall_Date: "wall (Date y m d h mi s 0 l) = wall_of l (resolve_wall l (wall_seconds y m d h mi s))"
  by (simp add: wall_def)

lemma wall_seconds_shift: "wall_seconds y m (d + k) h mi s = wall_seconds y m d h mi s + k * 86400"
  by (simp add: wall_seconds_def day_number_shift algebra_simps)

lemma wall_seconds_valid:
  "1 \<le> m \<Longrightarrow> m \<le> 12 \<Longrightarrow> wall_seconds y m d h mi s = day_number y m d * 86400 + h * 3600 + mi * 60 + s"
  by (simp add: wall_seconds_def div_pos_pos_trivial mod_pos_pos_trivial)

definition valid_clock :: "int \<Rightarrow> int \<Rightarrow> int \<Rightarrow> bool" where
  "valid_clock h mi s \<longleftrightarrow> 0 \<le> h \<and> h \<le> 23 \<and> 0 \<le> mi \<and> mi \<le> 59 \<and> 0 \<le> s \<and> s \<le> 59"

lemma clock_of_seconds:
  assumes "valid_clock h mi s"
  shows "(n * 86400 + h * 3600 + mi * 60 + s) div 86400 = n"
    "(n * 86400 + h * 3600 + mi * 60 + s) mod 86400 div 3600 = h"
    "(n * 86400 + h * 3600 + mi * 60 + s) mod 3600 div 60 = mi"
    "(n * 86400 + h * 3600 + mi * 60 + s) mod 60 = s"
proof -
  let ?w = "n * 86400 + h * 3600 + mi * 60 + s"
  show d: "?w div 86400 = n"
    using assms by (intro div_unique_bounds) (auto simp: valid_clock_def)
  have "?w mod 86400 = h * 3600 + mi * 60 + s"
    using d by (simp add: minus_div_mult_eq_mod [symmetric])
  moreover have "(h * 3600 + mi * 60 + s) div 3600 = h"
    using assms by (intro div_unique_bounds) (auto simp: valid_clock_def)
  ultimately show "?w mod 86400 div 3600 = h" by simp
  have "?w mod 3600 = ?w - 3600 * (n * 24 + h)"
    using assms by (intro mod_unique_bounds) (auto simp: valid_clock_def)
  then have "?w mod 3600 = mi * 60 + s" by simp
  moreover have "(mi * 60 + s) div 60 = mi"
    using assms by (intro div_unique_bounds) (auto simp: valid_clock_def)
  ultimately show "?w mod 3600 div 60 = mi" by simp
  have "?w mod 60 = ?w - 60 * (n * 1440 + h * 60 + mi)"
    using assms by (intro mod_unique_bounds) (auto simp: valid_clock_def)
  then show "?w mod 60 = s" by simp
qed

text \<open>A time whose wall clock shows a valid date and clock reading has just those fields.\<close>

lemma fields_of_wall:
  assumes "wall t = wall_seconds y m d h mi s" "valid_date y m d" "valid_clock h mi s"
  shows "Year t = y" "Month t = m" "Day t = d" "Hour t = h" "Minute t = mi" "Second t = s"
proof -
  have w: "wall t = day_number y m d * 86400 + h * 3600 + mi * 60 + s"
    using assms(1,2) by (simp add: wall_seconds_valid valid_date_def)
  show "Year t = y" "Month t = m" "Day t = d" "Hour t = h" "Minute t = mi" "Second t = s"
    unfolding Year_def Month_def Day_def Hour_def Minute_def Second_def w
    by (simp_all only: clock_of_seconds [OF assms(3)] civil_day_number [OF assms(2)])
qed

lemma valid_date_fields: "valid_date (Year t) (Month t) (Day t)"
  by (simp add: Year_def Month_def Day_def valid_civil)

lemma mod_div_bounds: "0 < a \<Longrightarrow> 0 < b \<Longrightarrow> 0 \<le> k mod a div b \<and> k mod a div b \<le> (a - 1) div b"
  for a b k :: int
  using div_mono_int [of "k mod a" "a - 1" b] pos_mod_bound [of a k]
  by (simp add: pos_imp_zdiv_nonneg_iff)

lemma valid_clock_fields: "valid_clock (Hour t) (Minute t) (Second t)"
  using mod_div_bounds [of 86400 3600 "wall t"] mod_div_bounds [of 3600 60 "wall t"]
    mod_div_bounds [of 60 1 "wall t"]
  by (simp add: valid_clock_def Hour_def Minute_def Second_def)

text \<open>The fields of a time determine its wall-clock reading.\<close>

lemma wall_seconds_fields:
  "wall_seconds (Year t) (Month t) (Day t) (Hour t) (Minute t) (Second t) = wall t"
proof -
  let ?w = "wall t"
  have "?w mod 86400 mod 3600 = ?w mod 3600" "?w mod 3600 mod 60 = ?w mod 60"
    by (simp_all add: mod_mod_cancel)
  then have "?w = ?w div 86400 * 86400 + ?w mod 86400 div 3600 * 3600 + ?w mod 3600 div 60 * 60 + ?w mod 60"
    using div_mult_mod_eq [of ?w 86400] div_mult_mod_eq [of "?w mod 86400" 3600]
      div_mult_mod_eq [of "?w mod 3600" 60] by linarith
  then show ?thesis
    using valid_date_fields [of t]
    by (simp add: wall_seconds_valid valid_date_def Hour_def Minute_def Second_def
        Year_def Month_def Day_def)
qed

section \<open>Locations without transitions, and late times\<close>

lemma lookup_fixed: "loc_tx l = [] \<Longrightarrow> lookup l sec = (loc_base l, None, None)"
  by (simp add: lookup_def)

lemma offset_at_fixed: "loc_tx l = [] \<Longrightarrow> offset_at l sec = loc_base l"
  by (simp add: offset_at_def lookup_fixed)

lemma resolve_wall_fixed: "loc_tx l = [] \<Longrightarrow> resolve_wall l w = w - loc_base l"
  by (simp add: resolve_wall_def lookup_fixed in_period_def)

lemma wall_of_resolve_fixed: "loc_tx l = [] \<Longrightarrow> wall_of l (resolve_wall l w) = w"
  by (simp add: wall_of_def resolve_wall_fixed offset_at_fixed)

text \<open>
  Far enough after the last transition of a location, every wall-clock reading exists:
  \<open>settled l\<close> is a second from which that holds.
\<close>

fun settle_scan :: "int \<Rightarrow> int \<Rightarrow> (int \<times> int) list \<Rightarrow> int" where
  "settle_scan off m [] = m + \<bar>off\<bar>"
| "settle_scan off m ((w, off') # tx) = settle_scan off' (max m w) tx"

fun last_offset :: "int \<Rightarrow> (int \<times> int) list \<Rightarrow> int" where
  "last_offset off [] = off"
| "last_offset off ((w, off') # tx) = last_offset off' tx"

definition settled :: "location \<Rightarrow> int" where
  "settled l = settle_scan (loc_base l) 0 (loc_tx l)"

lemma settle_scan_ge: "m \<le> settle_scan off m tx"
  by (induction off m tx rule: settle_scan.induct) auto

lemma settle_scan_offset: "m + \<bar>last_offset off tx\<bar> \<le> settle_scan off m tx"
  by (induction off m tx rule: settle_scan.induct) auto

lemma zone_scan_late:
  assumes "settle_scan off m tx - \<bar>last_offset off tx\<bar> \<le> sec" "\<forall>a. st = Some a \<longrightarrow> a \<le> m"
  shows "\<exists>st'. zone_scan off st tx sec = (last_offset off tx, st', None) \<and>
    (\<forall>a. st' = Some a \<longrightarrow> a \<le> settle_scan off m tx - \<bar>last_offset off tx\<bar>)"
  using assms
proof (induction off m tx arbitrary: st rule: settle_scan.induct)
  case (1 off m)
  then show ?case by auto
next
  case (2 off m w off' tx)
  have "max m w \<le> settle_scan off' (max m w) tx - \<bar>last_offset off' tx\<bar>"
    using settle_scan_offset [of "max m w" off' tx] by linarith
  with "2.prems" have "\<not> sec < w" by simp
  then show ?case using "2.IH" [of "Some w"] "2.prems" by simp
qed

lemma lookup_late:
  assumes "settled l - \<bar>last_offset (loc_base l) (loc_tx l)\<bar> \<le> sec"
  obtains st where "lookup l sec = (last_offset (loc_base l) (loc_tx l), st, None)"
    and "\<And>a. st = Some a \<Longrightarrow> a \<le> settled l - \<bar>last_offset (loc_base l) (loc_tx l)\<bar>"
  using assms zone_scan_late [of "loc_base l" 0 "loc_tx l" sec None]
  by (auto simp: lookup_def settled_def)

lemma resolve_wall_late:
  assumes "settled l \<le> w"
  shows "resolve_wall l w = w - last_offset (loc_base l) (loc_tx l)"
    and "wall_of l (resolve_wall l w) = w"
proof -
  let ?o = "last_offset (loc_base l) (loc_tx l)"
  obtain st where st: "lookup l w = (?o, st, None)" "\<And>a. st = Some a \<Longrightarrow> a \<le> settled l - \<bar>?o\<bar>"
    using lookup_late [of l w] assms by (metis abs_ge_zero diff_le_eq le_add_same_cancel1 order_trans)
  have "in_period st None (w - ?o)"
    using st(2) assms by (force simp: in_period_def split: option.splits)
  then show r: "resolve_wall l w = w - ?o"
    by (simp add: resolve_wall_def st(1))
  have "settled l - \<bar>?o\<bar> \<le> w - ?o" using assms by linarith
  then obtain st' where "lookup l (w - ?o) = (?o, st', None)" by (rule lookup_late)
  then have "offset_at l (w - ?o) = ?o" by (simp add: offset_at_def)
  then show "wall_of l (resolve_wall l w) = w" by (simp add: r wall_of_def)
qed

end
