(* ===== verification/Slices.thy ===== *)
theory Slices
  imports GoTime "HOL-Library.Multiset"
begin

text \<open>
  The slice operations gocron takes from package slices, and the helpers of util.go that keep a
  job's \<open>nextScheduled\<close> times ascending: \<open>insertNextScheduled\<close>, \<open>nextScheduledContains\<close>,
  \<open>scheduledTimeForRun\<close>, and the filter of \<open>pruneStaleScheduled\<close>. The locale
  \<open>schedule_queue\<close> is the contract the scheduler relies on.
\<close>

section \<open>Package slices\<close>

text \<open>The loop of \<open>slices.BinarySearchFunc\<close> over the half-open range from \<open>i\<close> to \<open>j\<close>.\<close>

function bsearch :: "('a \<Rightarrow> int) \<Rightarrow> 'a list \<Rightarrow> nat \<Rightarrow> nat \<Rightarrow> nat" where
  "bsearch c xs i j =
     (if i < j then
        let h = (i + j) div 2 in
        if c (xs ! h) < 0 then bsearch c xs (h + 1) j else bsearch c xs i h
      else i)"
  by pat_completeness auto
termination
  by (relation "measure (\<lambda>(c, xs, i, j). j - i)") (auto simp: Let_def)

declare bsearch.simps [simp del]

definition BinarySearchFunc :: "'a list \<Rightarrow> 'b \<Rightarrow> ('a \<Rightarrow> 'b \<Rightarrow> int) \<Rightarrow> nat \<times> bool" where
  "BinarySearchFunc xs target cmp =
     (let i = bsearch (\<lambda>x. cmp x target) xs 0 (length xs)
      in (i, i < length xs \<and> cmp (xs ! i) target = 0))"

definition slices_Insert :: "'a list \<Rightarrow> nat \<Rightarrow> 'a \<Rightarrow> 'a list" where
  "slices_Insert xs i v = take i xs @ v # drop i xs"

text \<open>\<open>slices.Compact\<close>: of a run of equal elements only the first stays.\<close>

fun slices_Compact :: "'a list \<Rightarrow> 'a list" where
  "slices_Compact [] = []"
| "slices_Compact [x] = [x]"
| "slices_Compact (x # y # ys) =
     (if x = y then slices_Compact (x # ys) else x # slices_Compact (y # ys))"

definition slices_Sort :: "int list \<Rightarrow> int list" where
  "slices_Sort xs = sort xs"

definition SortStableTimes :: "gtime list \<Rightarrow> gtime list" where
  "SortStableTimes ts = sort_key inst ts"

section \<open>util.go\<close>

definition ascendingTime :: "gtime \<Rightarrow> gtime \<Rightarrow> int" where
  "ascendingTime a b = Compare a b"

definition removeSliceDuplicatesInt :: "int list \<Rightarrow> int list" where
  "removeSliceDuplicatesInt xs = slices_Compact (slices_Sort xs)"

definition insertNextScheduled :: "gtime list \<Rightarrow> gtime \<Rightarrow> gtime list" where
  "insertNextScheduled ts t =
     (case BinarySearchFunc ts t ascendingTime of (idx, _) \<Rightarrow> slices_Insert ts idx t)"

definition nextScheduledContains :: "gtime list \<Rightarrow> gtime \<Rightarrow> bool" where
  "nextScheduledContains ts t = snd (BinarySearchFunc ts t ascendingTime)"

text \<open>On an empty slice the last branch reads index 0 and panics: \<open>None\<close>.\<close>

definition scheduledTimeForRun :: "gtime list \<Rightarrow> gtime \<Rightarrow> gtime option" where
  "scheduledTimeForRun ts actualStart =
     (case BinarySearchFunc ts actualStart ascendingTime of
        (idx, found) \<Rightarrow>
          if found then Some (ts ! idx)
          else if 0 < idx then Some (ts ! (idx - 1))
          else case ts of [] \<Rightarrow> None | t # _ \<Rightarrow> Some t)"

text \<open>The loop of \<open>internalJob.pruneStaleScheduled\<close>.\<close>

fun keptScheduled :: "gtime \<Rightarrow> gtime list \<Rightarrow> gtime list \<Rightarrow> gtime list" where
  "keptScheduled now kept [] = kept"
| "keptScheduled now kept (t # ts) =
     keptScheduled now (if After t now then kept @ [t] else kept) ts"

section \<open>Binary search\<close>

abbreviation lowest :: "('a \<Rightarrow> int) \<Rightarrow> 'a list \<Rightarrow> nat" where
  "lowest c xs \<equiv> length (takeWhile (\<lambda>x. c x < 0) xs)"

lemma bsearch_stop: "\<not> i < j \<Longrightarrow> bsearch c xs i j = i"
  by (simp add: bsearch.simps)

lemma bsearch_range: "i \<le> j \<Longrightarrow> i \<le> bsearch c xs i j \<and> bsearch c xs i j \<le> j"
proof (induction c xs i j rule: bsearch.induct)
  case (1 c xs i j)
  show ?case
  proof (cases "i < j")
    case True
    let ?h = "(i + j) div 2"
    have "i \<le> ?h" "?h < j" using True by auto
    then show ?thesis
      using "1.IH"(1) [OF True refl] "1.IH"(2) [OF True refl] True
      by (subst bsearch.simps, subst (3) bsearch.simps) (auto simp: Let_def)
  qed (use 1 in \<open>simp add: bsearch.simps\<close>)
qed

text \<open>
  The invariant of the loop: everything below the range compares less, everything from its end
  on does not. At the end the range is empty, so its bound separates the list.
\<close>

lemma bsearch_separates:
  assumes "\<And>p q. p \<le> q \<Longrightarrow> q < length xs \<Longrightarrow> c (xs ! q) < 0 \<Longrightarrow> c (xs ! p) < 0"
    and "i \<le> j" "j \<le> length xs"
    and "\<And>k. k < i \<Longrightarrow> c (xs ! k) < 0"
    and "\<And>k. j \<le> k \<Longrightarrow> k < length xs \<Longrightarrow> \<not> c (xs ! k) < 0"
  shows "(\<forall>k < bsearch c xs i j. c (xs ! k) < 0) \<and>
    (\<forall>k. bsearch c xs i j \<le> k \<longrightarrow> k < length xs \<longrightarrow> \<not> c (xs ! k) < 0)"
  using assms
proof (induction c xs i j rule: bsearch.induct)
  case (1 c xs i j)
  show ?case
  proof (cases "i < j")
    case True
    let ?h = "(i + j) div 2"
    have h: "i \<le> ?h" "?h < j" using True by auto
    show ?thesis
    proof (cases "c (xs ! ?h) < 0")
      case less: True
      have "(\<forall>k < bsearch c xs (?h + 1) j. c (xs ! k) < 0) \<and>
        (\<forall>k. bsearch c xs (?h + 1) j \<le> k \<longrightarrow> k < length xs \<longrightarrow> \<not> c (xs ! k) < 0)"
      proof (rule "1.IH"(1) [OF True refl less])
        show "c (xs ! k) < 0" if "k < ?h + 1" for k
          using "1.prems"(1) [of k ?h] that less h "1.prems"(3) by simp
      qed (use h "1.prems" in auto)
      then show ?thesis using True less by (simp add: bsearch.simps [of c xs i j] Let_def)
    next
      case ge: False
      have "(\<forall>k < bsearch c xs i ?h. c (xs ! k) < 0) \<and>
        (\<forall>k. bsearch c xs i ?h \<le> k \<longrightarrow> k < length xs \<longrightarrow> \<not> c (xs ! k) < 0)"
      proof (rule "1.IH"(2) [OF True refl ge])
        show "\<not> c (xs ! k) < 0" if "?h \<le> k" "k < length xs" for k
          using "1.prems"(1) [of ?h k] that ge by blast
      qed (use h "1.prems" in auto)
      then show ?thesis using True ge by (simp add: bsearch.simps [of c xs i j] Let_def)
    qed
  next
    case False
    with "1.prems" show ?thesis by (simp add: bsearch_stop)
  qed
qed

lemma separator_unique:
  assumes "n \<le> length xs" "\<forall>k<n. P (xs ! k)" "n < length xs \<Longrightarrow> \<not> P (xs ! n)"
  shows "length (takeWhile P xs) = n"
  using assms takeWhile_eq_take_P_nth [of n xs P] by auto

lemma BinarySearchFunc_times:
  assumes "sorted_by inst ts"
  shows "BinarySearchFunc ts t ascendingTime =
    (length (takeWhile (\<lambda>x. inst x < inst t) ts), \<exists>x\<in>set ts. inst x = inst t)"
proof -
  let ?c = "\<lambda>x. ascendingTime x t" let ?n = "bsearch ?c ts 0 (length ts)"
  have neg: "?c x < 0 \<longleftrightarrow> inst x < inst t" and zero: "?c x = 0 \<longleftrightarrow> inst x = inst t" for x
    by (auto simp: ascendingTime_def Compare_def)
  have mono: "p \<le> q \<Longrightarrow> q < length ts \<Longrightarrow> inst (ts ! p) \<le> inst (ts ! q)" for p q
    using assms by (rule sorted_by_nth_mono)
  have sep: "(\<forall>k < ?n. ?c (ts ! k) < 0) \<and> (\<forall>k. ?n \<le> k \<longrightarrow> k < length ts \<longrightarrow> \<not> ?c (ts ! k) < 0)"
    by (rule bsearch_separates) (use mono neg in \<open>auto dest: order_trans\<close>, force)
  have le: "?n \<le> length ts" using bsearch_range [of 0 "length ts" ?c ts] by simp
  have n: "length (takeWhile (\<lambda>x. inst x < inst t) ts) = ?n"
    using sep le by (intro separator_unique) (auto simp: neg)
  have "(\<exists>x\<in>set ts. inst x = inst t) \<longleftrightarrow> ?n < length ts \<and> inst (ts ! ?n) = inst t"
  proof
    assume "\<exists>x\<in>set ts. inst x = inst t"
    then obtain k where k: "k < length ts" "inst (ts ! k) = inst t" by (auto simp: in_set_conv_nth)
    then have "?n \<le> k" using sep neg by (metis less_irrefl not_less)
    then show "?n < length ts \<and> inst (ts ! ?n) = inst t"
      using k mono [of ?n k] sep neg by force
  qed auto
  then show ?thesis by (simp add: BinarySearchFunc_def Let_def n zero)
qed

text \<open>On any list, a hit is a hit.\<close>

lemma Compare_eq_0 [simp]: "Compare a b = 0 \<longleftrightarrow> inst a = inst b"
  by (simp add: Compare_def)

lemma nextScheduledContains_sound:
  assumes "nextScheduledContains ts t"
  shows "\<exists>x\<in>set ts. inst x = inst t"
proof -
  obtain n where "n < length ts" "Compare (ts ! n) t = 0"
    using assms unfolding nextScheduledContains_def BinarySearchFunc_def Let_def ascendingTime_def
    by auto
  then show ?thesis by (intro bexI [of _ "ts ! n"]) auto
qed

section \<open>The helpers of util.go\<close>

lemma nextScheduledContains_iff:
  "sorted_by inst ts \<Longrightarrow> nextScheduledContains ts t \<longleftrightarrow> (\<exists>x\<in>set ts. inst x = inst t)"
  by (simp add: nextScheduledContains_def BinarySearchFunc_times)

lemma insertNextScheduled_split:
  "sorted_by inst ts \<Longrightarrow> insertNextScheduled ts t =
     takeWhile (\<lambda>x. inst x < inst t) ts @ t # dropWhile (\<lambda>x. inst x < inst t) ts"
  by (simp add: insertNextScheduled_def BinarySearchFunc_times slices_Insert_def
      takeWhile_eq_take [symmetric] dropWhile_eq_drop [symmetric])

lemma mset_insertNextScheduled: "mset (insertNextScheduled ts t) = add_mset t (mset ts)"
proof -
  obtain i b where "BinarySearchFunc ts t ascendingTime = (i, b)" by force
  moreover have "mset (take i ts) + mset (drop i ts) = mset ts"
    by (metis append_take_drop_id mset_append)
  ultimately show ?thesis by (simp add: insertNextScheduled_def slices_Insert_def)
qed

lemma set_insertNextScheduled [simp]: "set (insertNextScheduled ts t) = insert t (set ts)"
  using mset_insertNextScheduled [of ts t] by (metis set_mset_add_mset_insert set_mset_mset)

lemma insertNextScheduled_not_Nil [simp]: "insertNextScheduled ts t \<noteq> []"
  using set_insertNextScheduled [of ts t] by (metis empty_iff insertI1 list.set(1))

lemma dropWhile_ge: "sorted_by inst ts \<Longrightarrow> x \<in> set (dropWhile (\<lambda>x. inst x < inst t) ts) \<Longrightarrow> inst t \<le> inst x"
proof (induction ts)
  case (Cons a ts)
  then show ?case by (cases "inst a < inst t") auto
qed simp

lemma sorted_by_dropWhile: "sorted_by key xs \<Longrightarrow> sorted_by key (dropWhile P xs)"
  by (metis sorted_by_append takeWhile_dropWhile_id)

lemma sorted_by_takeWhile: "sorted_by key xs \<Longrightarrow> sorted_by key (takeWhile P xs)"
  by (metis sorted_by_append takeWhile_dropWhile_id)

lemma strict_by_split:
  "strict_by key xs \<Longrightarrow> strict_by key (takeWhile P xs) \<and> strict_by key (dropWhile P xs)"
  by (metis strict_by_append takeWhile_dropWhile_id)

lemma sorted_insertNextScheduled:
  assumes "sorted_by inst ts"
  shows "sorted_by inst (insertNextScheduled ts t)"
proof -
  have "inst x < inst t" if "x \<in> set (takeWhile (\<lambda>x. inst x < inst t) ts)" for x
    using that by (rule set_takeWhileD [THEN conjunct2])
  then show ?thesis
    using assms dropWhile_ge [OF assms]
    by (fastforce simp: insertNextScheduled_split sorted_by_takeWhile sorted_by_dropWhile)
qed

lemma strict_insertNextScheduled:
  assumes strict: "strict_by inst ts" and new: "\<not> nextScheduledContains ts t"
  shows "strict_by inst (insertNextScheduled ts t)"
proof -
  have srt: "sorted_by inst ts" using strict by simp
  have fresh: "\<forall>x\<in>set ts. inst x \<noteq> inst t" using new nextScheduledContains_iff [OF srt] by blast
  have lo: "inst x < inst t" if "x \<in> set (takeWhile (\<lambda>x. inst x < inst t) ts)" for x
    using that by (rule set_takeWhileD [THEN conjunct2])
  have hi: "inst t < inst x" if "x \<in> set (dropWhile (\<lambda>x. inst x < inst t) ts)" for x
    using dropWhile_ge [OF srt that] fresh set_dropWhileD [OF that] by force
  show ?thesis
    using strict_by_split [OF strict, of "\<lambda>x. inst x < inst t"] lo hi
    by (fastforce simp: insertNextScheduled_split [OF srt])
qed

lemma keptScheduled_filter: "keptScheduled now kept ts = kept @ filter (\<lambda>t. After t now) ts"
  by (induction now kept ts rule: keptScheduled.induct) auto

text \<open>
  What \<open>scheduledTimeForRun\<close> returns is the latest entry not after the start, and the
  earliest entry when there is none.
\<close>

lemma scheduledTimeForRun_latest:
  assumes srt: "sorted_by inst ts" and ex: "\<exists>x\<in>set ts. inst x \<le> inst start"
  shows "\<exists>s. scheduledTimeForRun ts start = Some s \<and> s \<in> set ts \<and> inst s \<le> inst start \<and>
    (\<forall>x\<in>set ts. inst x \<le> inst start \<longrightarrow> inst x \<le> inst s)"
proof -
  let ?P = "\<lambda>x. inst x < inst start"
  let ?n = "length (takeWhile ?P ts)"
  note bs = BinarySearchFunc_times [OF srt, of start]
  show ?thesis
  proof (cases "\<exists>x\<in>set ts. inst x = inst start")
    case True
    then have "BinarySearchFunc ts start ascendingTime = (?n, True)" using bs by simp
    then have n: "?n < length ts" "inst (ts ! ?n) = inst start"
      by (auto simp: BinarySearchFunc_def Let_def ascendingTime_def Compare_def split: if_splits)
    then show ?thesis using True bs by (auto simp: scheduledTimeForRun_def)
  next
    case False
    then obtain x where x: "x \<in> set ts" "?P x" using ex by force
    then have "takeWhile ?P ts \<noteq> []"
      using srt by (cases ts) (auto dest: order.strict_trans1)
    then have pos: "0 < ?n" by simp
    let ?s = "ts ! (?n - 1)"
    have len: "?n \<le> length ts" by (rule length_takeWhile_le)
    have s: "?s \<in> set (takeWhile ?P ts)"
      using pos by (metis diff_less length_greater_0_conv nth_mem takeWhile_nth zero_less_one)
    have "inst y \<le> inst ?s" if y: "y \<in> set ts" "inst y \<le> inst start" for y
    proof -
      have "?P y" using y False by force
      obtain k where k: "k < length ts" "ts ! k = y" using y by (auto simp: in_set_conv_nth)
      have "k < ?n"
      proof (rule ccontr)
        assume "\<not> k < ?n"
        then have "?n \<le> k" by simp
        then have "?n < length ts" using k by simp
        then have "\<not> ?P (ts ! ?n)" by (rule nth_length_takeWhile)
        moreover have "inst (ts ! ?n) \<le> inst (ts ! k)"
          using srt \<open>?n \<le> k\<close> k by (intro sorted_by_nth_mono)
        ultimately show False using \<open>?P y\<close> k by simp
      qed
      then show ?thesis using k srt len sorted_by_nth_mono [of inst ts k "?n - 1"] by simp
    qed
    moreover have "scheduledTimeForRun ts start = Some ?s"
      using False pos bs by (simp add: scheduledTimeForRun_def)
    ultimately show ?thesis using s by (auto dest: set_takeWhileD)
  qed
qed

section \<open>The contract of a queue of scheduled times\<close>

text \<open>
  What the scheduler needs of the times it keeps for a job: a time it has checked not to be
  there can be added without losing the strict order, pruning keeps what is still to come, and
  the first entry is the next run.
\<close>

locale schedule_queue =
  fixes none :: "'q"
    and entries :: "'q \<Rightarrow> gtime list"
    and holds :: "'q \<Rightarrow> gtime \<Rightarrow> bool"
    and enqueue :: "'q \<Rightarrow> gtime \<Rightarrow> 'q"
    and prune :: "gtime \<Rightarrow> 'q \<Rightarrow> 'q"
  assumes entries_none: "entries none = []"
    and holds_entries: "strict_by inst (entries q) \<Longrightarrow> holds q t \<longleftrightarrow> (\<exists>x\<in>set (entries q). inst x = inst t)"
    and entries_enqueue: "set (entries (enqueue q t)) = insert t (set (entries q))"
    and enqueue_strict: "strict_by inst (entries q) \<Longrightarrow> \<not> holds q t \<Longrightarrow> strict_by inst (entries (enqueue q t))"
    and entries_prune: "entries (prune now q) = filter (\<lambda>t. After t now) (entries q)"
begin

lemma none_strict: "strict_by inst (entries none)"
  by (simp add: entries_none)

lemma prune_strict: "strict_by inst (entries q) \<Longrightarrow> strict_by inst (entries (prune now q))"
  by (simp add: entries_prune strict_by_filter)

lemma prune_upcoming: "t \<in> set (entries (prune now q)) \<Longrightarrow> After t now"
  by (simp add: entries_prune)

lemma first_is_next: "strict_by inst (entries q) \<Longrightarrow> x \<in> set (entries q) \<Longrightarrow> inst (hd (entries q)) \<le> inst x"
  by (intro sorted_by_hd) simp_all

lemma enqueue_first_strict: "strict_by inst (entries (enqueue none t))"
  using enqueue_strict [OF none_strict, of t] holds_entries [OF none_strict, of t]
  by (simp add: entries_none)

lemma holds_enqueue:
  "strict_by inst (entries q) \<Longrightarrow> \<not> holds q t \<Longrightarrow>
    holds (enqueue q t) u \<longleftrightarrow> inst u = inst t \<or> holds q u"
  by (simp add: holds_entries [OF enqueue_strict] holds_entries entries_enqueue) metis

end

interpretation sq: schedule_queue "[]" "\<lambda>q. q" nextScheduledContains insertNextScheduled
    "\<lambda>now. keptScheduled now []"
  by unfold_locales
    (simp_all add: nextScheduledContains_iff strict_insertNextScheduled keptScheduled_filter)

end
