(* ===== verification/Schedules.thy ===== *)
theory Schedules
  imports Slices
begin

text \<open>
  The calendar and interval schedules of job.go and their \<open>next\<close> methods: \<open>durationJob\<close>,
  \<open>durationRandomJob\<close>, \<open>dailyJob\<close>, \<open>weeklyJob\<close> and \<open>oneTimeJob\<close>, and the daylight saving
  rule the calendar schedules share. The zero time is the code's "no next run". The loops
  that skip over gaps may run forever: there the result is \<open>None\<close>. Intervals are 64-bit
  unsigned words, read through \<open>sint\<close> where the code converts them to int.
\<close>

section \<open>Daylight saving gaps\<close>

datatype DaylightSavingsTimePolicy =
  DaylightSavingsTimeDefault | DaylightSavingsTimeSkip | DaylightSavingsTimeRunAfterTransition

definition daylightSavingsTimeRunAfterTransitionTime :: "gtime \<Rightarrow> int \<Rightarrow> int \<Rightarrow> int \<Rightarrow> gtime" where
  "daylightSavingsTimeRunAfterTransitionTime normalized requestedHour requestedMin requestedSec =
     (let offset = (requestedHour - Hour normalized) * (3600 * nanos) +
            (requestedMin - Minute normalized) * (60 * nanos) +
            (requestedSec - Second normalized) * nanos
      in if offset \<le> 0 then normalized else Add normalized offset)"

text \<open>The wall clock of \<open>d\<close> is not the one asked for by \<open>at\<close>.\<close>

definition clock_differs :: "gtime \<Rightarrow> gtime \<Rightarrow> bool" where
  "clock_differs d at \<longleftrightarrow> Hour d \<noteq> Hour at \<or> Minute d \<noteq> Minute at \<or> Second d \<noteq> Second at"

text \<open>The time to use for an at-time, \<open>None\<close> where the loop goes on to the next one.\<close>

definition gap_adjust :: "DaylightSavingsTimePolicy \<Rightarrow> gtime \<Rightarrow> gtime \<Rightarrow> gtime option" where
  "gap_adjust pol d at =
     (if clock_differs d at then
        (case pol of
           DaylightSavingsTimeSkip \<Rightarrow> None
         | DaylightSavingsTimeRunAfterTransition \<Rightarrow>
             Some (daylightSavingsTimeRunAfterTransitionTime d (Hour at) (Minute at) (Second at))
         | DaylightSavingsTimeDefault \<Rightarrow> Some d)
      else Some d)"

text \<open>
  The loop \<open>for next.IsZero()\<close> of the daily and the weekly job, entered with the offset of the
  last try: it moves on by one stride of days until the attempt finds a time.
\<close>

partial_function (option) skip_loop :: "(int \<Rightarrow> gtime) \<Rightarrow> int \<Rightarrow> int \<Rightarrow> gtime option" where
  "skip_loop attempt stride dayOffset =
     (let dayOffset = dayOffset + stride;
          n = attempt dayOffset
      in if IsZero n then skip_loop attempt stride dayOffset else Some n)"

declare skip_loop.simps [code]

section \<open>durationJob and durationRandomJob\<close>

record durationJob =
  duration :: int

definition duration_next :: "durationJob \<Rightarrow> gtime \<Rightarrow> gtime" where
  "duration_next j lastRun = Add lastRun (duration j)"

record durationRandomJob =
  min_duration :: int
  max_duration :: int

text \<open>\<open>rnd n\<close> is the value drawn by \<open>rand.Int64N\<close>, which lies in \<open>0..<n\<close> and panics for n <= 0.\<close>

definition durationRandom_next :: "(int \<Rightarrow> int) \<Rightarrow> durationRandomJob \<Rightarrow> gtime \<Rightarrow> gtime" where
  "durationRandom_next rnd j lastRun =
     (let r = rnd (max_duration j - min_duration j) in Add lastRun (min_duration j + r))"

section \<open>dailyJob\<close>

record dailyJob =
  d_interval :: "64 word"
  d_atTimes :: "gtime list"
  d_policy :: DaylightSavingsTimePolicy

fun nextDay_loop :: "DaylightSavingsTimePolicy \<Rightarrow> gtime \<Rightarrow> gtime \<Rightarrow> gtime list \<Rightarrow> gtime" where
  "nextDay_loop pol lastRun date [] = zero_time"
| "nextDay_loop pol lastRun date (at # ats) =
     (case gap_adjust pol (Date (Year date) (Month date) (Day date) (Hour at) (Minute at) (Second at)
             0 (tloc lastRun)) at of
        None \<Rightarrow> nextDay_loop pol lastRun date ats
      | Some atDate \<Rightarrow> if After atDate lastRun then atDate else nextDay_loop pol lastRun date ats)"

definition nextDay :: "dailyJob \<Rightarrow> gtime \<Rightarrow> int \<Rightarrow> gtime" where
  "nextDay d lastRun dayOffset =
     (let date = Date (Year lastRun) (Month lastRun) (Day lastRun + dayOffset) 0 0 0 0 UTC
      in nextDay_loop (d_policy d) lastRun date (d_atTimes d))"

definition daily_next :: "dailyJob \<Rightarrow> gtime \<Rightarrow> gtime option" where
  "daily_next d lastRun =
     (let n = nextDay d lastRun 0 in
      if \<not> IsZero n then Some n
      else
        let dayOffset = sint (d_interval d);
            n = nextDay d lastRun dayOffset in
        if \<not> IsZero n then Some n
        else if d_policy d = DaylightSavingsTimeSkip then
          skip_loop (nextDay d lastRun) (sint (d_interval d)) dayOffset
        else Some n)"

section \<open>weeklyJob\<close>

record weeklyJob =
  w_interval :: "64 word"
  w_daysOfWeek :: "int list"
  w_atTimes :: "gtime list"
  w_policy :: DaylightSavingsTimePolicy

fun weekDay_at_loop :: "DaylightSavingsTimePolicy \<Rightarrow> gtime \<Rightarrow> gtime \<Rightarrow> int \<Rightarrow> gtime list \<Rightarrow> gtime option" where
  "weekDay_at_loop pol lastRun date weekDayDiff [] = None"
| "weekDay_at_loop pol lastRun date weekDayDiff (at # ats) =
     (case gap_adjust pol (Date (Year date) (Month date) (Day date + weekDayDiff)
             (Hour at) (Minute at) (Second at) 0 (tloc lastRun)) at of
        None \<Rightarrow> weekDay_at_loop pol lastRun date weekDayDiff ats
      | Some atDate \<Rightarrow>
          if After atDate lastRun then Some atDate
          else weekDay_at_loop pol lastRun date weekDayDiff ats)"

fun weekDays_loop :: "DaylightSavingsTimePolicy \<Rightarrow> gtime \<Rightarrow> gtime \<Rightarrow> gtime list \<Rightarrow> int list \<Rightarrow> gtime" where
  "weekDays_loop pol lastRun date ats [] = zero_time"
| "weekDays_loop pol lastRun date ats (wd # wds) =
     (if Weekday date \<le> wd then
        (case weekDay_at_loop pol lastRun date (wd - Weekday date) ats of
           Some atDate \<Rightarrow> atDate
         | None \<Rightarrow> weekDays_loop pol lastRun date ats wds)
      else weekDays_loop pol lastRun date ats wds)"

definition nextWeekDayAtTime :: "weeklyJob \<Rightarrow> gtime \<Rightarrow> int \<Rightarrow> gtime" where
  "nextWeekDayAtTime w lastRun dayOffset =
     (let date = Date (Year lastRun) (Month lastRun) (Day lastRun + dayOffset) 0 0 0 0 UTC
      in weekDays_loop (w_policy w) lastRun date (w_atTimes w) (w_daysOfWeek w))"

definition weekly_next :: "weeklyJob \<Rightarrow> gtime \<Rightarrow> gtime option" where
  "weekly_next w lastRun =
     (let n = nextWeekDayAtTime w lastRun 0 in
      if \<not> IsZero n then Some n
      else
        let dayOffset = sint (w_interval w * 7) - Weekday lastRun;
            n = nextWeekDayAtTime w lastRun dayOffset in
        if \<not> IsZero n then Some n
        else if w_policy w = DaylightSavingsTimeSkip then
          skip_loop (nextWeekDayAtTime w lastRun) (sint (w_interval w * 7)) dayOffset
        else Some n)"

section \<open>oneTimeJob\<close>

record oneTimeJob =
  sortedTimes :: "gtime list"

definition oneTime_next :: "oneTimeJob \<Rightarrow> gtime \<Rightarrow> gtime" where
  "oneTime_next o1 lastRun =
     (case BinarySearchFunc (sortedTimes o1) lastRun ascendingTime of (idx, found) \<Rightarrow>
        let idx = (if found then idx + 1 else idx)
        in if length (sortedTimes o1) \<le> idx then zero_time else sortedTimes o1 ! idx)"

section \<open>Days and clock readings\<close>

text \<open>
  \<open>time_at l w\<close> is the time \<open>time.Date\<close> gives for the wall-clock second \<open>w\<close>; the code's
  candidates are such times, for a day and the clock reading of an at-time.
\<close>

definition time_at :: "location \<Rightarrow> int \<Rightarrow> gtime" where
  "time_at l w = \<lparr>inst = resolve_wall l w * nanos, tloc = l\<rparr>"

definition day_of :: "gtime \<Rightarrow> int" where
  "day_of t = wall t div 86400"

definition clock_of :: "gtime \<Rightarrow> int" where
  "clock_of t = wall t mod 86400"

lemma Date_time_at: "Date y m d h mi s 0 l = time_at l (wall_seconds y m d h mi s)"
  by (simp add: Date_def time_at_def)

lemma tloc_time_at [simp]: "tloc (time_at l w) = l"
  by (simp add: time_at_def)

lemma wall_time_at: "wall (time_at l w) = wall_of l (resolve_wall l w)"
  by (simp add: wall_def time_at_def)

lemma clock_of_range: "0 \<le> clock_of t" "clock_of t < 86400"
  by (simp_all add: clock_of_def)

lemma clock_of_fields: "Hour t * 3600 + Minute t * 60 + Second t = clock_of t"
proof -
  have "wall t mod 86400 mod 3600 = wall t mod 3600" "wall t mod 3600 mod 60 = wall t mod 60"
    by (simp_all add: mod_mod_cancel)
  then show ?thesis
    unfolding clock_of_def Hour_def Minute_def Second_def
    using div_mult_mod_eq [of "wall t mod 86400" 3600] div_mult_mod_eq [of "wall t mod 3600" 60]
    by linarith
qed

lemma wall_split: "wall t = day_of t * 86400 + clock_of t"
  by (simp add: day_of_def clock_of_def)

lemma clock_differs_iff: "clock_differs d at \<longleftrightarrow> clock_of d \<noteq> clock_of at"
proof
  assume "clock_differs d at"
  then show "clock_of d \<noteq> clock_of at"
    unfolding clock_differs_def
    using clock_of_seconds(2-4) [OF valid_clock_fields, of 0 d] clock_of_seconds(2-4) [OF valid_clock_fields, of 0 at]
    by (auto simp only: clock_of_fields mult_zero_left add_0)
next
  assume "clock_of d \<noteq> clock_of at"
  then show "clock_differs d at"
    using clock_of_fields [of d] clock_of_fields [of at] by (auto simp: clock_differs_def)
qed

lemma wall_seconds_civil:
  "wall_seconds (civil_year n) (civil_month n) (civil_day n + k) h mi s =
     (n + k) * 86400 + h * 3600 + mi * 60 + s"
  using valid_civil [of n]
  by (simp add: wall_seconds_valid valid_date_def day_number_shift)

text \<open>The date in UTC that the code starts a day from, and the candidate on a day.\<close>

lemma UTC_start_of_day:
  fixes lastRun :: gtime and dayOffset :: int
  defines "date \<equiv> Date (Year lastRun) (Month lastRun) (Day lastRun + dayOffset) 0 0 0 0 UTC"
  shows "wall date = (day_of lastRun + dayOffset) * 86400"
    and "Weekday date = (day_of lastRun + dayOffset + 1) mod 7"
    and "Date (Year date) (Month date) (Day date + k) (Hour at) (Minute at) (Second at) 0 l =
      time_at l ((day_of lastRun + dayOffset + k) * 86400 + clock_of at)"
proof -
  have "wall date = wall_seconds (Year lastRun) (Month lastRun) (Day lastRun + dayOffset) 0 0 0"
    unfolding date_def wall_Date by (rule wall_of_resolve_fixed) (simp add: UTC_def)
  then show w: "wall date = (day_of lastRun + dayOffset) * 86400"
    by (simp add: Year_def Month_def Day_def day_of_def wall_seconds_civil)
  then show "Weekday date = (day_of lastRun + dayOffset + 1) mod 7"
    by (simp add: Weekday_def)
  show "Date (Year date) (Month date) (Day date + k) (Hour at) (Minute at) (Second at) 0 l =
      time_at l ((day_of lastRun + dayOffset + k) * 86400 + clock_of at)"
    by (simp add: Date_time_at Year_def [of date] Month_def [of date] Day_def [of date] w
        wall_seconds_civil clock_of_fields [symmetric] add.assoc)
qed

lemma Weekday_day_of: "Weekday t = (day_of t + 1) mod 7"
  by (simp add: Weekday_def day_of_def)

section \<open>The search for a candidate\<close>

text \<open>
  Both calendar loops take the first wall-clock second of a list whose time, adjusted for a
  gap, is after the last run; \<open>pick\<close> is that search, with the clock reading each second stands
  for as the at-time.
\<close>

fun pick :: "DaylightSavingsTimePolicy \<Rightarrow> gtime \<Rightarrow> (int \<times> gtime) list \<Rightarrow> gtime option" where
  "pick pol lastRun [] = None"
| "pick pol lastRun ((w, at) # cs) =
     (case gap_adjust pol (time_at (tloc lastRun) w) at of
        None \<Rightarrow> pick pol lastRun cs
      | Some t \<Rightarrow> if After t lastRun then Some t else pick pol lastRun cs)"

definition or_zero :: "gtime option \<Rightarrow> gtime" where
  "or_zero r = (case r of None \<Rightarrow> zero_time | Some t \<Rightarrow> t)"

lemma or_zero_simps [simp]: "or_zero None = zero_time" "or_zero (Some t) = t"
  by (simp_all add: or_zero_def)

lemma pick_append:
  "pick pol lastRun (cs @ ds) =
     (case pick pol lastRun cs of None \<Rightarrow> pick pol lastRun ds | Some t \<Rightarrow> Some t)"
  by (induction pol lastRun cs rule: pick.induct) (auto split: option.splits)

lemma pick_SomeD:
  "pick pol lastRun cs = Some t \<Longrightarrow>
     After t lastRun \<and> (\<exists>(w, at)\<in>set cs. gap_adjust pol (time_at (tloc lastRun) w) at = Some t)"
  by (induction pol lastRun cs rule: pick.induct) (auto split: option.splits if_splits)

lemma pick_NoneD:
  "pick pol lastRun cs = None \<Longrightarrow> (w, at) \<in> set cs \<Longrightarrow>
     gap_adjust pol (time_at (tloc lastRun) w) at = Some t \<Longrightarrow> \<not> After t lastRun"
  by (induction pol lastRun cs rule: pick.induct) (auto split: option.splits if_splits)

definition day_candidates :: "int \<Rightarrow> gtime list \<Rightarrow> (int \<times> gtime) list" where
  "day_candidates n ats = map (\<lambda>at. (n * 86400 + clock_of at, at)) ats"

definition week_candidates :: "int \<Rightarrow> int list \<Rightarrow> gtime list \<Rightarrow> (int \<times> gtime) list" where
  "week_candidates sunday wds ats = concat (map (\<lambda>wd. day_candidates (sunday + wd) ats) wds)"

lemma nextDay_pick:
  "nextDay d lastRun k = or_zero (pick (d_policy d) lastRun (day_candidates (day_of lastRun + k) (d_atTimes d)))"
proof -
  let ?date = "Date (Year lastRun) (Month lastRun) (Day lastRun + k) 0 0 0 0 UTC"
  have "nextDay_loop pol lastRun ?date ats = or_zero (pick pol lastRun (day_candidates (day_of lastRun + k) ats))"
    for pol ats
    using UTC_start_of_day(3) [of lastRun k 0]
    by (induction ats) (auto simp: day_candidates_def split: option.splits)
  then show ?thesis by (simp add: nextDay_def Let_def)
qed

text \<open>
  A weekly search from a date takes the days of the week from that date's weekday on, at the
  Sunday that starts its week.
\<close>

lemma nextWeekDay_pick:
  assumes date: "sunday = day_of lastRun + k - (day_of lastRun + k + 1) mod 7"
  shows "nextWeekDayAtTime w lastRun k = or_zero (pick (w_policy w) lastRun
    (week_candidates sunday (filter (\<lambda>wd. (day_of lastRun + k + 1) mod 7 \<le> wd) (w_daysOfWeek w)) (w_atTimes w)))"
proof -
  let ?date = "Date (Year lastRun) (Month lastRun) (Day lastRun + k) 0 0 0 0 UTC"
  let ?v = "(day_of lastRun + k + 1) mod 7"
  have inner: "weekDay_at_loop pol lastRun ?date (wd - ?v) ats = pick pol lastRun (day_candidates (sunday + wd) ats)"
    for pol ats wd
  proof (induction ats)
    case (Cons at ats)
    have "day_of lastRun + k + (wd - ?v) = sunday + wd" by (simp add: date)
    then have "Date (Year ?date) (Month ?date) (Day ?date + (wd - ?v)) (Hour at) (Minute at) (Second at)
        0 (tloc lastRun) = time_at (tloc lastRun) ((sunday + wd) * 86400 + clock_of at)"
      unfolding UTC_start_of_day(3) by (simp only:)
    then show ?case using Cons by (simp add: day_candidates_def split: option.split)
  qed (simp add: day_candidates_def)
  have "weekDays_loop pol lastRun ?date ats wds =
      or_zero (pick pol lastRun (week_candidates sunday (filter (\<lambda>wd. ?v \<le> wd) wds) ats))" for pol ats wds
    by (induction wds)
      (auto simp: week_candidates_def inner UTC_start_of_day(2) pick_append split: option.splits)
  then show ?thesis by (simp add: nextWeekDayAtTime_def Let_def)
qed

end
