(* ===== verification/CalendarFacts.thy ===== *)
theory CalendarFacts
  imports Schedules
begin

text \<open>
  What the daily, weekly and one-time schedules compute. For a location without transitions the
  result is the earliest candidate after the last run; for every location the result is after
  the last run, stands on a day and an at-time of the schedule, and the skipping loops return.
\<close>

section \<open>Candidates that exist on the wall clock\<close>

lemma gap_adjust_exact:
  "wall_of l (resolve_wall l w) = w \<Longrightarrow> clock_of at = w mod 86400 \<Longrightarrow>
     gap_adjust pol (time_at l w) at = Some (time_at l w)"
  by (simp add: gap_adjust_def clock_differs_iff clock_of_def [of "time_at l w"] wall_time_at)

lemma gap_adjust_skip:
  "gap_adjust DaylightSavingsTimeSkip d at = Some t \<longleftrightarrow> t = d \<and> clock_of d = clock_of at"
  by (auto simp: gap_adjust_def clock_differs_iff)

lemma day_candidates_mem:
  "(w, at) \<in> set (day_candidates n ats) \<longleftrightarrow> at \<in> set ats \<and> w = n * 86400 + clock_of at"
  by (auto simp: day_candidates_def)

lemma week_candidates_mem:
  "(w, at) \<in> set (week_candidates sunday wds ats) \<longleftrightarrow>
     at \<in> set ats \<and> (\<exists>wd\<in>set wds. w = (sunday + wd) * 86400 + clock_of at)"
  by (auto simp: week_candidates_def day_candidates_mem)

definition clocks_agree :: "(int \<times> gtime) list \<Rightarrow> bool" where
  "clocks_agree cs \<longleftrightarrow> (\<forall>(w, at)\<in>set cs. clock_of at = w mod 86400)"

lemma candidate_clock: "clock_of at = (n * 86400 + clock_of at) mod 86400"
  using clock_of_range [of at] by simp

lemma clocks_agree_candidates [simp]:
  "clocks_agree (day_candidates n ats)" "clocks_agree (week_candidates n wds ats)"
  unfolding clocks_agree_def using candidate_clock
  by (blast dest: day_candidates_mem [THEN iffD1] week_candidates_mem [THEN iffD1])+

section \<open>Locations without transitions\<close>

definition fixed_zone :: "location \<Rightarrow> bool" where
  "fixed_zone l \<longleftrightarrow> loc_tx l = []"

lemma wall_time_at_fixed [simp]: "fixed_zone l \<Longrightarrow> wall (time_at l w) = w"
  by (simp add: fixed_zone_def wall_time_at wall_of_resolve_fixed)

lemma inst_time_at_fixed: "fixed_zone l \<Longrightarrow> inst (time_at l w) = (w - loc_base l) * nanos"
  by (simp add: fixed_zone_def time_at_def resolve_wall_fixed)

lemma wall_fixed: "fixed_zone (tloc t) \<Longrightarrow> wall t = inst t div nanos + loc_base (tloc t)"
  by (simp add: fixed_zone_def wall_def wall_of_def offset_at_fixed)

lemma After_time_at_fixed:
  assumes "fixed_zone (tloc u)"
  shows "After (time_at (tloc u) w) u \<longleftrightarrow> wall u < w"
proof -
  have "inst u < (w - loc_base (tloc u)) * nanos \<longleftrightarrow> inst u div nanos < w - loc_base (tloc u)"
    by (simp add: div_less_iff)
  then show ?thesis using assms by (simp add: After_def inst_time_at_fixed wall_fixed less_diff_eq)
qed

text \<open>The earliest of a list of wall-clock seconds after a given one.\<close>

definition earliest_after :: "int \<Rightarrow> int list \<Rightarrow> int option" where
  "earliest_after x ws = (let later = filter (\<lambda>w. x < w) ws
     in if later = [] then None else Some (Min (set later)))"

lemma earliest_after_SomeD:
  assumes "earliest_after x ws = Some w"
  shows "w \<in> set ws" "x < w" "\<And>v. v \<in> set ws \<Longrightarrow> x < v \<Longrightarrow> w \<le> v"
proof -
  let ?c = "filter (\<lambda>w. x < w) ws"
  have c: "?c \<noteq> []" "w = Min (set ?c)"
    using assms by (auto simp: earliest_after_def Let_def split: if_splits)
  then have "w \<in> set ?c" using Min_in [of "set ?c"] by (simp del: set_filter)
  then show "w \<in> set ws" "x < w" by auto
  show "w \<le> v" if "v \<in> set ws" "x < v" for v
    unfolding c(2) using that by (intro Min_le) auto
qed

lemma earliest_after_None: "earliest_after x ws = None \<longleftrightarrow> (\<forall>w\<in>set ws. w \<le> x)"
  by (auto simp: earliest_after_def Let_def filter_empty_conv not_less)

lemma earliest_after_Cons:
  assumes "\<forall>v\<in>set ws. w \<le> v"
  shows "earliest_after x (w # ws) = (if x < w then Some w else earliest_after x ws)"
  using assms by (auto simp: earliest_after_def Let_def intro!: Min_eqI)

lemma pick_fixed:
  assumes "fixed_zone (tloc lastRun)" "clocks_agree cs" "sorted (map fst cs)"
  shows "pick pol lastRun cs =
    map_option (time_at (tloc lastRun)) (earliest_after (wall lastRun) (map fst cs))"
  using assms
proof (induction cs)
  case Nil
  then show ?case by (simp add: earliest_after_def)
next
  case (Cons c cs)
  obtain w at where c: "c = (w, at)" by force
  have "clock_of at = w mod 86400" using Cons.prems by (simp add: c clocks_agree_def)
  moreover have "wall_of (tloc lastRun) (resolve_wall (tloc lastRun) w) = w"
    using Cons.prems(1) wall_time_at_fixed by (simp add: wall_time_at)
  ultimately have "gap_adjust pol (time_at (tloc lastRun) w) at = Some (time_at (tloc lastRun) w)"
    by (rule gap_adjust_exact [rotated])
  moreover have "clocks_agree cs" using Cons.prems by (simp add: c clocks_agree_def)
  ultimately show ?case
    using Cons by (simp add: c After_time_at_fixed earliest_after_Cons)
qed

section \<open>Sorted candidates\<close>

lemma sorted_day_candidates:
  "sorted (map clock_of ats) \<Longrightarrow> sorted (map fst (day_candidates n ats))"
  by (simp add: day_candidates_def o_def sorted_wrt_map)

lemma sorted_week_candidates:
  "sorted (map clock_of ats) \<Longrightarrow> strict_by (\<lambda>x. x) wds \<Longrightarrow>
     sorted (map fst (week_candidates sunday wds ats))"
proof (induction wds)
  case Nil
  then show ?case by (simp add: week_candidates_def)
next
  case (Cons wd wds)
  have first: "v \<le> w" if v: "v \<in> fst ` set (day_candidates (sunday + wd) ats)"
    and w: "w \<in> fst ` set (week_candidates sunday wds ats)" for v w
  proof -
    obtain at where at: "v = (sunday + wd) * 86400 + clock_of at"
      using v by (auto simp: day_candidates_mem)
    obtain wd' at' where w': "wd' \<in> set wds" "w = (sunday + wd') * 86400 + clock_of at'"
      using w by (auto simp: week_candidates_mem)
    have "wd < wd'" using Cons.prems w'(1) by simp
    then have "(sunday + wd) * 86400 + 86400 \<le> (sunday + wd') * 86400" by simp
    then show ?thesis using at w'(2) clock_of_range [of at] clock_of_range [of at'] by linarith
  qed
  then show ?case
    using Cons sorted_day_candidates [of ats "sunday + wd"] first
    by (fastforce simp: week_candidates_def sorted_append)
qed

text \<open>A day given twice in a row adds nothing to a search.\<close>

lemma pick_repeat: "pick pol lastRun (cs @ cs @ ds) = pick pol lastRun (cs @ ds)"
  by (simp add: pick_append split: option.splits)

lemma pick_week_remdups_adj:
  "pick pol lastRun (week_candidates sunday (remdups_adj wds) ats) = pick pol lastRun (week_candidates sunday wds ats)"
proof (induction wds rule: remdups_adj.induct)
  case (3 x y xs)
  show ?case
  proof (cases "x = y")
    case True
    then show ?thesis
      using 3 pick_repeat [of pol lastRun "day_candidates (sunday + y) ats"]
      by (simp add: week_candidates_def)
  next
    case False
    then show ?thesis
      using 3 by (simp add: week_candidates_def pick_append split: option.splits)
  qed
qed simp_all

lemma strict_remdups_adj: "sorted wds \<Longrightarrow> strict_by (\<lambda>x. x) (remdups_adj wds)" for wds :: "int list"
  by (induction wds rule: remdups_adj.induct) (auto simp: order.strict_iff_order)

lemma week_candidates_set:
  "set (map fst (week_candidates sunday wds ats)) =
     (\<Union>wd\<in>set wds. (\<lambda>at. (sunday + wd) * 86400 + clock_of at) ` set ats)"
  by (simp add: week_candidates_def day_candidates_def image_UN image_image)

lemma earliest_after_set_cong: "set vs = set ws \<Longrightarrow> earliest_after x vs = earliest_after x ws"
  by (simp add: earliest_after_def Let_def filter_empty_conv)

text \<open>The search of a week, on the sorted days the setup of a weekly job leaves.\<close>

lemma pick_week_fixed:
  assumes "fixed_zone (tloc lastRun)" "sorted wds" "sorted (map clock_of ats)"
  shows "pick pol lastRun (week_candidates sunday wds ats) =
    map_option (time_at (tloc lastRun)) (earliest_after (wall lastRun) (map fst (week_candidates sunday wds ats)))"
proof -
  have "pick pol lastRun (week_candidates sunday wds ats) =
      pick pol lastRun (week_candidates sunday (remdups_adj wds) ats)"
    by (simp add: pick_week_remdups_adj)
  also have "\<dots> = map_option (time_at (tloc lastRun))
      (earliest_after (wall lastRun) (map fst (week_candidates sunday (remdups_adj wds) ats)))"
    using assms by (intro pick_fixed sorted_week_candidates strict_remdups_adj clocks_agree_candidates)
  also have "earliest_after (wall lastRun) (map fst (week_candidates sunday (remdups_adj wds) ats)) =
      earliest_after (wall lastRun) (map fst (week_candidates sunday wds ats))"
    unfolding week_candidates_set by (rule earliest_after_set_cong) (simp only: week_candidates_set remdups_adj_set)
  finally show ?thesis .
qed

section \<open>Intervals as machine words\<close>

lemma sint_small: "uint x < 2 ^ 63 \<Longrightarrow> sint x = uint x" for x :: "64 word"
proof -
  assume small: "uint x < 2 ^ 63"
  have "- (2 ^ 63) \<le> uint x" by (rule order_trans [OF _ unsigned_greater_eq]) simp
  then show ?thesis using small signed_take_bit_int_eq_self [of 63 "uint x"] by (simp add: sint_uint)
qed

lemma sint_times_7:
  fixes x :: "64 word"
  assumes "uint x * 7 < 2 ^ 63"
  shows "sint (x * 7) = 7 * uint x"
proof -
  have "uint (x * 7) = uint x * 7 mod 2 ^ 64"
    by (simp add: uint_word_ariths)
  also have "\<dots> = uint x * 7" using assms by simp
  finally show ?thesis using assms sint_small [of "x * 7"] by simp
qed

section \<open>Results after the zero time\<close>

text \<open>A candidate after a last run that is not before the zero time is not the zero time.\<close>

lemma After_not_zero: "After t u \<Longrightarrow> 0 \<le> inst u \<Longrightarrow> \<not> IsZero t"
  by (simp add: After_def IsZero_def)

lemma or_zero_pick_IsZero:
  assumes "0 \<le> inst lastRun"
  shows "IsZero (or_zero (pick pol lastRun cs)) \<longleftrightarrow> pick pol lastRun cs = None"
  using assms pick_SomeD [of pol lastRun cs] After_not_zero by (cases "pick pol lastRun cs") auto

lemma or_zero_pickD:
  assumes "\<not> IsZero (or_zero (pick pol lastRun cs))"
  shows "After (or_zero (pick pol lastRun cs)) lastRun \<and>
    (\<exists>(w, at)\<in>set cs. gap_adjust pol (time_at (tloc lastRun) w) at = Some (or_zero (pick pol lastRun cs)))"
  using assms pick_SomeD [of pol lastRun cs] by (cases "pick pol lastRun cs") auto

section \<open>Daily jobs\<close>

definition day_walls :: "int \<Rightarrow> gtime list \<Rightarrow> int list" where
  "day_walls n ats = map (\<lambda>at. n * 86400 + clock_of at) ats"

lemma day_walls_candidates: "map fst (day_candidates n ats) = day_walls n ats"
  by (simp add: day_candidates_def day_walls_def)

lemma earliest_after_all:
  assumes "ws \<noteq> []" "sorted ws" "x < hd ws"
  shows "earliest_after x ws = Some (hd ws)"
  using assms by (cases ws) (auto simp: earliest_after_Cons)

lemma nextDay_fixed:
  assumes "fixed_zone (tloc lastRun)" "sorted (map clock_of (d_atTimes d))"
  shows "nextDay d lastRun k = or_zero (map_option (time_at (tloc lastRun))
    (earliest_after (wall lastRun) (day_walls (day_of lastRun + k) (d_atTimes d))))"
  using pick_fixed [OF assms(1) clocks_agree_candidates(1) sorted_day_candidates [OF assms(2)]]
  by (simp add: nextDay_pick day_walls_candidates)

lemma nextDay_pos:
  "0 \<le> inst lastRun \<Longrightarrow> IsZero (nextDay d lastRun k) \<longleftrightarrow>
     pick (d_policy d) lastRun (day_candidates (day_of lastRun + k) (d_atTimes d)) = None"
  by (simp add: nextDay_pick or_zero_pick_IsZero)

lemma nextDay_sound:
  assumes "\<not> IsZero (nextDay d lastRun k)"
  shows "After (nextDay d lastRun k) lastRun \<and> (\<exists>at\<in>set (d_atTimes d).
    gap_adjust (d_policy d) (time_at (tloc lastRun) ((day_of lastRun + k) * 86400 + clock_of at)) at =
      Some (nextDay d lastRun k))"
  using or_zero_pickD [of "d_policy d" lastRun "day_candidates (day_of lastRun + k) (d_atTimes d)"] assms
  by (fastforce simp: nextDay_pick day_candidates_mem)

section \<open>The skipping loop\<close>

lemma skip_loop_result:
  assumes "skip_loop attempt stride off = Some t"
  shows "\<exists>i\<ge>1. t = attempt (off + i * stride) \<and> \<not> IsZero t"
proof (rule skip_loop.raw_induct [where P = "\<lambda>attempt stride off t.
      \<exists>i\<ge>1. t = attempt (off + i * stride) \<and> \<not> IsZero t", OF _ assms])
  fix f :: "(int \<Rightarrow> gtime) \<Rightarrow> int \<Rightarrow> int \<Rightarrow> gtime option"
    and attempt :: "int \<Rightarrow> gtime" and stride off t
  assume IH: "\<And>attempt stride off t. f attempt stride off = Some t \<Longrightarrow>
      \<exists>i\<ge>1. t = attempt (off + i * stride) \<and> \<not> IsZero t"
    and eq: "(let dayOffset = off + stride; n = attempt dayOffset
      in if IsZero n then f attempt stride dayOffset else Some n) = Some t"
  show "\<exists>i\<ge>1. t = attempt (off + i * stride) \<and> \<not> IsZero t"
  proof (cases "IsZero (attempt (off + stride))")
    case True
    then obtain i where "1 \<le> i" "t = attempt (off + stride + i * stride)" "\<not> IsZero t"
      using eq IH [of attempt stride "off + stride" t] by (auto simp: Let_def)
    then show ?thesis by (intro exI [of _ "i + 1"]) (simp add: algebra_simps)
  next
    case False
    then show ?thesis using eq by (intro exI [of _ 1]) (auto simp: Let_def)
  qed
qed

lemma skip_loop_returns:
  "\<not> IsZero (attempt (off + int (Suc i) * stride)) \<Longrightarrow> \<exists>t. skip_loop attempt stride off = Some t"
proof (induction i arbitrary: off)
  case 0
  then show ?case by (simp add: skip_loop.simps [of attempt stride off] Let_def)
next
  case (Suc i)
  have "off + int (Suc (Suc i)) * stride = off + stride + int (Suc i) * stride"
    by (simp add: algebra_simps)
  with Suc.prems have "\<exists>t. skip_loop attempt stride (off + stride) = Some t"
    by (intro Suc.IH) (simp only: not_False_eq_True)
  then show ?case by (simp add: skip_loop.simps [of attempt stride off] Let_def)
qed

section \<open>Late candidates\<close>

definition late_wall :: "gtime \<Rightarrow> int" where
  "late_wall u = \<bar>settled (tloc u)\<bar> + \<bar>last_offset (loc_base (tloc u)) (loc_tx (tloc u))\<bar> + \<bar>inst u\<bar> + 1"

lemma late_candidate:
  assumes "late_wall u \<le> w" "clock_of at = w mod 86400"
  shows "gap_adjust pol (time_at (tloc u) w) at = Some (time_at (tloc u) w)" "After (time_at (tloc u) w) u"
proof -
  let ?o = "last_offset (loc_base (tloc u)) (loc_tx (tloc u))"
  have w: "settled (tloc u) \<le> w" using assms(1) unfolding late_wall_def by linarith
  show "gap_adjust pol (time_at (tloc u) w) at = Some (time_at (tloc u) w)"
    using resolve_wall_late(2) [OF w] assms(2) by (rule gap_adjust_exact)
  have "\<bar>inst u\<bar> < w - ?o" using assms(1) unfolding late_wall_def by linarith
  also have "w - ?o \<le> (w - ?o) * nanos"
    using calculation by (simp add: nanos_def)
  finally show "After (time_at (tloc u) w) u"
    unfolding After_def time_at_def resolve_wall_late(1) [OF w] by simp
qed

lemma late_pick:
  assumes "0 \<le> inst u" "(w, at) \<in> set cs" "clocks_agree cs" "late_wall u \<le> w"
  shows "\<not> IsZero (or_zero (pick pol u cs))"
proof -
  have "clock_of at = w mod 86400" using assms(2,3) by (auto simp: clocks_agree_def)
  with assms have "pick pol u cs \<noteq> None" using late_candidate pick_NoneD by metis
  then show ?thesis using assms(1) by (simp add: or_zero_pick_IsZero)
qed

text \<open>Some multiple of a positive stride of days reaches any wall-clock second.\<close>

lemma stride_reaches:
  fixes base stride late :: int
  assumes "0 < stride"
  shows "\<exists>i. late \<le> (base + int (Suc i) * stride) * 86400 + c"
proof -
  define K where "K = \<bar>late\<bar> + \<bar>base\<bar> + \<bar>c\<bar>"
  have K: "0 \<le> K" "int (Suc (nat K)) = K + 1" by (simp_all add: K_def)
  have "K + 1 \<le> (K + 1) * stride"
    using assms K(1) mult_left_mono [of 1 stride "K + 1"] by simp
  then obtain n where n: "n = base + (K + 1) * stride" "K + 1 + base \<le> n" by auto
  have "\<bar>late\<bar> + \<bar>c\<bar> \<le> n" using n(2) by (simp add: K_def)
  then have "late \<le> n * 86400 + c" by linarith
  then show ?thesis unfolding n(1) K(2) [symmetric] by blast
qed

section \<open>What a daily job computes\<close>

text \<open>The three ways \<open>next\<close> of a daily job can end.\<close>

lemma daily_next_cases:
  assumes "daily_next d lastRun = Some t" "\<not> IsZero t"
  obtains i where "0 \<le> i" "t = nextDay d lastRun (i * sint (d_interval d))"
proof -
  let ?s = "sint (d_interval d)"
  have "\<exists>i\<ge>0. t = nextDay d lastRun (i * ?s)"
  proof (cases "IsZero (nextDay d lastRun 0) \<and> IsZero (nextDay d lastRun ?s) \<and> d_policy d = DaylightSavingsTimeSkip")
    case True
    then have "skip_loop (nextDay d lastRun) ?s ?s = Some t"
      using assms(1) by (simp add: daily_next_def Let_def)
    then obtain i where "1 \<le> i" "t = nextDay d lastRun (?s + i * ?s)"
      using skip_loop_result by blast
    then show ?thesis by (intro exI [of _ "i + 1"]) (simp add: algebra_simps)
  next
    case False
    then have "t = nextDay d lastRun (0 * ?s) \<or> t = nextDay d lastRun (1 * ?s)"
      using assms by (auto simp: daily_next_def Let_def split: if_splits)
    then show ?thesis by (metis order_refl zero_le_one)
  qed
  then show ?thesis using that by blast
qed

lemma daily_next_later: "daily_next d lastRun = Some t \<Longrightarrow> \<not> IsZero t \<Longrightarrow> After t lastRun"
  using nextDay_sound by (metis daily_next_cases)

lemma daily_next_total:
  assumes "d_atTimes d \<noteq> []" "0 < sint (d_interval d)" "0 \<le> inst lastRun"
  shows "\<exists>t. daily_next d lastRun = Some t \<and> (d_policy d = DaylightSavingsTimeSkip \<longrightarrow> \<not> IsZero t)"
proof -
  let ?s = "sint (d_interval d)"
  obtain at where at: "at \<in> set (d_atTimes d)" using assms(1) by (cases "d_atTimes d") auto
  obtain i where i: "late_wall lastRun \<le> (day_of lastRun + ?s + int (Suc i) * ?s) * 86400 + clock_of at"
    using stride_reaches [OF assms(2)] by blast
  have "\<not> IsZero (nextDay d lastRun (?s + int (Suc i) * ?s))"
    unfolding nextDay_pick
    by (rule late_pick [where at = at, OF assms(3) _ clocks_agree_candidates(1) i]) (simp add: day_candidates_mem at add.assoc)
  then obtain t where t: "skip_loop (nextDay d lastRun) ?s ?s = Some t"
    using skip_loop_returns by blast
  then have "\<not> IsZero t" using skip_loop_result by blast
  with t show ?thesis by (auto simp: daily_next_def Let_def)
qed

text \<open>In a location without transitions a daily job runs at the earliest candidate.\<close>

lemma daily_next_fixed_zone:
  assumes zone: "fixed_zone (tloc lastRun)" and pos: "0 \<le> inst lastRun"
    and srt: "sorted (map clock_of (d_atTimes d))" and ne: "d_atTimes d \<noteq> []"
    and stride: "0 < sint (d_interval d)"
  shows "daily_next d lastRun = Some (time_at (tloc lastRun)
    (case earliest_after (wall lastRun) (day_walls (day_of lastRun) (d_atTimes d)) of
       Some w \<Rightarrow> w
     | None \<Rightarrow> (day_of lastRun + sint (d_interval d)) * 86400 + clock_of (hd (d_atTimes d))))"
proof -
  let ?s = "sint (d_interval d)" and ?ats = "d_atTimes d"
  let ?later = "day_walls (day_of lastRun + ?s) ?ats"
  have hd: "hd ?later = (day_of lastRun + ?s) * 86400 + clock_of (hd ?ats)"
    using ne by (simp add: day_walls_def hd_map)
  have "wall lastRun < hd ?later"
    unfolding hd wall_split distrib_right using stride clock_of_range [of lastRun] clock_of_range [of "hd ?ats"] by linarith
  moreover have "sorted ?later"
    using sorted_day_candidates [OF srt] by (simp add: day_walls_candidates)
  ultimately have snd: "earliest_after (wall lastRun) ?later = Some (hd ?later)"
    using ne by (intro earliest_after_all) (simp_all add: day_walls_def)
  have nz: "\<not> IsZero (time_at (tloc lastRun) w)" if "earliest_after (wall lastRun) ws = Some w" for w ws
    using earliest_after_SomeD(2) [OF that] zone pos by (intro After_not_zero) (simp_all add: After_time_at_fixed)
  have first: "nextDay d lastRun k = or_zero (map_option (time_at (tloc lastRun))
      (earliest_after (wall lastRun) (day_walls (day_of lastRun + k) ?ats)))" for k
    using zone srt by (rule nextDay_fixed)
  show ?thesis
    using nz [OF snd] nz first [of 0] first [of ?s] snd
    by (auto simp: daily_next_def Let_def hd split: option.splits)
qed

section \<open>Weekly jobs\<close>

definition week_walls :: "int \<Rightarrow> int list \<Rightarrow> gtime list \<Rightarrow> int list" where
  "week_walls sunday wds ats = map fst (week_candidates sunday wds ats)"

definition sunday_of :: "gtime \<Rightarrow> int" where
  "sunday_of t = day_of t - Weekday t"

lemma Weekday_range: "0 \<le> Weekday t" "Weekday t \<le> 6"
  using pos_mod_bound [of 7 "wall t div 86400 + 1"] by (simp_all add: Weekday_def)

lemma sunday_mod: "(n - (n + 1) mod 7 + wd + 1) mod 7 = wd mod 7" for n wd :: int
proof -
  have "n - (n + 1) mod 7 + wd + 1 = wd + 7 * ((n + 1) div 7)"
    using div_mult_mod_eq [of "n + 1" 7] by linarith
  then show ?thesis by (simp only: mod_mult_self2)
qed

text \<open>The code's first try searches this week, a later one the week \<open>i\<close> strides on.\<close>

lemma nextWeekDay_first:
  "nextWeekDayAtTime w lastRun 0 = or_zero (pick (w_policy w) lastRun
    (week_candidates (sunday_of lastRun) (filter (\<lambda>wd. Weekday lastRun \<le> wd) (w_daysOfWeek w)) (w_atTimes w)))"
  by (subst nextWeekDay_pick [of "sunday_of lastRun"]) (simp_all add: sunday_of_def Weekday_day_of)

lemma nextWeekDay_stride:
  assumes "7 dvd stride"
  shows "nextWeekDayAtTime w lastRun (stride - Weekday lastRun) = or_zero (pick (w_policy w) lastRun
    (week_candidates (sunday_of lastRun + stride) (filter (\<lambda>wd. 0 \<le> wd) (w_daysOfWeek w)) (w_atTimes w)))"
proof -
  obtain q where q: "stride = 7 * q" using assms by (auto elim: dvdE)
  have "day_of lastRun + (stride - Weekday lastRun) + 1 = 7 * ((day_of lastRun + 1) div 7 + q)"
    using div_mult_mod_eq [of "day_of lastRun + 1" 7] unfolding Weekday_day_of q distrib_left by linarith
  then have v: "(day_of lastRun + (stride - Weekday lastRun) + 1) mod 7 = 0" by simp
  show ?thesis
    using nextWeekDay_pick [of "sunday_of lastRun + stride" lastRun "stride - Weekday lastRun" w]
    unfolding v by (simp add: sunday_of_def)
qed

lemma nextWeekDay_sound:
  assumes "\<not> IsZero (nextWeekDayAtTime w lastRun k)"
  shows "After (nextWeekDayAtTime w lastRun k) lastRun \<and>
    (\<exists>wd\<in>set (w_daysOfWeek w). \<exists>at\<in>set (w_atTimes w). \<exists>n. (n + 1) mod 7 = wd mod 7 \<and>
      gap_adjust (w_policy w) (time_at (tloc lastRun) (n * 86400 + clock_of at)) at =
        Some (nextWeekDayAtTime w lastRun k))"
proof -
  define D where "D = day_of lastRun + k"
  define wds where "wds = filter (\<lambda>wd. (D + 1) mod 7 \<le> wd) (w_daysOfWeek w)"
  define sunday where "sunday = D - (D + 1) mod 7"
  have eq: "nextWeekDayAtTime w lastRun k =
      or_zero (pick (w_policy w) lastRun (week_candidates sunday wds (w_atTimes w)))"
    unfolding wds_def D_def by (rule nextWeekDay_pick) (simp add: sunday_def D_def)
  from or_zero_pickD [OF assms [unfolded eq]]
  obtain wd at where "wd \<in> set wds" "at \<in> set (w_atTimes w)"
    and "After (nextWeekDayAtTime w lastRun k) lastRun"
    and "gap_adjust (w_policy w) (time_at (tloc lastRun) ((sunday + wd) * 86400 + clock_of at)) at =
      Some (nextWeekDayAtTime w lastRun k)"
    unfolding eq by (auto simp: week_candidates_mem)
  moreover have "(sunday + wd + 1) mod 7 = wd mod 7" unfolding sunday_def by (rule sunday_mod)
  moreover have "set wds \<subseteq> set (w_daysOfWeek w)" by (auto simp: wds_def)
  ultimately show ?thesis by blast
qed

lemma weekly_next_cases:
  assumes "weekly_next w lastRun = Some t" "\<not> IsZero t"
  shows "\<exists>k. t = nextWeekDayAtTime w lastRun k"
proof (cases "IsZero (nextWeekDayAtTime w lastRun 0) \<and>
    IsZero (nextWeekDayAtTime w lastRun (sint (w_interval w * 7) - Weekday lastRun)) \<and>
    w_policy w = DaylightSavingsTimeSkip")
  case True
  then have "skip_loop (nextWeekDayAtTime w lastRun) (sint (w_interval w * 7))
      (sint (w_interval w * 7) - Weekday lastRun) = Some t"
    using assms(1) by (simp add: weekly_next_def Let_def)
  then show ?thesis using skip_loop_result by blast
next
  case False
  then show ?thesis using assms by (auto simp: weekly_next_def Let_def split: if_splits)
qed

lemma weekly_next_later: "weekly_next w lastRun = Some t \<Longrightarrow> \<not> IsZero t \<Longrightarrow> After t lastRun"
  using nextWeekDay_sound weekly_next_cases by metis

lemma weekly_next_total:
  assumes "wd \<in> set (w_daysOfWeek w)" "0 \<le> wd" "w_atTimes w \<noteq> []"
    and small: "0 < uint (w_interval w)" "uint (w_interval w) * 7 < 2 ^ 63" and "0 \<le> inst lastRun"
  shows "\<exists>t. weekly_next w lastRun = Some t \<and> (w_policy w = DaylightSavingsTimeSkip \<longrightarrow> \<not> IsZero t)"
proof -
  let ?s = "sint (w_interval w * 7)" let ?o = "?s - Weekday lastRun"
  have s: "?s = 7 * uint (w_interval w)" using small(2) by (rule sint_times_7)
  obtain at where at: "at \<in> set (w_atTimes w)" using assms(3) by (cases "w_atTimes w") auto
  have "0 < ?s" using s small(1) by simp
  then obtain i where i: "late_wall lastRun \<le> (sunday_of lastRun + ?s + wd + int (Suc i) * ?s) * 86400 + clock_of at"
    using stride_reaches by blast
  have eq: "sunday_of lastRun + ?s + wd + int (Suc i) * ?s = sunday_of lastRun + (?s + int (Suc i) * ?s) + wd"
    and eq': "?o + int (Suc i) * ?s = (?s + int (Suc i) * ?s) - Weekday lastRun"
    by simp_all
  have dvd: "7 dvd ?s + int (Suc i) * ?s" unfolding s by simp
  have "\<not> IsZero (nextWeekDayAtTime w lastRun (?o + int (Suc i) * ?s))"
    unfolding eq' nextWeekDay_stride [OF dvd]
    by (rule late_pick [where at = at, OF assms(6) _ clocks_agree_candidates(2) i [unfolded eq]])
      (use assms(1,2) at in \<open>auto simp: week_candidates_mem\<close>)
  then obtain t where t: "skip_loop (nextWeekDayAtTime w lastRun) ?s ?o = Some t"
    using skip_loop_returns by blast
  then have "\<not> IsZero t" using skip_loop_result by blast
  with t show ?thesis by (auto simp: weekly_next_def Let_def)
qed

text \<open>
  In a location without transitions: the earliest candidate of this week after the last run,
  else the first candidate of the week one interval on. The days before today's weekday, which
  the first try leaves out, have no candidate after the last run.
\<close>

lemma earliest_this_week:
  "earliest_after (wall lastRun) (week_walls (sunday_of lastRun) (filter (\<lambda>wd. Weekday lastRun \<le> wd) wds) ats) =
   earliest_after (wall lastRun) (week_walls (sunday_of lastRun) wds ats)"
proof -
  have early: "(sunday_of lastRun + wd) * 86400 + clock_of at \<le> wall lastRun" if "\<not> Weekday lastRun \<le> wd" for wd at
  proof -
    have "sunday_of lastRun + wd + 1 \<le> day_of lastRun" using that by (simp add: sunday_of_def)
    then have "(sunday_of lastRun + wd) * 86400 + 86400 \<le> day_of lastRun * 86400" by simp
    then show ?thesis
      unfolding wall_split distrib_right using clock_of_range [of at] clock_of_range [of lastRun] by linarith
  qed
  have "filter (\<lambda>w. wall lastRun < w) (week_walls (sunday_of lastRun) (filter (\<lambda>wd. Weekday lastRun \<le> wd) wds) ats) =
      filter (\<lambda>w. wall lastRun < w) (week_walls (sunday_of lastRun) wds ats)"
    by (induction wds) (auto simp: week_walls_def week_candidates_def day_candidates_def filter_empty_conv
        not_less early [unfolded distrib_right])
  then show ?thesis by (simp add: earliest_after_def)
qed

lemma weekly_next_fixed_zone:
  assumes zone: "fixed_zone (tloc lastRun)" and pos: "0 \<le> inst lastRun"
    and days: "sorted (w_daysOfWeek w)" "w_daysOfWeek w \<noteq> []" "\<forall>wd\<in>set (w_daysOfWeek w). 0 \<le> wd"
    and ats: "sorted (map clock_of (w_atTimes w))" "w_atTimes w \<noteq> []"
    and small: "0 < uint (w_interval w)" "uint (w_interval w) * 7 < 2 ^ 63"
  shows "weekly_next w lastRun = Some (time_at (tloc lastRun)
    (case earliest_after (wall lastRun) (week_walls (sunday_of lastRun) (w_daysOfWeek w) (w_atTimes w)) of
       Some v \<Rightarrow> v
     | None \<Rightarrow> (sunday_of lastRun + 7 * uint (w_interval w) + hd (w_daysOfWeek w)) * 86400 +
         clock_of (hd (w_atTimes w))))"
proof -
  let ?s = "7 * uint (w_interval w)" and ?wds = "w_daysOfWeek w" and ?ats = "w_atTimes w"
  have s: "sint (w_interval w * 7) = ?s" using small(2) by (rule sint_times_7)
  have pick: "pick (w_policy w) lastRun (week_candidates n wds ?ats) =
      map_option (time_at (tloc lastRun)) (earliest_after (wall lastRun) (week_walls n wds ?ats))"
    if "sorted wds" for n wds
    using zone that ats(1) unfolding week_walls_def by (rule pick_week_fixed)
  have this_week: "nextWeekDayAtTime w lastRun 0 = or_zero (map_option (time_at (tloc lastRun))
      (earliest_after (wall lastRun) (week_walls (sunday_of lastRun) ?wds ?ats)))"
    unfolding nextWeekDay_first using days(1)
    by (subst pick) (simp_all add: earliest_this_week sorted_wrt_filter)
  have all: "filter (\<lambda>wd. 0 \<le> wd) ?wds = ?wds" using days(3) by (simp add: filter_True)
  let ?later = "week_walls (sunday_of lastRun + ?s) (remdups_adj ?wds) ?ats"
  let ?first = "(sunday_of lastRun + ?s + hd ?wds) * 86400 + clock_of (hd ?ats)"
  obtain wds' where "remdups_adj ?wds = hd ?wds # wds'"
    using days(2) by (metis hd_remdups_adj list.collapse remdups_adj_Nil_iff)
  moreover obtain at ats' where "?ats = at # ats'" using ats(2) by (cases ?ats) auto
  ultimately have hd: "?later \<noteq> [] \<and> hd ?later = ?first"
    by (simp add: week_walls_def week_candidates_def day_candidates_def)
  have "day_of lastRun + 1 \<le> sunday_of lastRun + ?s + hd ?wds"
  proof -
    have "0 \<le> hd ?wds" using days(2,3) by simp
    then show ?thesis using small(1) Weekday_range [of lastRun] by (simp add: sunday_of_def)
  qed
  then have "day_of lastRun * 86400 + 86400 \<le> (sunday_of lastRun + ?s + hd ?wds) * 86400" by simp
  then have "wall lastRun < ?first"
    unfolding wall_split using clock_of_range [of "hd ?ats"] clock_of_range [of lastRun] by linarith
  moreover have "sorted ?later"
    unfolding week_walls_def by (intro sorted_week_candidates ats(1) strict_remdups_adj days(1))
  ultimately have "earliest_after (wall lastRun) ?later = Some ?first"
    using hd earliest_after_all [of ?later] by simp
  moreover have "set ?later = set (week_walls (sunday_of lastRun + ?s) ?wds ?ats)"
    unfolding week_walls_def week_candidates_set remdups_adj_set ..
  ultimately have snd: "earliest_after (wall lastRun) (week_walls (sunday_of lastRun + ?s) ?wds ?ats) = Some ?first"
    using earliest_after_set_cong by metis
  have next_week: "nextWeekDayAtTime w lastRun (?s - Weekday lastRun) = time_at (tloc lastRun) ?first"
    by (subst nextWeekDay_stride) (simp_all only: dvd_triv_left all pick [OF days(1)] snd option.map or_zero_simps)
  have nz: "\<not> IsZero (time_at (tloc lastRun) v)" if "earliest_after (wall lastRun) ws = Some v" for v ws
    using earliest_after_SomeD(2) [OF that] zone pos by (intro After_not_zero) (simp_all add: After_time_at_fixed)
  show ?thesis
    using nz [OF snd] nz this_week next_week
    by (auto simp: weekly_next_def Let_def s split: option.splits)
qed

lemma find_SomeD: "find P xs = Some x \<Longrightarrow> P x" "find P xs = Some x \<Longrightarrow> x \<in> set xs"
  by (induction xs) (auto split: if_splits)

section \<open>One-time jobs\<close>

lemma oneTime_next_least:
  assumes "strict_by inst (sortedTimes o1)"
  shows "oneTime_next o1 lastRun =
    (case find (\<lambda>t. After t lastRun) (sortedTimes o1) of None \<Rightarrow> zero_time | Some t \<Rightarrow> t)"
proof -
  have "(let idx = length (takeWhile (\<lambda>x. inst x < inst u) ts);
             idx = if \<exists>x\<in>set ts. inst x = inst u then idx + 1 else idx
         in if length ts \<le> idx then zero_time else ts ! idx) =
      (case find (\<lambda>t. After t u) ts of None \<Rightarrow> zero_time | Some t \<Rightarrow> t)"
    if "strict_by inst ts" for ts u
    using that
  proof (induction ts)
    case (Cons t ts)
    consider "inst t < inst u" | "inst t = inst u" | "inst u < inst t" by linarith
    then show ?case
    proof cases
      case 1
      then show ?thesis
        using Cons by (cases "\<exists>x\<in>set ts. inst x = inst u") (simp_all add: After_def Let_def cong: if_cong split del: if_split)
    next
      case 2
      then have "\<forall>x\<in>set ts. inst u < inst x" using Cons.prems by simp
      then show ?thesis using 2 by (cases ts) (auto simp: After_def)
    next
      case 3
      then have "\<forall>x\<in>set (t # ts). inst u < inst x" using Cons.prems by auto
      then show ?thesis using 3 by (fastforce simp: After_def)
    qed
  qed simp
  from this [OF assms, of lastRun] show ?thesis
    using assms by (simp add: oneTime_next_def BinarySearchFunc_times Let_def)
qed

lemma oneTime_next_later:
  assumes "strict_by inst (sortedTimes o1)" "\<not> IsZero (oneTime_next o1 lastRun)"
  shows "After (oneTime_next o1 lastRun) lastRun" "oneTime_next o1 lastRun \<in> set (sortedTimes o1)"
  using assms(2) oneTime_next_least [OF assms(1), of lastRun]
  by (cases "find (\<lambda>t. After t lastRun) (sortedTimes o1)"; auto dest: find_SomeD)+

end
