(* ===== verification/Monthly.thy ===== *)
theory Monthly
  imports CalendarFacts
begin

text \<open>
  The monthly schedule of job.go: days counted from the start and from the end of a month, the
  search of one month, and the loop of at most 400 strides of months.
\<close>

section \<open>monthlyJob\<close>

record monthlyJob =
  m_interval :: "64 word"
  m_days :: "int list"
  m_daysFromEnd :: "int list"
  m_atTimes :: "gtime list"
  m_policy :: DaylightSavingsTimePolicy

definition handleNegativeDays :: "gtime \<Rightarrow> int list \<Rightarrow> int list \<Rightarrow> int list" where
  "handleNegativeDays from days negativeDays =
     (let firstDayNextMonth = Date (Year from) (Month from + 1) 1 0 0 0 0 (tloc from);
          out = map (\<lambda>daySub. Day (AddDate firstDayNextMonth 0 0 daySub)) negativeDays
      in slices_Sort (out @ days))"

fun monthDay_at_loop :: "DaylightSavingsTimePolicy \<Rightarrow> gtime \<Rightarrow> int \<Rightarrow> bool \<Rightarrow> gtime list \<Rightarrow> gtime option" where
  "monthDay_at_loop pol lastRun day firstPass [] = None"
| "monthDay_at_loop pol lastRun day firstPass (at # ats) =
     (let atDate = Date (Year lastRun) (Month lastRun) day (Hour at) (Minute at) (Second at) 0 (tloc lastRun)
      in if Month atDate \<noteq> Month lastRun then monthDay_at_loop pol lastRun day firstPass ats
         else
           (case gap_adjust pol atDate at of
              None \<Rightarrow> monthDay_at_loop pol lastRun day firstPass ats
            | Some atDate \<Rightarrow>
                if firstPass \<and> After atDate lastRun then Some atDate
                else if \<not> firstPass \<and> \<not> Before atDate lastRun then Some atDate
                else monthDay_at_loop pol lastRun day firstPass ats))"

fun nextMonthDayAtTime :: "DaylightSavingsTimePolicy \<Rightarrow> gtime list \<Rightarrow> gtime \<Rightarrow> int list \<Rightarrow> bool \<Rightarrow> gtime" where
  "nextMonthDayAtTime pol ats lastRun [] firstPass = zero_time"
| "nextMonthDayAtTime pol ats lastRun (day # days) firstPass =
     (if Day lastRun \<le> day then
        (case monthDay_at_loop pol lastRun day firstPass ats of
           Some atDate \<Rightarrow> atDate
         | None \<Rightarrow> nextMonthDayAtTime pol ats lastRun days firstPass)
      else nextMonthDayAtTime pol ats lastRun days firstPass)"

definition month_try :: "monthlyJob \<Rightarrow> gtime \<Rightarrow> bool \<Rightarrow> gtime" where
  "month_try m from firstPass =
     nextMonthDayAtTime (m_policy m) (m_atTimes m) from
       (handleNegativeDays from (m_days m) (m_daysFromEnd m)) firstPass"

text \<open>The loop over the strides, with the number of tries left.\<close>

fun month_loop :: "monthlyJob \<Rightarrow> nat \<Rightarrow> gtime \<Rightarrow> gtime" where
  "month_loop m 0 from = zero_time"
| "month_loop m (Suc tries) from =
     (let n = month_try m from False
      in if IsZero n then month_loop m tries (AddDate from 0 (sint (m_interval m)) 0) else n)"

definition monthly_next :: "monthlyJob \<Rightarrow> gtime \<Rightarrow> gtime" where
  "monthly_next m lastRun =
     (let n = month_try m lastRun True
      in if \<not> IsZero n then n
         else month_loop m 400
           (Date (Year lastRun) (Month lastRun + sint (m_interval m)) 1 0 0 0 0 (tloc lastRun)))"

section \<open>Months as numbers\<close>

text \<open>Month \<open>k\<close> is month \<open>k mod 12 + 1\<close> of year \<open>k div 12\<close>.\<close>

definition month_index :: "gtime \<Rightarrow> int" where
  "month_index t = Year t * 12 + (Month t - 1)"

definition month_length :: "int \<Rightarrow> int" where
  "month_length k = days_in_month (k div 12) (k mod 12 + 1)"

definition month_start :: "int \<Rightarrow> int" where
  "month_start k = day_number (k div 12) (k mod 12 + 1) 1"

definition first_of :: "location \<Rightarrow> int \<Rightarrow> gtime" where
  "first_of l k = time_at l (month_start k * 86400)"

lemma month_mod_range: "1 \<le> k mod 12 + 1" "k mod 12 + 1 \<le> 12" for k :: int
  using pos_mod_bound [of 12 k] by simp_all

lemma month_length_range: "28 \<le> month_length k" "month_length k \<le> 31"
  using days_in_month_bounds [OF month_mod_range] by (simp_all add: month_length_def)

lemma month_index_fields [simp]:
  "month_index t div 12 = Year t" "month_index t mod 12 + 1 = Month t"
  using valid_date_fields [of t] by (simp_all add: month_index_def valid_date_def)

lemma Date_first_of: "Date (Year t) (Month t + k) 1 0 0 0 0 l = first_of l (month_index t + k)"
proof -
  have "Year t + (Month t + k - 1) div 12 = (month_index t + k) div 12"
    and "(Month t + k - 1) mod 12 = (month_index t + k) mod 12"
  proof -
    have "month_index t + k = Month t + k - 1 + Year t * 12" by (simp add: month_index_def)
    then show "Year t + (Month t + k - 1) div 12 = (month_index t + k) div 12"
      and "(Month t + k - 1) mod 12 = (month_index t + k) mod 12"
      by (simp_all only: div_mult_self1 mod_mult_self1 zero_neq_numeral not_False_eq_True)
  qed
  then show ?thesis
    by (simp add: Date_time_at first_of_def month_start_def wall_seconds_def)
qed

lemma day_number_month: "day_number (k div 12) (k mod 12 + 1) d = month_start k + (d - 1)"
  by (simp add: month_start_def day_number_def)

lemma month_Suc:
  fixes k :: int
  shows "(k + 1) div 12 = (if k mod 12 + 1 = 12 then k div 12 + 1 else k div 12)"
    "(k + 1) mod 12 + 1 = (if k mod 12 + 1 = 12 then 1 else k mod 12 + 1 + 1)"
proof -
  define q j where "q = k div 12" and "j = k mod 12"
  have k: "k = 12 * q + j" and j: "0 \<le> j" "j < 12" by (simp_all add: q_def j_def)
  have "(k + 1) div 12 = (if j + 1 = 12 then q + 1 else q)"
    using k j by (intro div_unique_bounds) auto
  moreover from this have "(k + 1) mod 12 + 1 = (if j + 1 = 12 then 1 else j + 1 + 1)"
    using div_mult_mod_eq [of "k + 1" 12] k by (auto split: if_splits)
  ultimately show "(k + 1) div 12 = (if k mod 12 + 1 = 12 then k div 12 + 1 else k div 12)"
    "(k + 1) mod 12 + 1 = (if k mod 12 + 1 = 12 then 1 else k mod 12 + 1 + 1)"
    by (simp_all only: q_def [symmetric] j_def [symmetric])
qed

lemma month_start_Suc: "month_start (k + 1) = month_start k + month_length k"
proof -
  define y m where "y = k div 12" and "m = k mod 12 + 1"
  show ?thesis
    unfolding month_start_def month_length_def month_Suc y_def [symmetric] m_def [symmetric]
    using days_before_year_Suc [of y]
    by (simp add: day_number_def days_in_month_def) (simp add: days_before_month_def)
qed

lemma month_before_short:
  assumes "1 \<le> m" "m \<le> 12" "days_in_month y m \<noteq> 31"
  shows "2 \<le> m" "days_in_month y' (m - 1) = 31"
proof -
  have "m \<in> {1, 2, 3, 4, 5, 6, 7, 8, 9, 10, 11, 12}" using assms by (intro month_in_set)
  then show "2 \<le> m" "days_in_month y' (m - 1) = 31"
    using assms(3) by (auto simp: days_in_month_cases)
qed

text \<open>The civil date of a day of a month, and of a day number beyond the month's end.\<close>

lemma civil_in_month:
  assumes "1 \<le> d" "d \<le> month_length k"
  shows "civil_year (month_start k + (d - 1)) = k div 12"
    "civil_month (month_start k + (d - 1)) = k mod 12 + 1"
    "civil_day (month_start k + (d - 1)) = d"
proof -
  have v: "valid_date (k div 12) (k mod 12 + 1) d"
    using assms month_mod_range [of k] by (simp add: valid_date_def month_length_def)
  from civil_day_number [OF v] show "civil_year (month_start k + (d - 1)) = k div 12"
    "civil_month (month_start k + (d - 1)) = k mod 12 + 1"
    "civil_day (month_start k + (d - 1)) = d"
    unfolding day_number_month by simp_all
qed

lemma civil_beyond_month:
  assumes "month_length k < d" "d \<le> 31"
  shows "civil_month (month_start k + (d - 1)) \<noteq> k mod 12 + 1"
proof -
  have "1 \<le> d - month_length k" "d - month_length k \<le> month_length (k + 1)"
    using assms month_length_range [of k] month_length_range [of "k + 1"] by simp_all
  note civil_in_month(2) [OF this]
  moreover have "month_start (k + 1) + (d - month_length k - 1) = month_start k + (d - 1)"
    by (simp add: month_start_Suc)
  ultimately have "civil_month (month_start k + (d - 1)) = (k + 1) mod 12 + 1" by (simp only:)
  then show ?thesis by presburger
qed

text \<open>
  A day counted from the end: one of the month's days, or, beyond its start, a day of the month
  before that the shorter month does not have.
\<close>

lemma civil_day_from_end:
  fixes k ds :: int
  assumes "-31 \<le> ds" "ds \<le> -1"
  defines "d \<equiv> civil_day (month_start (k + 1) + ds)"
  shows "if 1 \<le> month_length k + 1 + ds then d = month_length k + 1 + ds else month_length k < d \<and> d \<le> 31"
proof (cases "1 \<le> month_length k + 1 + ds")
  case True
  have "month_start (k + 1) + ds = month_start k + (month_length k + 1 + ds - 1)"
    by (simp add: month_start_Suc)
  moreover have "civil_day (month_start k + (month_length k + 1 + ds - 1)) = month_length k + 1 + ds"
    using True assms by (intro civil_in_month) simp_all
  ultimately show ?thesis using True by (simp only: d_def if_True)
next
  case False
  let ?e = "month_length (k - 1) + month_length k + 1 + ds"
  have e: "1 \<le> ?e" "?e \<le> month_length (k - 1)"
    using False assms month_length_range [of k] month_length_range [of "k - 1"] by simp_all
  have "month_start (k + 1) + ds = month_start (k - 1) + (?e - 1)"
    using month_start_Suc [of "k - 1"] by (simp add: month_start_Suc)
  then have d: "d = ?e"
    using civil_in_month(3) [OF e] by (simp only: d_def)
  have "month_length k < ?e"
  proof -
    have "month_length k \<noteq> 31 \<Longrightarrow> month_length (k - 1) = 31"
      using month_before_short(1) [OF month_mod_range [of k], of "k div 12"]
        month_before_short(2) [OF month_mod_range [of k], of "k div 12" "(k - 1) div 12"] month_Suc(2) [of "k - 1"]
      by (simp add: month_length_def add.commute split: if_splits)
    then show ?thesis using False assms month_length_range [of k] by force
  qed
  then show ?thesis using False e month_length_range [of "k - 1"] d by simp
qed

section \<open>One month's search\<close>

definition days_ok :: "monthlyJob \<Rightarrow> bool" where
  "days_ok m \<longleftrightarrow> (\<forall>d\<in>set (m_days m). 1 \<le> d \<and> d \<le> 31) \<and>
     (\<forall>ds\<in>set (m_daysFromEnd m). -31 \<le> ds \<and> ds \<le> -1)"

text \<open>The days of month \<open>k\<close> that the job names, from either end.\<close>

definition days_named :: "monthlyJob \<Rightarrow> int \<Rightarrow> int set" where
  "days_named m k = {d. 1 \<le> d \<and> d \<le> month_length k \<and>
     (d \<in> set (m_days m) \<or> d - month_length k - 1 \<in> set (m_daysFromEnd m))}"

lemma monthDay_at_loop_SomeD:
  "monthDay_at_loop pol lastRun day firstPass ats = Some t \<Longrightarrow>
    (firstPass \<longrightarrow> After t lastRun) \<and> (\<not> firstPass \<longrightarrow> \<not> Before t lastRun) \<and>
    (\<exists>at\<in>set ats. let c = Date (Year lastRun) (Month lastRun) day (Hour at) (Minute at) (Second at) 0 (tloc lastRun)
      in Month c = Month lastRun \<and> gap_adjust pol c at = Some t)"
  by (induction ats) (auto simp: Let_def split: if_splits option.splits)

lemma nextMonthDay_SomeD:
  "nextMonthDayAtTime pol ats lastRun days firstPass = t \<Longrightarrow> \<not> IsZero t \<Longrightarrow>
    \<exists>day\<in>set days. Day lastRun \<le> day \<and> monthDay_at_loop pol lastRun day firstPass ats = Some t"
  by (induction pol ats lastRun days firstPass rule: nextMonthDayAtTime.induct)
    (auto split: if_splits option.splits)

lemma nextMonthDay_None:
  assumes "\<forall>day\<in>set days. Day lastRun \<le> day \<longrightarrow> monthDay_at_loop pol lastRun day firstPass ats = None"
  shows "nextMonthDayAtTime pol ats lastRun days firstPass = zero_time"
  using assms by (induction days) auto

lemma nextMonthDay_Some:
  "day \<in> set days \<Longrightarrow> Day lastRun \<le> day \<Longrightarrow> monthDay_at_loop pol lastRun day firstPass ats \<noteq> None \<Longrightarrow>
    \<exists>d\<in>set days. monthDay_at_loop pol lastRun d firstPass ats = Some (nextMonthDayAtTime pol ats lastRun days firstPass)"
  by (induction days) (auto split: option.splits)

lemma nextMonthDay_found:
  assumes "day \<in> set days" "Day lastRun \<le> day" "monthDay_at_loop pol lastRun day firstPass ats \<noteq> None"
    and "if firstPass then 0 \<le> inst lastRun else 0 < inst lastRun"
  shows "\<not> IsZero (nextMonthDayAtTime pol ats lastRun days firstPass)"
  using nextMonthDay_Some [OF assms(1-3)] assms(4) monthDay_at_loop_SomeD [of pol lastRun _ firstPass ats]
  by (fastforce simp: Before_def After_def IsZero_def split: if_splits)

text \<open>The wall clock reading of a day of a month at an at-time.\<close>

definition month_wall :: "int \<Rightarrow> int \<Rightarrow> gtime \<Rightarrow> int" where
  "month_wall k d at = (month_start k + (d - 1)) * 86400 + clock_of at"

lemma Date_in_month:
  "Date (Year t) (Month t) d (Hour at) (Minute at) (Second at) 0 l =
     time_at l (month_wall (month_index t) d at)"
proof -
  have "day_number (Year t) (Month t) d = month_start (month_index t) + (d - 1)"
    using day_number_month [of "month_index t" d] by simp
  then show ?thesis
    using valid_date_fields [of t]
    by (simp add: month_wall_def Date_time_at wall_seconds_valid valid_date_def clock_of_fields [symmetric] add.assoc)
qed

lemma day_of_candidate: "(n * 86400 + clock_of at) div 86400 = n"
  using clock_of_range [of at] by (intro div_unique_bounds) simp_all

lemma fields_time_at_fixed:
  assumes "fixed_zone l"
  shows "day_of (time_at l (n * 86400 + clock_of at)) = n"
    "clock_of (time_at l (n * 86400 + clock_of at)) = clock_of at"
  using assms clock_of_range [of at]
  by (simp_all add: day_of_def clock_of_def [of "time_at l _"] day_of_candidate)

lemma first_of_fixed:
  assumes "fixed_zone l"
  shows "wall (first_of l k) = month_start k * 86400" "Day (first_of l k) = 1"
    "month_index (first_of l k) = k" "tloc (first_of l k) = l"
proof -
  show w: "wall (first_of l k) = month_start k * 86400" using assms by (simp add: first_of_def)
  have "1 \<le> month_length k" using month_length_range [of k] by simp
  note civil = civil_in_month [OF order_refl this]
  show "Day (first_of l k) = 1" using civil(3) by (simp add: Day_def w)
  show "month_index (first_of l k) = k" using civil(1,2) by (simp add: month_index_def Year_def Month_def w)
  show "tloc (first_of l k) = l" by (simp add: first_of_def)
qed

lemma AddDate_first_of:
  assumes "fixed_zone l"
  shows "AddDate (first_of l k) 0 j ds = time_at l ((month_start (k + j) + ds) * 86400)"
proof -
  note first = first_of_fixed [OF assms, of k]
  have w: "wall (first_of l k) = month_start k * 86400 + 0 * 3600 + 0 * 60 + 0" using first(1) by simp
  have midnight: "valid_clock 0 0 0" by (simp add: valid_clock_def)
  have clock: "Hour (first_of l k) = 0" "Minute (first_of l k) = 0" "Second (first_of l k) = 0"
    unfolding Hour_def Minute_def Second_def w by (rule clock_of_seconds [OF midnight])+
  have "Nanosecond (first_of l k) = 0" by (simp add: Nanosecond_def first_of_def time_at_def)
  then have "AddDate (first_of l k) 0 j ds =
      time_at l (wall_seconds (Year (first_of l k)) (Month (first_of l k) + j) (1 + ds) 0 0 0)"
    by (simp add: AddDate_def clock first Date_time_at)
  also have "\<dots> = time_at l ((month_start (k + j) + ds) * 86400)"
  proof -
    have "first_of l (k + j) = time_at l (wall_seconds (Year (first_of l k)) (Month (first_of l k) + j) 1 0 0 0)"
      using Date_first_of [of "first_of l k" j l] first by (simp add: Date_time_at)
    then have "wall_seconds (Year (first_of l k)) (Month (first_of l k) + j) 1 0 0 0 = month_start (k + j) * 86400"
      using assms wall_time_at_fixed unfolding first_of_def by metis
    then show ?thesis by (simp add: wall_seconds_shift distrib_right)
  qed
  finally show ?thesis .
qed

lemma AddDate_first_of_month: "fixed_zone l \<Longrightarrow> AddDate (first_of l k) 0 j 0 = first_of l (k + j)"
  using AddDate_first_of [of l k j 0] by (simp add: first_of_def [of l "k + j"])

text \<open>The candidates of a month are the days the job names, each of them in that month.\<close>

lemma handleNegativeDays_fixed:
  assumes "fixed_zone (tloc t)" "days_ok m"
  defines "days \<equiv> set (handleNegativeDays t (m_days m) (m_daysFromEnd m))"
  shows "{d \<in> days. d \<le> month_length (month_index t)} = days_named m (month_index t)"
    and "\<forall>d\<in>days. 1 \<le> d \<and> d \<le> 31"
proof -
  let ?k = "month_index t"
  define f where "f = (\<lambda>ds. civil_day (month_start (?k + 1) + ds))"
  have next_first: "Date (Year t) (Month t + 1) 1 0 0 0 0 (tloc t) = first_of (tloc t) (?k + 1)"
    by (rule Date_first_of)
  have "Day (AddDate (first_of (tloc t) (?k + 1)) 0 0 ds) = f ds" for ds
    using assms(1) by (simp add: AddDate_first_of Day_def f_def)
  then have days: "days = f ` set (m_daysFromEnd m) \<union> set (m_days m)"
    by (simp add: days_def handleNegativeDays_def next_first Let_def slices_Sort_def o_def)
  have from_end: "if 1 \<le> month_length ?k + 1 + ds then f ds = month_length ?k + 1 + ds
      else month_length ?k < f ds \<and> f ds \<le> 31" if "ds \<in> set (m_daysFromEnd m)" for ds
    using civil_day_from_end [of ds ?k, folded f_def] assms(2) that by (simp add: days_ok_def f_def)
  have small: "month_length ?k + 1 + ds \<le> month_length ?k" if "ds \<in> set (m_daysFromEnd m)" for ds
    using assms(2) that by (auto simp: days_ok_def)
  show all: "\<forall>d\<in>days. 1 \<le> d \<and> d \<le> 31"
    using assms(2) from_end small month_length_range [of ?k]
    unfolding days days_ok_def by (fastforce split: if_splits)
  show "{d \<in> days. d \<le> month_length ?k} = days_named m ?k"
  proof (intro set_eqI iffI)
    fix d assume "d \<in> {d \<in> days. d \<le> month_length ?k}"
    then show "d \<in> days_named m ?k"
      using from_end all by (fastforce simp: days days_named_def split: if_splits)
  next
    fix d assume d: "d \<in> days_named m ?k"
    then show "d \<in> {d \<in> days. d \<le> month_length ?k}"
      using from_end [of "d - month_length ?k - 1"]
      by (auto simp: days days_named_def image_iff intro!: bexI [of _ "d - month_length ?k - 1"])
  qed
qed

section \<open>A month's search in a location without transitions\<close>

lemma monthDay_at_loop_None:
  "monthDay_at_loop pol lastRun day firstPass ats = None \<Longrightarrow> at \<in> set ats \<Longrightarrow>
     Month (Date (Year lastRun) (Month lastRun) day (Hour at) (Minute at) (Second at) 0 (tloc lastRun)) = Month lastRun \<Longrightarrow>
     gap_adjust pol (Date (Year lastRun) (Month lastRun) day (Hour at) (Minute at) (Second at) 0 (tloc lastRun)) at = Some t \<Longrightarrow>
     (if firstPass then \<not> After t lastRun else Before t lastRun)"
  by (induction ats) (auto simp: Let_def split: if_splits option.splits)

lemma Month_index: "Month t = month_index t mod 12 + 1"
proof -
  have "1 \<le> Month t" "Month t \<le> 12" using valid_civil [of "wall t div 86400"]
    by (simp_all add: Month_def valid_date_def)
  then show ?thesis by (simp add: month_index_def mod_pos_pos_trivial)
qed

lemma Month_candidate:
  assumes "fixed_zone (tloc t)" "1 \<le> d" "d \<le> 31"
  shows "Month (time_at (tloc t) (month_wall (month_index t) d at)) = Month t \<longleftrightarrow>
    d \<le> month_length (month_index t)"
proof -
  define n where "n = month_start (month_index t) + (d - 1)"
  have "Month (time_at (tloc t) (month_wall (month_index t) d at)) = civil_month n"
    using assms(1) unfolding month_wall_def n_def [symmetric] by (simp add: Month_def day_of_candidate)
  moreover have "civil_month n = Month t \<longleftrightarrow> d \<le> month_length (month_index t)"
    using assms(2,3) civil_in_month(2) [of d "month_index t"] civil_beyond_month [of "month_index t" d]
    unfolding n_def Month_index by linarith
  ultimately show ?thesis by (simp only: n_def)
qed

lemma gap_adjust_candidate:
  "fixed_zone l \<Longrightarrow> gap_adjust pol (time_at l (n * 86400 + clock_of at)) at = Some (time_at l (n * 86400 + clock_of at))"
  using candidate_clock [of at n]
  by (intro gap_adjust_exact) (simp_all add: wall_time_at [symmetric])

lemma gap_adjust_month:
  "fixed_zone l \<Longrightarrow> gap_adjust pol (time_at l (month_wall k d at)) at = Some (time_at l (month_wall k d at))"
  unfolding month_wall_def by (rule gap_adjust_candidate)

text \<open>What a try finds is a named day of its month at an at-time of the job.\<close>

lemma month_try_sound:
  assumes zone: "fixed_zone (tloc from)" and ok: "days_ok m" and found: "\<not> IsZero (month_try m from firstPass)"
  shows "\<exists>d\<in>days_named m (month_index from). \<exists>at\<in>set (m_atTimes m). Day from \<le> d \<and>
    month_try m from firstPass =
      time_at (tloc from) (month_wall (month_index from) d at) \<and>
    (if firstPass then After (month_try m from firstPass) from else \<not> Before (month_try m from firstPass) from)"
proof -
  let ?t = "month_try m from firstPass" and ?days = "handleNegativeDays from (m_days m) (m_daysFromEnd m)"
  obtain d where d: "d \<in> set ?days" "Day from \<le> d"
    and loop: "monthDay_at_loop (m_policy m) from d firstPass (m_atTimes m) = Some ?t"
    using nextMonthDay_SomeD [OF month_try_def [symmetric] found] by blast
  note days = handleNegativeDays_fixed [OF zone ok]
  have rng: "1 \<le> d" "d \<le> 31" using days(2) d(1) by auto
  obtain at where at: "at \<in> set (m_atTimes m)"
    and c: "Month (time_at (tloc from) (month_wall (month_index from) d at)) = Month from"
      "gap_adjust (m_policy m) (time_at (tloc from) (month_wall (month_index from) d at)) at = Some ?t"
    using monthDay_at_loop_SomeD [OF loop] by (auto simp: Let_def Date_in_month)
  have "d \<in> days_named m (month_index from)"
    using days(1) d(1) c(1) Month_candidate [OF zone rng] by blast
  moreover have "?t = time_at (tloc from) (month_wall (month_index from) d at)"
    using c(2) unfolding gap_adjust_month [OF zone] by (rule option.inject [THEN iffD1, symmetric])
  ultimately show ?thesis using monthDay_at_loop_SomeD [OF loop] at d(2) by auto
qed

text \<open>A try finds something as soon as one named day and at-time is late enough.\<close>

definition late_enough :: "bool \<Rightarrow> gtime \<Rightarrow> gtime \<Rightarrow> bool" where
  "late_enough firstPass t from = (if firstPass then After t from else \<not> Before t from)"

lemma monthDay_at_loop_found:
  assumes zone: "fixed_zone (tloc from)" and rng: "1 \<le> d" "d \<le> 31" "d \<le> month_length (month_index from)"
    and at: "at \<in> set ats"
    and late: "late_enough firstPass (time_at (tloc from) (month_wall (month_index from) d at)) from"
  shows "monthDay_at_loop pol from d firstPass ats \<noteq> None"
proof -
  note month = Month_candidate [OF zone rng(1,2), of at]
  show ?thesis
    using monthDay_at_loop_None [of pol "from" d firstPass ats at, unfolded Date_in_month, OF _ at _ gap_adjust_month [OF zone]]
      rng(3) month late by (auto simp: late_enough_def split: if_splits)
qed

lemma month_try_found:
  assumes zone: "fixed_zone (tloc from)" and ok: "days_ok m"
    and pos: "if firstPass then 0 \<le> inst from else 0 < inst from"
    and d: "d \<in> days_named m (month_index from)" "Day from \<le> d" and at: "at \<in> set (m_atTimes m)"
    and late: "late_enough firstPass (time_at (tloc from) (month_wall (month_index from) d at)) from"
  shows "\<not> IsZero (month_try m from firstPass)"
proof -
  have "d \<in> set (handleNegativeDays from (m_days m) (m_daysFromEnd m))"
    using d(1) handleNegativeDays_fixed(1) [OF zone ok] by blast
  moreover have "monthDay_at_loop (m_policy m) from d firstPass (m_atTimes m) \<noteq> None"
    using d(1) month_length_range(2) [of "month_index from"]
    by (intro monthDay_at_loop_found [OF zone _ _ _ at late]) (auto simp: days_named_def)
  ultimately show ?thesis unfolding month_try_def using d(2) pos by (intro nextMonthDay_found)
qed

text \<open>With the at-times in order, a try returns the earliest of what it could return.\<close>

lemma nextMonthDay_split:
  "nextMonthDayAtTime pol ats lastRun days firstPass = t \<Longrightarrow> \<not> IsZero t \<Longrightarrow>
    \<exists>xs d ys. days = xs @ d # ys \<and> Day lastRun \<le> d \<and> monthDay_at_loop pol lastRun d firstPass ats = Some t \<and>
      (\<forall>x\<in>set xs. Day lastRun \<le> x \<longrightarrow> monthDay_at_loop pol lastRun x firstPass ats = None)"
proof (induction days)
  case (Cons day days)
  show ?case
  proof (cases "Day lastRun \<le> day \<and> monthDay_at_loop pol lastRun day firstPass ats \<noteq> None")
    case True
    then have "monthDay_at_loop pol lastRun day firstPass ats = Some t" using Cons.prems by auto
    then show ?thesis using True by (intro exI [of _ "[]"]) auto
  next
    case False
    then have "nextMonthDayAtTime pol ats lastRun days firstPass = t" using Cons.prems(1) by (auto split: if_splits)
    then obtain xs d ys where "days = xs @ d # ys" "Day lastRun \<le> d" "monthDay_at_loop pol lastRun d firstPass ats = Some t"
      "\<forall>x\<in>set xs. Day lastRun \<le> x \<longrightarrow> monthDay_at_loop pol lastRun x firstPass ats = None"
      using Cons.IH Cons.prems(2) by blast
    then show ?thesis using False by (intro exI [of _ "day # xs"]) auto
  qed
qed simp

lemma monthDay_at_loop_least:
  assumes "fixed_zone (tloc from)" "1 \<le> d" "d \<le> 31" "sorted (map clock_of ats)" "at \<in> set ats"
    and "monthDay_at_loop pol from d firstPass ats = Some (time_at (tloc from) v)"
    and "late_enough firstPass (time_at (tloc from) (month_wall (month_index from) d at)) from"
  shows "v \<le> month_wall (month_index from) d at"
  using assms
proof (induction ats)
  case (Cons a ats)
  let ?w = "month_wall (month_index from) d"
  note loop = Date_in_month gap_adjust_month [OF Cons.prems(1)] Month_candidate [OF Cons.prems(1-3)]
  have mono: "?w a \<le> ?w at" using Cons.prems(4,5) by (auto simp: month_wall_def)
  have inj: "time_at (tloc from) x = time_at (tloc from) y \<Longrightarrow> x = y" for x y
    using wall_time_at_fixed [OF Cons.prems(1)] by metis
  show ?case
  proof (cases "d \<le> month_length (month_index from) \<and> late_enough firstPass (time_at (tloc from) (?w a)) from")
    case True
    then have "monthDay_at_loop pol from d firstPass (a # ats) = Some (time_at (tloc from) (?w a))"
      by (simp add: Let_def loop late_enough_def split: if_splits)
    then have "v = ?w a" using Cons.prems(6) inj by auto
    then show ?thesis using mono by simp
  next
    case False
    then have step: "monthDay_at_loop pol from d firstPass (a # ats) = monthDay_at_loop pol from d firstPass ats"
      by (cases firstPass) (auto simp: Let_def loop late_enough_def)
    then have "d \<le> month_length (month_index from)"
      using Cons.prems(6) monthDay_at_loop_SomeD [of pol "from" d firstPass ats "time_at (tloc from) v"]
      by (auto simp: Let_def loop)
    then have "at \<in> set ats" using False Cons.prems(5,7) by auto
    then show ?thesis using Cons.IH [OF Cons.prems(1-3) _ _ _ Cons.prems(7)] Cons.prems(4,6) step by simp
  qed
qed simp

lemma month_wall_mono: "d < e \<Longrightarrow> month_wall k d at < month_wall k e bt"
  using clock_of_range [of at] clock_of_range [of bt] by (simp add: month_wall_def)

lemma month_try_least:
  assumes zone: "fixed_zone (tloc from)" and ok: "days_ok m" and srt: "sorted (map clock_of (m_atTimes m))"
    and found: "month_try m from firstPass = time_at (tloc from) v" "\<not> IsZero (time_at (tloc from) v)"
    and e: "e \<in> days_named m (month_index from)" "Day from \<le> e" and at: "at \<in> set (m_atTimes m)"
    and late: "late_enough firstPass (time_at (tloc from) (month_wall (month_index from) e at)) from"
  shows "v \<le> month_wall (month_index from) e at"
proof -
  let ?days = "handleNegativeDays from (m_days m) (m_daysFromEnd m)"
  obtain xs d ys where split: "?days = xs @ d # ys"
    and loop: "monthDay_at_loop (m_policy m) from d firstPass (m_atTimes m) = Some (time_at (tloc from) v)"
    and before: "\<forall>x\<in>set xs. Day from \<le> x \<longrightarrow> monthDay_at_loop (m_policy m) from x firstPass (m_atTimes m) = None"
    using nextMonthDay_split [OF found(1) [unfolded month_try_def] found(2)] by blast
  have rng: "1 \<le> d" "d \<le> 31" using split handleNegativeDays_fixed(2) [OF zone ok] by auto
  have e_days: "e \<in> set ?days" using e(1) handleNegativeDays_fixed(1) [OF zone ok] by blast
  have e_rng: "1 \<le> e" "e \<le> 31" "e \<le> month_length (month_index from)"
    using e(1) month_length_range(2) [of "month_index from"] by (auto simp: days_named_def)
  have "e \<notin> set xs" using before e(2) monthDay_at_loop_found [OF zone e_rng at late] by blast
  moreover have "sorted ?days" by (simp add: handleNegativeDays_def Let_def slices_Sort_def)
  ultimately have "d \<le> e" using e_days unfolding split by (auto simp: sorted_append)
  show ?thesis
  proof (cases "d = e")
    case True
    then show ?thesis using monthDay_at_loop_least [OF zone rng srt at loop] late by simp
  next
    case False
    obtain bt where bt: "gap_adjust (m_policy m) (time_at (tloc from) (month_wall (month_index from) d bt)) bt =
        Some (time_at (tloc from) v)"
      using monthDay_at_loop_SomeD [OF loop] by (auto simp: Let_def Date_in_month)
    then have "v = month_wall (month_index from) d bt"
      using gap_adjust_month [OF zone] wall_time_at_fixed [OF zone] by (metis option.inject)
    then show ?thesis using month_wall_mono [of d e "month_index from" bt at] False \<open>d \<le> e\<close> by simp
  qed
qed

lemma month_start_Day: "month_start (month_index t) + (Day t - 1) = day_of t"
proof -
  have "month_start (month_index t) + (Day t - 1) = day_number (Year t) (Month t) (Day t)"
    using day_number_month [of "month_index t" "Day t"] by simp
  then show ?thesis by (simp add: Year_def Month_def Day_def day_number_civil day_of_def)
qed

lemma Day_le_later:
  assumes "wall t < month_wall (month_index t) d at"
  shows "Day t \<le> d"
proof (rule ccontr)
  assume "\<not> Day t \<le> d"
  then have "month_wall (month_index t) d at < (month_start (month_index t) + (Day t - 1)) * 86400"
    using clock_of_range [of at] by (simp add: month_wall_def)
  also have "\<dots> \<le> wall t" unfolding month_start_Day day_of_def by simp
  finally show False using assms by simp
qed

lemma month_try_zero:
  assumes "0 \<le> inst from" "IsZero (month_try m from True)"
  shows "month_try m from True = zero_time"
proof (rule ccontr)
  assume "month_try m from True \<noteq> zero_time"
  then have "\<exists>d. monthDay_at_loop (m_policy m) from d True (m_atTimes m) = Some (month_try m from True)"
    unfolding month_try_def using nextMonthDay_None nextMonthDay_Some by metis
  then show False using assms monthDay_at_loop_SomeD After_not_zero by blast
qed

text \<open>The readings of a month that the job names, and what a month's search makes of them.\<close>

definition month_walls :: "monthlyJob \<Rightarrow> int \<Rightarrow> int list" where
  "month_walls m k = concat (map (\<lambda>d. map (month_wall k d) (m_atTimes m))
     (filter (\<lambda>d. d \<in> set (m_days m) \<or> d - month_length k - 1 \<in> set (m_daysFromEnd m)) [1..month_length k]))"

lemma set_month_walls: "set (month_walls m k) = {month_wall k d at |d at. d \<in> days_named m k \<and> at \<in> set (m_atTimes m)}"
  by (auto simp: month_walls_def days_named_def)

lemma month_walls_empty: "m_atTimes m \<noteq> [] \<Longrightarrow> month_walls m k = [] \<longleftrightarrow> days_named m k = {}"
  unfolding set_empty [symmetric] set_month_walls by (cases "m_atTimes m") auto

lemma month_try_first:
  assumes zone: "fixed_zone (tloc from)" and ok: "days_ok m" and srt: "sorted (map clock_of (m_atTimes m))"
    and pos: "0 \<le> inst from"
  shows "month_try m from True = (case earliest_after (wall from) (month_walls m (month_index from)) of
      Some w \<Rightarrow> time_at (tloc from) w | None \<Rightarrow> zero_time)"
proof -
  let ?k = "month_index from" and ?l = "tloc from"
  have after: "late_enough True (time_at ?l w) from \<longleftrightarrow> wall from < w" for w
    by (simp add: late_enough_def After_time_at_fixed [OF zone])
  have day: "Day from \<le> d" if "wall from < month_wall ?k d at" for d at
    using that by (rule Day_le_later)
  show ?thesis
  proof (cases "earliest_after (wall from) (month_walls m ?k)")
    case None
    then have none: "\<forall>w\<in>set (month_walls m ?k). w \<le> wall from" by (simp add: earliest_after_None)
    have "IsZero (month_try m from True)"
    proof (rule ccontr)
      assume "\<not> IsZero (month_try m from True)"
      from month_try_sound [OF zone ok this] none show False
        by (fastforce simp: set_month_walls After_time_at_fixed [OF zone])
    qed
    then show ?thesis using month_try_zero [OF pos] None by simp
  next
    case (Some w)
    note least = earliest_after_SomeD [OF Some]
    obtain d at where w: "w = month_wall ?k d at" "d \<in> days_named m ?k" "at \<in> set (m_atTimes m)"
      using least(1) by (auto simp: set_month_walls)
    have d: "Day from \<le> d" "late_enough True (time_at ?l w) from" using least(2) day by (auto simp: w(1) after)
    have found: "\<not> IsZero (month_try m from True)"
      using month_try_found [OF zone ok _ w(2) d(1) w(3)] pos d(2) by (auto simp: w(1))
    from month_try_sound [OF zone ok this] obtain e bt where
      e: "e \<in> days_named m ?k" "bt \<in> set (m_atTimes m)" "month_try m from True = time_at ?l (month_wall ?k e bt)"
      and late: "wall from < month_wall ?k e bt" by (auto simp: After_time_at_fixed [OF zone])
    have "month_wall ?k e bt \<le> w"
      using month_try_least [OF zone ok srt e(3) _ w(2) d(1) w(3)] d(2) found e(3) by (auto simp: w(1))
    moreover have "w \<le> month_wall ?k e bt" using least(3) [OF _ late] e(1,2) by (auto simp: set_month_walls)
    ultimately show ?thesis using e(3) Some by simp
  qed
qed

section \<open>The strides\<close>

text \<open>From the first of a month, a try succeeds exactly when the job names a day of that month,
  and then returns the month's first reading.\<close>

lemma first_of_late:
  assumes "fixed_zone l" "d \<in> days_named m k"
  shows "Day (first_of l k) \<le> d" "late_enough False (time_at l (month_wall k d at)) (first_of l k)"
proof -
  have "1 \<le> d" using assms(2) by (simp add: days_named_def)
  then show "Day (first_of l k) \<le> d" by (simp add: first_of_fixed [OF assms(1)])
  have "month_start k * 86400 \<le> month_wall k d at"
    using \<open>1 \<le> d\<close> clock_of_range [of at] by (simp add: month_wall_def)
  then show "late_enough False (time_at l (month_wall k d at)) (first_of l k)"
    using nanos_pos by (simp add: late_enough_def Before_def first_of_def inst_time_at_fixed [OF assms(1)] not_less)
qed

lemma month_try_stride:
  assumes zone: "fixed_zone l" and ok: "days_ok m" and srt: "sorted (map clock_of (m_atTimes m))"
    and ats: "m_atTimes m \<noteq> []" and pos: "0 < inst (first_of l k)"
  shows "IsZero (month_try m (first_of l k) False) \<longleftrightarrow> days_named m k = {}"
    and "days_named m k \<noteq> {} \<Longrightarrow> month_try m (first_of l k) False = time_at l (Min (set (month_walls m k)))"
proof -
  let ?t = "first_of l k"
  have zone': "fixed_zone (tloc ?t)" using zone by (simp add: first_of_fixed)
  note fields = first_of_fixed [OF zone]
  have hit: "\<not> IsZero (month_try m ?t False)" if "d \<in> days_named m k" for d
  proof -
    obtain at where at: "at \<in> set (m_atTimes m)" using ats by (cases "m_atTimes m") auto
    show ?thesis
      using month_try_found [OF zone' ok, of False d at] pos that at first_of_late [OF zone that] by (simp add: fields)
  qed
  show iff: "IsZero (month_try m ?t False) \<longleftrightarrow> days_named m k = {}"
    using hit month_try_sound [OF zone' ok, of False] by (auto simp: fields)
  assume "days_named m k \<noteq> {}"
  then have found: "\<not> IsZero (month_try m ?t False)" using iff by simp
  obtain d at where e: "d \<in> days_named m k" "at \<in> set (m_atTimes m)" "month_try m ?t False = time_at l (month_wall k d at)"
    using month_try_sound [OF zone' ok found] by (auto simp: fields)
  have least: "month_wall k d at \<le> month_wall k e bt" if "e \<in> days_named m k" "bt \<in> set (m_atTimes m)" for e bt
    using month_try_least [OF zone' ok srt, of False "month_wall k d at" e bt] e found that first_of_late [OF zone that(1)]
    by (simp add: fields)
  have "Min (set (month_walls m k)) = month_wall k d at"
    using e least by (intro Min_eqI [OF finite_set]) (auto simp: set_month_walls)
  then show "month_try m ?t False = time_at l (Min (set (month_walls m k)))" using e(3) by simp
qed

lemma month_start_mono: "k \<le> j \<Longrightarrow> month_start k \<le> month_start j"
proof (induction j rule: int_ge_induct)
  case (step i)
  then show ?case using month_start_Suc [of i] month_length_range(1) [of i] by simp
qed simp

lemma inst_first_of_mono: "fixed_zone l \<Longrightarrow> k \<le> j \<Longrightarrow> inst (first_of l k) \<le> inst (first_of l j)"
  using month_start_mono [of k j] nanos_pos by (simp add: first_of_def inst_time_at_fixed)

lemma month_loop_fixed:
  assumes "fixed_zone l" "days_ok m" "sorted (map clock_of (m_atTimes m))" "m_atTimes m \<noteq> []"
    and "0 < sint (m_interval m)" "0 < inst (first_of l k)"
  shows "month_loop m n (first_of l k) =
    (case find (\<lambda>j. days_named m j \<noteq> {}) (map (\<lambda>i. k + int i * sint (m_interval m)) [0..<n]) of
       None \<Rightarrow> zero_time | Some j \<Rightarrow> time_at l (Min (set (month_walls m j))))"
  using assms(6)
proof (induction n arbitrary: k)
  case (Suc n)
  let ?s = "sint (m_interval m)"
  note first = month_try_stride [OF assms(1-4) Suc.prems]
  have strides: "map (\<lambda>i. k + int i * ?s) [0..<Suc n] = k # map (\<lambda>i. (k + ?s) + int i * ?s) [0..<n]"
    by (simp only: upt_conv_Cons zero_less_Suc map_Suc_upt [symmetric] list.map map_map)
      (simp add: o_def distrib_right add.assoc)
  have pos: "0 < inst (first_of l (k + ?s))"
    using Suc.prems inst_first_of_mono [OF assms(1), of k "k + ?s"] assms(5) by simp
  show ?case
  proof (cases "days_named m k = {}")
    case True
    then show ?thesis unfolding strides using first(1) Suc.IH [OF pos]
      by (simp add: AddDate_first_of_month [OF assms(1)] Let_def)
  next
    case False
    then show ?thesis unfolding strides using first by (simp add: Let_def)
  qed
qed simp

text \<open>The next run of a monthly job: the earliest reading of this month after the last run, or the
  first reading of the first stride, of 400, whose month has a day that the job names.\<close>

definition strides :: "monthlyJob \<Rightarrow> int \<Rightarrow> int list" where
  "strides m k = map (\<lambda>i. k + int (Suc i) * sint (m_interval m)) [0..<400]"

lemma inst_of_month:
  assumes zone: "fixed_zone (tloc t)" and pos: "0 < inst (first_of (tloc t) (month_index t))"
  shows "0 \<le> inst t"
proof -
  have "month_start (month_index t) \<le> day_of t"
    using month_start_Day [of t] valid_date_fields [of t] by (simp add: valid_date_def)
  then have "month_start (month_index t) * 86400 \<le> day_of t * 86400" by simp
  also have "\<dots> \<le> wall t" by (simp add: day_of_def)
  finally have "month_start (month_index t) * 86400 \<le> inst t div nanos + loc_base (tloc t)"
    using wall_fixed [OF zone] by simp
  moreover have "0 < month_start (month_index t) * 86400 - loc_base (tloc t)"
    using pos nanos_pos(1) zero_less_mult_pos2 by (simp add: first_of_def inst_time_at_fixed [OF zone] zero_less_mult_iff)
  ultimately have "0 \<le> inst t div nanos" by simp
  then show ?thesis using nanos_pos(1) by (simp add: pos_imp_zdiv_nonneg_iff)
qed

lemma monthly_next_fixed:
  assumes zone: "fixed_zone (tloc lastRun)" and pos: "0 < inst (first_of (tloc lastRun) (month_index lastRun))"
    and ok: "days_ok m" and ats: "m_atTimes m \<noteq> []" "sorted (map clock_of (m_atTimes m))"
    and stride: "0 < sint (m_interval m)"
  shows "monthly_next m lastRun =
    (case earliest_after (wall lastRun) (month_walls m (month_index lastRun)) of
       Some w \<Rightarrow> time_at (tloc lastRun) w
     | None \<Rightarrow>
         (case find (\<lambda>j. days_named m j \<noteq> {}) (strides m (month_index lastRun)) of
            Some j \<Rightarrow> time_at (tloc lastRun) (Min (set (month_walls m j)))
          | None \<Rightarrow> zero_time))"
proof -
  let ?l = "tloc lastRun" and ?k = "month_index lastRun" and ?s = "sint (m_interval m)"
  have "0 \<le> inst lastRun" by (rule inst_of_month [OF zone pos])
  have first: "month_try m lastRun True = (case earliest_after (wall lastRun) (month_walls m ?k) of
      Some w \<Rightarrow> time_at ?l w | None \<Rightarrow> zero_time)"
    by (rule month_try_first [OF zone ok ats(2) \<open>0 \<le> inst lastRun\<close>])
  have "0 < inst (first_of ?l (?k + ?s))" using pos inst_first_of_mono [OF zone, of ?k "?k + ?s"] stride by simp
  note loop = month_loop_fixed [OF zone ok ats(2,1) stride this, of 400]
  have "map (\<lambda>i. ?k + ?s + int i * ?s) [0..<400] = strides m ?k" by (simp add: strides_def distrib_right add.assoc)
  note loop = loop [unfolded this]
  have later: "\<not> IsZero (time_at ?l w)" if "earliest_after (wall lastRun) ws = Some w" for w ws
    using earliest_after_SomeD(2) [OF that] After_time_at_fixed [OF zone] After_not_zero [OF _ \<open>0 \<le> inst lastRun\<close>] by blast
  show ?thesis
    by (cases "earliest_after (wall lastRun) (month_walls m ?k)")
      (simp_all add: monthly_next_def Let_def first Date_first_of loop later split: option.split)
qed

end
