(* ===== verification/MonthlyBound.thy ===== *)
theory MonthlyBound
  imports Monthly
begin

text \<open>
  Why the 400 tries of the monthly schedule are enough: the lengths of the months repeat, and a
  stride that is not a whole number of years meets a month of 31 days.
\<close>

text \<open>400 strides are enough: the length of a month repeats after 4800 months.\<close>

lemma month_length_period: "month_length (k + 4800 * n) = month_length k"
proof -
  have "k + 4800 * n = k + 400 * n * 12" by simp
  then have fields: "(k + 4800 * n) div 12 = k div 12 + 400 * n" "(k + 4800 * n) mod 12 = k mod 12"
    by (simp_all only: div_mult_self1 mod_mult_self1 zero_neq_numeral not_False_eq_True)
  have "y + 400 * n = y + 4 * n * 100" "y + 400 * n = y + 100 * n * 4" "y + 400 * n = y + n * 400" for y :: int by simp_all
  then have "(y + 400 * n) mod 100 = y mod 100" "(y + 400 * n) mod 4 = y mod 4" "(y + 400 * n) mod 400 = y mod 400" for y
    by (metis mod_mult_self1)+
  then have "is_leap (y + 400 * n) = is_leap y" for y by (simp add: is_leap_def)
  then show ?thesis by (simp add: month_length_def days_in_month_def fields)
qed

text \<open>Whether a job names a day of a month depends on the month's length alone.\<close>

lemma days_named_length:
  assumes "days_ok m"
  shows "days_named m k \<noteq> {} \<longleftrightarrow>
    (\<exists>d\<in>set (m_days m) \<union> uminus ` set (m_daysFromEnd m). d \<le> month_length k)"
proof
  assume "days_named m k \<noteq> {}"
  then obtain d where d: "1 \<le> d" "d \<le> month_length k"
    "d \<in> set (m_days m) \<or> d - month_length k - 1 \<in> set (m_daysFromEnd m)" by (auto simp: days_named_def)
  then show "\<exists>d\<in>set (m_days m) \<union> uminus ` set (m_daysFromEnd m). d \<le> month_length k"
  proof (elim disjE)
    assume "d - month_length k - 1 \<in> set (m_daysFromEnd m)"
    then have "- (d - month_length k - 1) \<in> uminus ` set (m_daysFromEnd m)" by blast
    then show ?thesis using d(1) by (intro bexI [of _ "- (d - month_length k - 1)"]) auto
  qed (use d(2) in blast)
next
  assume "\<exists>d\<in>set (m_days m) \<union> uminus ` set (m_daysFromEnd m). d \<le> month_length k"
  then obtain d where d: "d \<in> set (m_days m) \<union> uminus ` set (m_daysFromEnd m)" "d \<le> month_length k" by blast
  show "days_named m k \<noteq> {}"
  proof (cases "d \<in> set (m_days m)")
    case True
    then have "d \<in> days_named m k" using d assms by (auto simp: days_named_def days_ok_def)
    then show ?thesis by blast
  next
    case False
    then have "- d \<in> set (m_daysFromEnd m)" using d(1) by auto
    then have "month_length k + 1 - d \<in> days_named m k"
      using d(2) assms by (auto simp: days_named_def days_ok_def)
    then show ?thesis by blast
  qed
qed

lemma long_month: "k mod 12 \<in> {0, 2, 4, 6, 7, 9, 11} \<Longrightarrow> month_length k = 31"
proof -
  assume "k mod 12 \<in> {0, 2, 4, 6, 7, 9, 11}"
  then have "\<not> (k mod 12 + 1 = 2)" "\<not> (k mod 12 + 1 = 4 \<or> k mod 12 + 1 = 6 \<or> k mod 12 + 1 = 9 \<or> k mod 12 + 1 = 11)"
    by auto
  then show "month_length k = 31"
    unfolding month_length_def days_in_month_cases [OF month_mod_range] by (simp only: if_False)
qed

lemma residues_reach_long_month:
  "list_all (\<lambda>a. list_all (\<lambda>r. list_ex (\<lambda>i. (a + i * r) mod 12 \<in> set [0, 2, 4, 6, 7, 9, 11 :: int])
     [1..12]) [1..11]) [0..11]"
  by code_simp

lemma stride_long_month:
  assumes "\<not> 12 dvd s"
  obtains i where "1 \<le> i" "i \<le> 12" "month_length (k + int i * s) = 31"
proof -
  have "s mod 12 \<noteq> 0" using assms by (simp add: dvd_eq_mod_eq_0)
  then have "s mod 12 \<in> set [1..11]" using pos_mod_bound [of 12 s] pos_mod_sign [of 12 s]
    unfolding set_upto atLeastAtMost_iff by linarith
  moreover have "k mod 12 \<in> set [0..11]" using pos_mod_bound [of 12 k] pos_mod_sign [of 12 k] 
    unfolding set_upto atLeastAtMost_iff by linarith
  ultimately have "list_ex (\<lambda>i. (k mod 12 + i * (s mod 12)) mod 12 \<in> set [0, 2, 4, 6, 7, 9, 11]) [1..12]"
    using residues_reach_long_month unfolding list_all_iff by blast
  then obtain i where i: "i \<in> set [1..12]" "(k mod 12 + i * (s mod 12)) mod 12 \<in> set [0, 2, 4, 6, 7, 9, 11]"
    unfolding list_ex_iff by blast
  have "(k mod 12 + i * (s mod 12)) mod 12 = (k + i * s) mod 12" by (simp add: mod_simps mod_mult_right_eq mod_add_eq) (metis mod_add_right_eq mod_mult_right_eq)
  then have "month_length (k + i * s) = 31" using i(2) by (intro long_month) (simp only: list.set)
  moreover have "1 \<le> nat i" "nat i \<le> 12" "int (nat i) = i" using i(1) unfolding set_upto atLeastAtMost_iff by linarith+
  ultimately show ?thesis using that [of "nat i"] by simp
qed

lemma stride_mem: "j \<in> set (strides m k) \<longleftrightarrow> (\<exists>i<400. j = k + int (Suc i) * sint (m_interval m))"
  by (auto simp: strides_def)

lemma stride_le:
  assumes "0 < sint (m_interval m)" "j \<in> set (strides m k)"
  shows "k + sint (m_interval m) \<le> j"
proof -
  obtain i where "j = k + int (Suc i) * sint (m_interval m)" using assms(2) by (auto simp: stride_mem)
  then show ?thesis using assms(1) by (simp add: distrib_right)
qed

lemma strides_complete:
  assumes ok: "days_ok m" and none: "\<forall>j\<in>set (strides m k). days_named m j = {}"
  shows "days_named m (k + int (Suc i) * sint (m_interval m)) = {}"
proof (rule ccontr)
  let ?s = "sint (m_interval m)"
  assume "days_named m (k + int (Suc i) * ?s) \<noteq> {}"
  then obtain d where d: "d \<in> set (m_days m) \<union> uminus ` set (m_daysFromEnd m)"
    "d \<le> month_length (k + int (Suc i) * ?s)" using days_named_length [OF ok] by blast
  have none: "month_length (k + int (Suc n) * ?s) < d" if "n < 400" for n
  proof -
    have "k + int (Suc n) * ?s \<in> set (strides m k)" using that by (auto simp: stride_mem)
    then have "days_named m (k + int (Suc n) * ?s) = {}" using none by blast
    then show ?thesis using d(1) days_named_length [OF ok] not_le by blast
  qed
  show False
  proof (cases "12 dvd ?s")
    case True
    then obtain c where c: "?s = 12 * c" ..
    have "int (Suc i) = int (Suc (i mod 400)) + int (i div 400) * 400"
      using div_mult_mod_eq [of i 400] by (metis add.commute add_Suc of_nat_add of_nat_mult of_nat_numeral)
    then have "k + int (Suc i) * ?s = (k + int (Suc (i mod 400)) * ?s) + 4800 * (int (i div 400) * c)"
      by (simp only: c distrib_right)
    then have "month_length (k + int (Suc i) * ?s) = month_length (k + int (Suc (i mod 400)) * ?s)"
      by (simp only: month_length_period)
    then show False using none [of "i mod 400"] d(2) by simp
  next
    case False
    then obtain n where n: "1 \<le> n" "n \<le> 12" "month_length (k + int n * ?s) = 31"
      by (rule stride_long_month)
    then have "31 < d" using none [of "n - 1"] by simp
    then show False using d(2) month_length_range(2) [of "k + int (Suc i) * ?s"] by simp
  qed
qed

lemma monthly_gives_up_iff:
  assumes zone: "fixed_zone (tloc lastRun)" and pos: "0 < inst (first_of (tloc lastRun) (month_index lastRun))"
    and ok: "days_ok m" and ats: "m_atTimes m \<noteq> []" "sorted (map clock_of (m_atTimes m))"
    and stride: "0 < sint (m_interval m)"
  shows "IsZero (monthly_next m lastRun) \<longleftrightarrow>
    earliest_after (wall lastRun) (month_walls m (month_index lastRun)) = None \<and>
    (\<forall>i. days_named m (month_index lastRun + int (Suc i) * sint (m_interval m)) = {})"
proof -
  let ?k = "month_index lastRun" and ?l = "tloc lastRun"
  note eq = monthly_next_fixed [OF assms]
  have later: "\<not> IsZero (time_at ?l w)" if "earliest_after (wall lastRun) ws = Some w" for w ws
    using earliest_after_SomeD(2) [OF that] After_time_at_fixed [OF zone] After_not_zero [OF _ inst_of_month [OF zone pos]]
    by blast
  have start: "\<not> IsZero (time_at ?l (Min (set (month_walls m j))))" if j: "j \<in> set (strides m ?k)" "days_named m j \<noteq> {}" for j
  proof -
    have "?k \<le> j" using stride_le [OF stride j(1)] stride by simp
    then have "0 < inst (first_of ?l j)" using pos inst_first_of_mono [OF zone, of ?k j] by simp
    then show ?thesis using month_try_stride [OF zone ok ats(2,1), of j] j(2) by auto
  qed
  have all: "(\<forall>i. days_named m (?k + int (Suc i) * sint (m_interval m)) = {}) \<longleftrightarrow>
      (\<forall>j\<in>set (strides m ?k). days_named m j = {})"
    using strides_complete [OF ok] stride_mem by metis
  show ?thesis
  proof (cases "earliest_after (wall lastRun) (month_walls m ?k)")
    case None
    show ?thesis
    proof (cases "find (\<lambda>j. days_named m j \<noteq> {}) (strides m ?k)")
      case find: None
      then have "\<forall>j\<in>set (strides m ?k). days_named m j = {}" unfolding find_None_iff by blast
      then show ?thesis unfolding all eq None find by simp
    next
      case find: (Some j)
      have "j \<in> set (strides m ?k)" "days_named m j \<noteq> {}" using find_SomeD [OF find] by simp_all
      then show ?thesis unfolding all eq None find using start [of j] by auto
    qed
  next
    case (Some w)
    then show ?thesis unfolding eq using later [OF Some] by simp
  qed
qed

lemma monthly_next_after:
  assumes zone: "fixed_zone (tloc lastRun)" and pos: "0 < inst (first_of (tloc lastRun) (month_index lastRun))"
    and ok: "days_ok m" and ats: "m_atTimes m \<noteq> []" "sorted (map clock_of (m_atTimes m))"
    and stride: "0 < sint (m_interval m)" and found: "\<not> IsZero (monthly_next m lastRun)"
  shows "After (monthly_next m lastRun) lastRun"
proof -
  let ?k = "month_index lastRun" and ?l = "tloc lastRun"
  note eq = monthly_next_fixed [OF assms(1-6)]
  have far: "wall lastRun < Min (set (month_walls m j))" if j: "j \<in> set (strides m ?k)" "days_named m j \<noteq> {}" for j
  proof -
    have "?k + 1 \<le> j" using stride_le [OF stride j(1)] stride by simp
    have "month_walls m j \<noteq> []" using j(2) month_walls_empty [OF ats(1)] by blast
    moreover have "wall lastRun < w" if "w \<in> set (month_walls m j)" for w
    proof -
      obtain d at where w: "w = month_wall j d at" "d \<in> days_named m j" using \<open>w \<in> set (month_walls m j)\<close> unfolding set_month_walls by blast
      then have "1 \<le> d" by (simp add: days_named_def)
      have "wall lastRun < (day_of lastRun + 1) * 86400" by (simp add: day_of_def distrib_right)
      also have "\<dots> \<le> month_start (?k + 1) * 86400"
        using month_start_Day [of lastRun] valid_date_fields [of lastRun] month_start_Suc [of ?k]
        by (simp add: valid_date_def month_length_def)
      also have "\<dots> \<le> w" using \<open>1 \<le> d\<close> month_start_mono [OF \<open>?k + 1 \<le> j\<close>] w clock_of_range [of at] by (simp add: month_wall_def)
      finally show ?thesis .
    qed
    ultimately show ?thesis by simp
  qed
  show ?thesis
  proof (cases "earliest_after (wall lastRun) (month_walls m ?k)")
    case None
    then obtain j where j: "find (\<lambda>j. days_named m j \<noteq> {}) (strides m ?k) = Some j"
      using found unfolding eq by (cases "find (\<lambda>j. days_named m j \<noteq> {}) (strides m ?k)") auto
    show ?thesis using far [OF find_SomeD(2,1) [OF j]] by (simp add: eq None j After_time_at_fixed [OF zone])
  next
    case (Some w)
    then show ?thesis using earliest_after_SomeD(2) [OF Some] by (simp add: eq After_time_at_fixed [OF zone])
  qed
qed

end
