(* ===== verification/Errors.thy ===== *)
theory Errors
  imports Prelude
begin

text \<open>
  The errors of errors.go, one constructor for each variable, with the wrapping that
  \<open>errors.Join\<close> and \<open>fmt.Errorf\<close> build, and \<open>errors.Is\<close>. An operation that can fail returns a sum:
  \<open>Inl\<close> the error, \<open>Inr\<close> the result.
\<close>

datatype error =
    ErrCronJobInvalid
  | ErrCronJobParse
  | ErrDailyJobAtTimeNil
  | ErrDailyJobAtTimesNil
  | ErrDailyJobHours
  | ErrDailyJobZeroInterval
  | ErrDailyJobMinutesSeconds
  | ErrDurationJobIntervalZero
  | ErrDurationJobIntervalNegative
  | ErrDurationRandomJobPositive
  | ErrDurationRandomJobMinMax
  | ErrEventListenerFuncNil
  | ErrJobNotFound
  | ErrJobParameterMismatch
  | ErrJobRunNowFailed
  | ErrMonthlyJobDays
  | ErrMonthlyJobAtTimeNil
  | ErrMonthlyJobAtTimesNil
  | ErrMonthlyJobDaysNil
  | ErrMonthlyJobHours
  | ErrMonthlyJobZeroInterval
  | ErrMonthlyJobMinutesSeconds
  | ErrNewJobTaskNil
  | ErrNewJobTaskNotFunc
  | ErrNewJobWrongNumberOfParameters
  | ErrNewJobWrongTypeOfParameters
  | ErrOneTimeJobStartDateTimePast
  | ErrStopExecutorTimedOut
  | ErrStopJobsTimedOut
  | ErrStopSchedulerTimedOut
  | ErrWeeklyJobAtTimeNil
  | ErrWeeklyJobAtTimesNil
  | ErrWeeklyJobDaysOfTheWeekNil
  | ErrWeeklyJobHours
  | ErrWeeklyJobZeroInterval
  | ErrWeeklyJobMinutesSeconds
  | ErrPanicRecovered
  | ErrSchedulerBusy
  | ErrWithClockNil
  | ErrWithContextNil
  | ErrWithDistributedElectorNil
  | ErrWithDistributedLockerNil
  | ErrWithDistributedJobLockerNil
  | ErrWithIdentifierNil
  | ErrSchedulerMonitorNil
  | ErrWithLimitConcurrentJobsZero
  | ErrWithLocationNil
  | ErrWithLoggerNil
  | ErrWithMonitorNil
  | ErrWithNameEmpty
  | ErrWithStartDateTimePast
  | ErrWithStartDateTimePastZero
  | ErrWithStartAtGraceNegative
  | ErrWithStopDateTimePast
  | ErrStartTimeLaterThanEndTime
  | ErrStopTimeEarlierThanStartTime
  | ErrWithStopTimeoutZeroOrNegative
  | ErrWithLimitedRunsZero
  | errAtTimeNil
  | errAtTimesNil
  | errAtTimeHours
  | errAtTimeMinSec
  | External string
  | Joined error error
  | Wrapped error string

text \<open>
  \<open>External\<close> is an error that code outside the repository returns, \<open>Joined\<close> is \<open>errors.Join\<close>, and
  \<open>Wrapped\<close> is \<open>fmt.Errorf\<close> with the verb \<open>%w\<close>.
\<close>

fun errors_Is :: "error \<Rightarrow> error \<Rightarrow> bool" where
  "errors_Is (Joined a b) target = (Joined a b = target \<or> errors_Is a target \<or> errors_Is b target)"
| "errors_Is (Wrapped a msg) target = (Wrapped a msg = target \<or> errors_Is a target)"
| "errors_Is e target = (e = target)"

lemma errors_Is_refl [simp]: "errors_Is e e"
  by (cases e) simp_all

lemma errors_Is_Joined [simp]: "errors_Is (Joined a b) a" "errors_Is (Joined a b) b"
  and errors_Is_Wrapped [simp]: "errors_Is (Wrapped a msg) a"
  by simp_all

type_synonym 'a result = "error + 'a"

abbreviation is_error :: "'a result \<Rightarrow> bool" where
  "is_error r \<equiv> isl r"

text \<open>Sequencing of fallible steps: the first error is the result.\<close>

definition bind_result :: "'a result \<Rightarrow> ('a \<Rightarrow> 'b result) \<Rightarrow> 'b result" where
  "bind_result r f = (case r of Inl e \<Rightarrow> Inl e | Inr x \<Rightarrow> f x)"

lemma bind_result_simps [simp]:
  "bind_result (Inl e) f = Inl e" "bind_result (Inr x) f = f x"
  by (simp_all add: bind_result_def)

lemma bind_result_eq_Inr [simp]: "bind_result r f = Inr y \<longleftrightarrow> (\<exists>x. r = Inr x \<and> f x = Inr y)"
  by (cases r) simp_all

end
