(* ===== verification/CronJobs.thy ===== *)
theory CronJobs
  imports CalendarFacts Errors
begin

text \<open>
  The cron schedule of job.go. The parser and the schedules of the cron library are not part of
  the repository: a parsed schedule is its location with the function that its \<open>Next\<close> method
  computes, and the parser is an argument of \<open>defaultCron_IsValid\<close>. What is modelled is what
  gocron adds: the location prefix and the checks of \<open>IsValid\<close>, the second occurrence that
  \<open>cronJob.next\<close> skips when the clocks go back, and its search for a run inside a spring-forward gap.
\<close>

section \<open>Schedules and the Cron interface\<close>

text \<open>
  A \<open>cron.SpecSchedule\<close> is its \<open>Location\<close> field and what \<open>Next\<close> does with the remaining fields
  in a given location; every other schedule of the library is its \<open>Next\<close> method.
\<close>

record specSchedule =
  spec_Location :: location
  spec_Next :: "location \<Rightarrow> gtime \<Rightarrow> gtime"

datatype cronSchedule = SpecSchedule specSchedule | OtherSchedule "gtime \<Rightarrow> gtime"

fun schedule_Next :: "cronSchedule \<Rightarrow> gtime \<Rightarrow> gtime" where
  "schedule_Next (SpecSchedule s) t = spec_Next s (spec_Location s) t"
| "schedule_Next (OtherSchedule f) t = f t"

text \<open>A \<open>*defaultCron\<close> holds its parsed schedule once \<open>IsValid\<close> has accepted a crontab.\<close>

record defaultCron =
  withSeconds :: bool
  parsed :: "cronSchedule option"

datatype Cron =
    Default defaultCron
  | Custom "string \<Rightarrow> location \<Rightarrow> gtime \<Rightarrow> error option" "gtime \<Rightarrow> gtime"

text \<open>\<open>Next\<close> on a default cron without a parsed schedule is a nil dereference, which no caller makes.\<close>

fun Cron_Next :: "Cron \<Rightarrow> gtime \<Rightarrow> gtime" where
  "Cron_Next (Default c) t = (case parsed c of Some s \<Rightarrow> schedule_Next s t | None \<Rightarrow> zero_time)"
| "Cron_Next (Custom _ f) t = f t"

text \<open>The crontab handed to the parser: an explicit prefix wins over the location.\<close>

definition has_prefix :: "string \<Rightarrow> string \<Rightarrow> bool" where
  "has_prefix s p \<longleftrightarrow> take (length p) s = p"

definition crontab_with_location :: "string \<Rightarrow> location \<Rightarrow> string" where
  "crontab_with_location crontab l =
     (if has_prefix crontab ''TZ='' \<or> has_prefix crontab ''CRON_TZ='' then crontab
      else ''CRON_TZ='' @ loc_name l @ '' '' @ crontab)"

text \<open>\<open>parse\<close> takes whether seconds are allowed and the crontab, as the two parsers the code uses.\<close>

definition defaultCron_IsValid ::
  "(bool \<Rightarrow> string \<Rightarrow> cronSchedule result) \<Rightarrow> defaultCron \<Rightarrow> string \<Rightarrow> location \<Rightarrow> gtime \<Rightarrow> defaultCron result" where
  "defaultCron_IsValid parse c crontab l now =
     (case parse (withSeconds c) (crontab_with_location crontab l) of
        Inl e \<Rightarrow> Inl (Joined ErrCronJobParse e)
      | Inr s \<Rightarrow>
          if IsZero (schedule_Next s now) then Inl ErrCronJobInvalid
          else Inr (c\<lparr>parsed := Some s\<rparr>))"

fun Cron_IsValid ::
  "(bool \<Rightarrow> string \<Rightarrow> cronSchedule result) \<Rightarrow> Cron \<Rightarrow> string \<Rightarrow> location \<Rightarrow> gtime \<Rightarrow> Cron result" where
  "Cron_IsValid parse (Default c) crontab l now = map_sum id Default (defaultCron_IsValid parse c crontab l now)"
| "Cron_IsValid parse (Custom v f) crontab l now =
     (case v crontab l now of Some e \<Rightarrow> Inl e | None \<Rightarrow> Inr (Custom v f))"

section \<open>cronJob\<close>

record cronJob =
  crontab :: string
  c_schedule :: Cron
  c_policy :: DaylightSavingsTimePolicy

definition same_wall_second :: "gtime \<Rightarrow> gtime \<Rightarrow> bool" where
  "same_wall_second a b \<longleftrightarrow> Year a = Year b \<and> Month a = Month b \<and> Day a = Day b \<and>
     Hour a = Hour b \<and> Minute a = Minute b \<and> Second a = Second b"

text \<open>
  The loop over the days between the last run and the next one. It moves by \<open>AddDate(0, 0, 1)\<close>,
  which need not reach \<open>next\<close>: \<open>None\<close> is the loop that never ends.
\<close>

partial_function (option) cron_gap_loop ::
  "(location \<Rightarrow> gtime \<Rightarrow> gtime) \<Rightarrow> location \<Rightarrow> gtime \<Rightarrow> gtime \<Rightarrow> gtime \<Rightarrow> gtime \<Rightarrow> gtime option" where
  "cron_gap_loop wallNext loc lastRun next nextLocal day =
     (if Before day next then
        let candidate = Date (Year day) (Month day) (Day day)
              (Hour nextLocal) (Minute nextLocal) (Second nextLocal) 0 loc
        in if clock_differs candidate nextLocal then
             let wallTime = Date (Year day) (Month day) (Day day)
                   (Hour nextLocal) (Minute nextLocal) (Second nextLocal) 0 UTC
             in if \<not> Equal (wallNext UTC (Add wallTime (- nanos))) wallTime then
                  cron_gap_loop wallNext loc lastRun next nextLocal (AddDate day 0 0 1)
                else
                  let adjusted = daylightSavingsTimeRunAfterTransitionTime candidate
                        (Hour nextLocal) (Minute nextLocal) (Second nextLocal)
                  in if After adjusted lastRun \<and> Before adjusted next then Some (In adjusted (tloc lastRun))
                     else cron_gap_loop wallNext loc lastRun next nextLocal (AddDate day 0 0 1)
           else cron_gap_loop wallNext loc lastRun next nextLocal (AddDate day 0 0 1)
      else Some next)"

declare cron_gap_loop.simps [code]

definition cron_next :: "cronJob \<Rightarrow> gtime \<Rightarrow> gtime option" where
  "cron_next j lastRun =
     (let n = Cron_Next (c_schedule j) lastRun in
      if IsZero n then Some n
      else if same_wall_second lastRun n then Some (Cron_Next (c_schedule j) n)
      else if c_policy j = DaylightSavingsTimeRunAfterTransition then
        (case c_schedule j of
           Default c \<Rightarrow>
             (case parsed c of
                Some (SpecSchedule spec) \<Rightarrow>
                  let loc = (if is_Local (spec_Location spec) then tloc lastRun else spec_Location spec)
                  in cron_gap_loop (spec_Next spec) loc lastRun n (In n loc) (AddDate (In lastRun loc) 0 0 1)
              | _ \<Rightarrow> Some n)
         | Custom _ _ \<Rightarrow> Some n)
      else Some n)"

section \<open>What cronJob.next returns\<close>

text \<open>The documented contract of a Cron implementation: its \<open>Next\<close> is after its argument, or zero.\<close>

definition cron_advances :: "Cron \<Rightarrow> bool" where
  "cron_advances c \<longleftrightarrow> (\<forall>t. IsZero (Cron_Next c t) \<or> After (Cron_Next c t) t)"

lemma cron_gap_loop_result:
  assumes "cron_gap_loop wallNext loc lastRun next nextLocal day = Some r"
  shows "r = next \<or> (After r lastRun \<and> Before r next \<and> tloc r = tloc lastRun)"
proof (rule cron_gap_loop.raw_induct [where P = "\<lambda>wallNext loc lastRun next nextLocal day r.
      r = next \<or> (After r lastRun \<and> Before r next \<and> tloc r = tloc lastRun)", OF _ assms])
  fix loop wallNext loc lastRun "next" nextLocal day and r :: gtime
  assume IH: "\<And>wallNext loc lastRun next nextLocal day r. loop wallNext loc lastRun next nextLocal day = Some r \<Longrightarrow>
      r = next \<or> (After r lastRun \<and> Before r next \<and> tloc r = tloc lastRun)"
    and step: "(if Before day next then
        let candidate = Date (Year day) (Month day) (Day day) (Hour nextLocal) (Minute nextLocal) (Second nextLocal) 0 loc
        in if clock_differs candidate nextLocal then
             let wallTime = Date (Year day) (Month day) (Day day) (Hour nextLocal) (Minute nextLocal) (Second nextLocal) 0 UTC
             in if \<not> Equal (wallNext UTC (Add wallTime (- nanos))) wallTime then
                  loop wallNext loc lastRun next nextLocal (AddDate day 0 0 1)
                else
                  let adjusted = daylightSavingsTimeRunAfterTransitionTime candidate
                        (Hour nextLocal) (Minute nextLocal) (Second nextLocal)
                  in if After adjusted lastRun \<and> Before adjusted next then Some (In adjusted (tloc lastRun))
                     else loop wallNext loc lastRun next nextLocal (AddDate day 0 0 1)
           else loop wallNext loc lastRun next nextLocal (AddDate day 0 0 1)
      else Some next) = Some r"
  show "r = next \<or> (After r lastRun \<and> Before r next \<and> tloc r = tloc lastRun)"
    using step IH by (auto simp: Let_def After_def Before_def split: if_splits)
qed

lemma cron_next_cases:
  assumes "cron_next j lastRun = Some r"
  obtains (schedule) "r = Cron_Next (c_schedule j) lastRun" "IsZero r \<or> \<not> same_wall_second lastRun r"
  | (repeated) "same_wall_second lastRun (Cron_Next (c_schedule j) lastRun)"
      "\<not> IsZero (Cron_Next (c_schedule j) lastRun)"
      "r = Cron_Next (c_schedule j) (Cron_Next (c_schedule j) lastRun)"
  | (gap) "c_policy j = DaylightSavingsTimeRunAfterTransition" "After r lastRun"
      "Before r (Cron_Next (c_schedule j) lastRun)" "tloc r = tloc lastRun"
proof -
  let ?n = "Cron_Next (c_schedule j) lastRun"
  consider (zero) "IsZero ?n" | (again) "\<not> IsZero ?n" "same_wall_second lastRun ?n"
    | (plain) "\<not> IsZero ?n" "\<not> same_wall_second lastRun ?n" by blast
  then show ?thesis
  proof cases
    case plain
    show ?thesis
    proof (cases "r = ?n")
      case True
      then show ?thesis using plain by (intro schedule) simp_all
    next
      case False
      then obtain c spec where loop: "c_policy j = DaylightSavingsTimeRunAfterTransition"
        "c_schedule j = Default c" "parsed c = Some (SpecSchedule spec)"
        using assms plain by (simp add: cron_next_def Let_def split: if_splits Cron.splits option.splits cronSchedule.splits)
      then show ?thesis
        using assms plain False cron_gap_loop_result by (intro gap) (fastforce simp: cron_next_def Let_def)+
    qed
  qed (use assms in \<open>simp_all add: cron_next_def Let_def schedule repeated\<close>)
qed

text \<open>Under the contract, a run the schedule returns is after the last one.\<close>

lemma cron_next_after:
  assumes "cron_advances (c_schedule j)" "cron_next j lastRun = Some r" "\<not> IsZero r"
  shows "After r lastRun"
  using assms(2)
proof (cases rule: cron_next_cases)
  case schedule
  then show ?thesis using assms by (auto simp: cron_advances_def)
next
  case repeated
  then show ?thesis using assms unfolding cron_advances_def After_def by (metis order.strict_trans)
qed simp

section \<open>The search for a gap ends\<close>

text \<open>The offsets from UTC that a location uses.\<close>

definition offsets :: "location \<Rightarrow> int set" where
  "offsets l = insert (loc_base l) (snd ` set (loc_tx l))"

lemma zone_scan_offsets: "fst (zone_scan off st tx sec) \<in> insert off (snd ` set tx)"
  by (induction off st tx sec rule: zone_scan.induct) auto

lemma offset_at_offsets: "offset_at l sec \<in> offsets l"
  using zone_scan_offsets by (simp add: offset_at_def lookup_def offsets_def)

lemma resolve_wall_offsets: "\<exists>o1\<in>offsets l. resolve_wall l w = w - o1"
proof -
  obtain off st en where look: "lookup l w = (off, st, en)" by (cases "lookup l w") auto
  then have "off \<in> offsets l" using offset_at_offsets [of l w] by (simp add: offset_at_def)
  then show ?thesis using offset_at_offsets [of l] by (auto simp: resolve_wall_def look)
qed

text \<open>In a location whose offsets lie within a day of each other, the next day is later.\<close>

definition day_safe :: "location \<Rightarrow> bool" where
  "day_safe l \<longleftrightarrow> (\<forall>a\<in>offsets l. \<forall>b\<in>offsets l. a - b < 86400)"

lemma inst_AddDate_days:
  "inst (AddDate t 0 0 n) = resolve_wall (tloc t) (wall t + n * 86400) * nanos + Nanosecond t"
proof -
  have "Nanosecond t div nanos = 0" "Nanosecond t mod nanos = Nanosecond t"
    by (simp_all add: Nanosecond_def nanos_def)
  then show ?thesis by (simp add: AddDate_def Date_def wall_seconds_shift wall_seconds_fields)
qed

lemma AddDate_day_later:
  assumes "day_safe (tloc t)"
  shows "After (AddDate t 0 0 1) t"
proof -
  let ?sec = "inst t div nanos"
  obtain o1 where o1: "o1 \<in> offsets (tloc t)" "resolve_wall (tloc t) (wall t + 86400) = wall t + 86400 - o1"
    using resolve_wall_offsets by blast
  have "o1 - offset_at (tloc t) ?sec < 86400" using assms o1(1) offset_at_offsets by (auto simp: day_safe_def)
  then have "?sec < resolve_wall (tloc t) (wall t + 86400)" unfolding o1(2) by (simp add: wall_def wall_of_def)
  then have "?sec * nanos + Nanosecond t < resolve_wall (tloc t) (wall t + 86400) * nanos + Nanosecond t" by simp
  moreover have "?sec * nanos + Nanosecond t = inst t" by (simp add: Nanosecond_def)
  ultimately show ?thesis by (simp add: After_def inst_AddDate_days)
qed

lemma cron_gap_loop_returns:
  assumes "day_safe loc" "tloc day = loc"
  shows "\<exists>r. cron_gap_loop wallNext loc lastRun next nextLocal day = Some r"
  using assms(2)
proof (induction "nat (inst next - inst day)" arbitrary: day rule: less_induct)
  case less
  have step: "\<exists>r. cron_gap_loop wallNext loc lastRun next nextLocal (AddDate day 0 0 1) = Some r" if "Before day next"
    using less.hyps [of "AddDate day 0 0 1"] that AddDate_day_later [of day] less.prems assms(1)
    by (simp add: Before_def After_def AddDate_def)
  show ?case
    by (subst cron_gap_loop.simps) (use step in \<open>auto simp: Let_def\<close>)
qed

lemma cron_next_returns:
  assumes "\<And>c spec. c_schedule j = Default c \<Longrightarrow> parsed c = Some (SpecSchedule spec) \<Longrightarrow>
      day_safe (if is_Local (spec_Location spec) then tloc lastRun else spec_Location spec)"
  shows "\<exists>r. cron_next j lastRun = Some r"
proof (cases "c_schedule j")
  case (Default c)
  have "tloc (AddDate (In lastRun l) 0 0 1) = l" for l by (simp add: AddDate_def)
  then show ?thesis
    using assms [OF Default] cron_gap_loop_returns
    by (fastforce simp: cron_next_def Let_def Default split: option.splits cronSchedule.splits)
qed (simp add: cron_next_def Let_def)

end
