(* ===== verification/Gaps.thy ===== *)
theory Gaps
  imports CalendarFacts CronJobs
begin

text \<open>
  The three policies at a spring-forward gap, in a location that moves its clocks once: which
  readings the clock skips, how \<open>time.Date\<close> resolves them, and what each policy makes of that.
\<close>

section \<open>One transition forward\<close>

definition spring :: "string \<Rightarrow> int \<Rightarrow> int \<Rightarrow> int \<Rightarrow> location" where
  "spring name before T after = \<lparr>loc_name = name, loc_base = before, loc_tx = [(T, after)]\<rparr>"

text \<open>The readings that do not exist: those the clock jumps over at second \<open>T\<close>.\<close>

definition in_gap :: "int \<Rightarrow> int \<Rightarrow> int \<Rightarrow> int \<Rightarrow> bool" where
  "in_gap before T after w \<longleftrightarrow> T + before \<le> w \<and> w < T + after"

lemma lookup_spring:
  "lookup (spring name b T a) sec = (if sec < T then (b, None, Some T) else (a, Some T, None))"
  by (simp add: lookup_def spring_def)

lemma offset_at_spring: "offset_at (spring name b T a) sec = (if sec < T then b else a)"
  by (simp add: offset_at_def lookup_spring)

text \<open>A reading in the gap is resolved with the offset of the other side: before the transition
  where the location is behind the reading taken as UTC, after it otherwise.\<close>

lemma resolve_wall_spring:
  assumes "b < a"
  shows "resolve_wall (spring name b T a) w =
    (if in_gap b T a w then (if w < T then w - a else w - b)
     else if w < T + b then w - b else w - a)"
  using assms by (auto simp: resolve_wall_def lookup_spring offset_at_spring in_period_def in_gap_def)

lemma wall_of_spring:
  assumes "b < a"
  shows "wall_of (spring name b T a) (resolve_wall (spring name b T a) w) =
    (if in_gap b T a w then (if w < T then w - (a - b) else w + (a - b)) else w)"
  using assms by (auto simp: resolve_wall_spring wall_of_def offset_at_spring in_gap_def)

text \<open>The code's test for a gap finds exactly the readings of the gap.\<close>

lemma gap_detected:
  assumes "b < a" "a - b < 86400" "clock_of at = w mod 86400"
  shows "clock_differs (time_at (spring name b T a) w) at \<longleftrightarrow> in_gap b T a w"
proof -
  have ne: "(w + k) mod 86400 \<noteq> w mod 86400" if "k \<noteq> 0" "\<bar>k\<bar> < 86400" for k :: int
  proof
    assume "(w + k) mod 86400 = w mod 86400"
    then have "86400 dvd k" by (metis add_diff_cancel_left' mod_eq_dvd_iff)
    then show False using that zdvd_not_zless [of "\<bar>k\<bar>" 86400] by simp
  qed
  show ?thesis
    using assms ne [of "a - b"] ne [of "b - a"]
    by (simp add: diff_diff_eq2 add_diff_eq [symmetric] clock_differs_iff clock_of_def [of "time_at _ _"] wall_time_at wall_of_spring)
qed

section \<open>The policies in a gap\<close>

lemma gap_skipped:
  assumes "b < a" "a - b < 86400" "clock_of at = w mod 86400"
  shows "gap_adjust DaylightSavingsTimeSkip (time_at (spring name b T a) w) at =
    (if in_gap b T a w then None else Some (time_at (spring name b T a) w))"
  using gap_detected [OF assms] by (simp add: gap_adjust_def)

lemma clock_diff:
  "(Hour x - Hour y) * (3600 * nanos) + (Minute x - Minute y) * (60 * nanos) + (Second x - Second y) * nanos =
     (clock_of x - clock_of y) * nanos"
  by (simp add: clock_of_fields [symmetric] left_diff_distrib distrib_right nanos_def)

lemma run_after_transition_eq:
  "daylightSavingsTimeRunAfterTransitionTime d (Hour at) (Minute at) (Second at) =
     (if clock_of at \<le> clock_of d then d else Add d ((clock_of at - clock_of d) * nanos))"
proof -
  have "k * nanos \<le> 0 \<longleftrightarrow> k \<le> 0" for k by (simp add: nanos_def)
  then show ?thesis by (simp add: daylightSavingsTimeRunAfterTransitionTime_def Let_def clock_diff)
qed

text \<open>
  When the reading and the one the gap moves it to fall on the same day, the policy runs the job
  as long after the transition as the reading lies after the gap's start.
\<close>

lemma gap_run_after_transition:
  assumes zone: "b < a" "a - b < 86400" and at: "clock_of at = w mod 86400" and gap: "in_gap b T a w"
    and same_day: "(if w < T then w - (a - b) else w + (a - b)) div 86400 = w div 86400"
  shows "gap_adjust DaylightSavingsTimeRunAfterTransition (time_at (spring name b T a) w) at =
    Some \<lparr>inst = (w - b) * nanos, tloc = spring name b T a\<rparr>"
proof -
  let ?l = "spring name b T a" and ?v = "if w < T then w - (a - b) else w + (a - b)"
  have "clock_of (time_at ?l w) = ?v mod 86400"
    using gap by (simp add: clock_of_def wall_time_at wall_of_spring [OF zone(1)])
  then have diff: "clock_of at - clock_of (time_at ?l w) = w - ?v"
    using same_day at div_mult_mod_eq [of w 86400] div_mult_mod_eq [of ?v 86400] by linarith
  have "gap_adjust DaylightSavingsTimeRunAfterTransition (time_at ?l w) at =
      Some (if clock_of at \<le> clock_of (time_at ?l w) then time_at ?l w
        else Add (time_at ?l w) ((clock_of at - clock_of (time_at ?l w)) * nanos))"
    using gap_detected [OF zone at] gap by (simp add: gap_adjust_def run_after_transition_eq)
  then show ?thesis
    using diff zone(1) gap
    by (auto simp: time_at_def Add_def resolve_wall_spring [OF zone(1)] left_diff_distrib distrib_right split: if_splits)
qed

text \<open>
  West of UTC a gap that starts at midnight moves its readings to the evening before. There the
  difference of the clock readings is negative, and the policy leaves the time where it is:
  before the transition.
\<close>

lemma gap_at_midnight:
  assumes zone: "b < a" "a - b < 86400" and at: "clock_of at = w mod 86400"
    and gap: "in_gap b T a w" "w < T" and midnight: "(T + b) mod 86400 = 0"
  shows "gap_adjust DaylightSavingsTimeRunAfterTransition (time_at (spring name b T a) w) at =
    Some \<lparr>inst = (w - a) * nanos, tloc = spring name b T a\<rparr>"
proof -
  let ?l = "spring name b T a" and ?q = "(T + b) div 86400"
  have q: "T + b = ?q * 86400" using midnight by (simp add: mult_div_mod_eq minus_mod_eq_div_mult [symmetric])
  have range: "?q * 86400 \<le> w" "w < ?q * 86400 + (a - b)" using gap q by (simp_all add: in_gap_def)
  have "w div 86400 = ?q" using range zone by (intro div_unique_bounds) simp_all
  then have w: "w mod 86400 = w - ?q * 86400" by (simp add: minus_div_mult_eq_mod [symmetric])
  have "(w - (a - b)) div 86400 = ?q - 1" using range zone by (intro div_unique_bounds) simp_all
  then have "(w - (a - b)) mod 86400 = w - (a - b) - (?q - 1) * 86400" by (simp add: minus_div_mult_eq_mod [symmetric])
  then have "clock_of (time_at ?l w) = w - (a - b) - (?q - 1) * 86400"
    using gap by (simp add: clock_of_def wall_time_at wall_of_spring [OF zone(1)])
  then have "clock_of at \<le> clock_of (time_at ?l w)" using at w zone by simp
  then have "gap_adjust DaylightSavingsTimeRunAfterTransition (time_at ?l w) at = Some (time_at ?l w)"
    using gap_detected [OF zone at] gap by (simp add: gap_adjust_def run_after_transition_eq)
  then show ?thesis using gap by (simp add: time_at_def resolve_wall_spring [OF zone(1)])
qed

end
