(* ===== verification/ScheduleTheorems.thy ===== *)
theory ScheduleTheorems
  imports MonthlyBound Gaps
begin

text \<open>
  What the schedules compute: the queue of scheduled runs, the next run of each kind of job, and
  the policies for wall-clock readings that daylight saving skips.
\<close>

section \<open>The queue of scheduled runs\<close>

text \<open>
  \<open>insertNextScheduled\<close> keeps the run times strictly ascending when the time is not one of them
  already, adds just that time, and the code's test for an existing time is exact on the result.
\<close>

theorem insert_keeps_queue:
  assumes "strict_by inst ts" "\<not> nextScheduledContains ts t"
  shows "strict_by inst (insertNextScheduled ts t) \<and> mset (insertNextScheduled ts t) = add_mset t (mset ts) \<and>
    (\<forall>u. nextScheduledContains (insertNextScheduled ts t) u = (inst u = inst t \<or> nextScheduledContains ts u))"
  using sq.enqueue_strict [OF assms] sq.holds_enqueue [OF assms] mset_insertNextScheduled by blast

theorem insert_keeps_queue_witness:
  "strict_by inst (insertNextScheduled [\<lparr>inst = 1, tloc = UTC\<rparr>, \<lparr>inst = 5, tloc = UTC\<rparr>] \<lparr>inst = 3, tloc = UTC\<rparr>)"
  by (rule insert_keeps_queue [THEN conjunct1]) (simp_all add: nextScheduledContains_iff)

text \<open>
  \<open>scheduledTimeForRun\<close> returns the latest scheduled time that is not after the start of the run,
  when there is one.
\<close>

theorem run_belongs_to_latest:
  assumes "sorted_by inst ts" "x \<in> set ts" "inst x \<le> inst start"
  shows "\<exists>s. scheduledTimeForRun ts start = Some s \<and> s \<in> set ts \<and> inst x \<le> inst s \<and> inst s \<le> inst start"
  using scheduledTimeForRun_latest [OF assms(1), of start] assms(2,3) by blast

theorem run_belongs_to_latest_witness:
  "\<exists>s. scheduledTimeForRun [\<lparr>inst = 1, tloc = UTC\<rparr>, \<lparr>inst = 5, tloc = UTC\<rparr>] \<lparr>inst = 7, tloc = UTC\<rparr> = Some s \<and>
     s \<in> {\<lparr>inst = 1, tloc = UTC\<rparr>, \<lparr>inst = 5, tloc = UTC\<rparr>} \<and> 5 \<le> inst s \<and> inst s \<le> 7"
  using run_belongs_to_latest [of "[\<lparr>inst = 1, tloc = UTC\<rparr>, \<lparr>inst = 5, tloc = UTC\<rparr>]" "\<lparr>inst = 5, tloc = UTC\<rparr>"
    "\<lparr>inst = 7, tloc = UTC\<rparr>"] by simp

section \<open>The next run\<close>

text \<open>
  C12: In a location without transitions a daily job runs next at the earliest of its times of day that
  is later today, and else at its first time of day \<open>interval\<close> days from today.
\<close>

theorem daily_runs_next:
  assumes "fixed_zone (tloc lastRun)" "0 \<le> inst lastRun" "sorted (map clock_of (d_atTimes d))"
    "d_atTimes d \<noteq> []" "0 < sint (d_interval d)"
  shows "daily_next d lastRun = Some (time_at (tloc lastRun)
    (case earliest_after (wall lastRun) (day_walls (day_of lastRun) (d_atTimes d)) of
       Some w \<Rightarrow> w
     | None \<Rightarrow> (day_of lastRun + sint (d_interval d)) * 86400 + clock_of (hd (d_atTimes d))))"
  by (rule daily_next_fixed_zone [OF assms])

theorem daily_runs_next_witness:
  "daily_next \<lparr>d_interval = 3, d_atTimes = [time_at UTC 3600], d_policy = DaylightSavingsTimeDefault\<rparr> (time_at UTC 7200) =
    Some (time_at UTC (3 * 86400 + 3600))"
  by (subst daily_runs_next)
    (simp_all add: fixed_zone_def UTC_def time_at_def resolve_wall_fixed nanos_def clock_of_def wall_def wall_of_def
      offset_at_fixed earliest_after_def day_walls_def day_of_def)

text \<open>
  C13: In a location without transitions a weekly job runs next at the earliest of its weekdays and
  times of day that is later in the week that began on Sunday, and else at its first weekday and
  time of day \<open>interval\<close> weeks on.
\<close>

theorem weekly_runs_next:
  assumes "fixed_zone (tloc lastRun)" "0 \<le> inst lastRun"
    "sorted (w_daysOfWeek w)" "w_daysOfWeek w \<noteq> []" "\<forall>wd\<in>set (w_daysOfWeek w). 0 \<le> wd"
    "sorted (map clock_of (w_atTimes w))" "w_atTimes w \<noteq> []"
    "0 < uint (w_interval w)" "uint (w_interval w) * 7 < 2 ^ 63"
  shows "weekly_next w lastRun = Some (time_at (tloc lastRun)
    (case earliest_after (wall lastRun) (week_walls (sunday_of lastRun) (w_daysOfWeek w) (w_atTimes w)) of
       Some v \<Rightarrow> v
     | None \<Rightarrow> (sunday_of lastRun + 7 * uint (w_interval w) + hd (w_daysOfWeek w)) * 86400 +
         clock_of (hd (w_atTimes w))))"
  by (rule weekly_next_fixed_zone [OF assms])

theorem weekly_runs_next_witness:
  "weekly_next \<lparr>w_interval = 2, w_daysOfWeek = [1, 4], w_atTimes = [time_at UTC 3600],
      w_policy = DaylightSavingsTimeDefault\<rparr> (time_at UTC 7200) =
    Some (time_at UTC (3 * 86400 + 3600))"
  by (subst weekly_runs_next)
    (simp_all add: fixed_zone_def UTC_def time_at_def resolve_wall_fixed nanos_def clock_of_def wall_def wall_of_def
      offset_at_fixed earliest_after_def week_walls_def week_candidates_def day_candidates_def sunday_of_def Weekday_day_of day_of_def)

text \<open>
  C11: In a location without transitions a monthly job runs next at the earliest of its days and times of
  day that is later this month, and else at the first day and time of the first month, in steps of
  \<open>interval\<close> months, that has a day it names. Negative days count from the end of each month.
\<close>

theorem monthly_runs_next:
  assumes "fixed_zone (tloc lastRun)" "0 < inst (first_of (tloc lastRun) (month_index lastRun))"
    "days_ok m" "m_atTimes m \<noteq> []" "sorted (map clock_of (m_atTimes m))" "0 < sint (m_interval m)"
  shows "monthly_next m lastRun =
    (case earliest_after (wall lastRun) (month_walls m (month_index lastRun)) of
       Some w \<Rightarrow> time_at (tloc lastRun) w
     | None \<Rightarrow>
         (case find (\<lambda>j. days_named m j \<noteq> {}) (strides m (month_index lastRun)) of
            Some j \<Rightarrow> time_at (tloc lastRun) (Min (set (month_walls m j)))
          | None \<Rightarrow> zero_time))"
  by (rule monthly_next_fixed [OF assms])

lemma clock_of_UTC: "clock_of (time_at UTC w) = w mod 86400"
  by (simp add: clock_of_def wall_def wall_of_def time_at_def UTC_def resolve_wall_fixed offset_at_fixed nanos_def)

lemma wall_UTC: "wall (time_at UTC w) = w"
  by (simp add: wall_def wall_of_def time_at_def UTC_def resolve_wall_fixed offset_at_fixed nanos_def)

lemma february_1: "month_index (time_at UTC 2678400) = 13" "month_start 13 = 31"
proof -
  have "civil_year (day_number 1 2 1) = 1" "civil_month (day_number 1 2 1) = 2"
    using civil_day_number [of 1 2 1] by (simp_all add: valid_date_def days_in_month_def days_before_month_def is_leap_def)
  moreover have "day_number 1 2 1 = 31" by (simp add: day_number_def days_before_year_def days_before_month_def)
  ultimately show "month_index (time_at UTC 2678400) = 13"
    by (simp add: month_index_def Year_def Month_def wall_UTC)
  show "month_start 13 = 31" by (simp add: month_start_def day_number_def days_before_year_def days_before_month_def)
qed

lemma month_length_13: "month_length 13 = 28"
  by (simp add: month_length_def days_in_month_def days_before_month_def is_leap_def)

lemma UTC_fixed: "fixed_zone UTC" "inst (time_at UTC w) = w * nanos"
  by (simp_all add: fixed_zone_def UTC_def time_at_def resolve_wall_fixed)

theorem monthly_runs_next_witness:
  "monthly_next \<lparr>m_interval = 1, m_days = [], m_daysFromEnd = [-1], m_atTimes = [time_at UTC 3600],
      m_policy = DaylightSavingsTimeDefault\<rparr> (time_at UTC 2678400) =
    time_at UTC (58 * 86400 + 3600)"
proof -
  have "filter (\<lambda>d. d = 28) [1..28::int] = [28]" by code_simp
  then show ?thesis
    by (subst monthly_runs_next)
      (simp_all add: UTC_fixed first_of_def february_1 days_ok_def clock_of_UTC wall_UTC month_walls_def
        month_length_13 month_wall_def earliest_after_def)
qed

text \<open>
  C14: The 400 tries of a monthly job are enough: in a location without transitions it has no next run
  just when this month has none that is later and no month that a step of \<open>interval\<close> months ever reaches
  has a day it names.
\<close>

theorem monthly_gives_up_rightly:
  assumes "fixed_zone (tloc lastRun)" "0 < inst (first_of (tloc lastRun) (month_index lastRun))"
    "days_ok m" "m_atTimes m \<noteq> []" "sorted (map clock_of (m_atTimes m))" "0 < sint (m_interval m)"
  shows "IsZero (monthly_next m lastRun) \<longleftrightarrow>
    earliest_after (wall lastRun) (month_walls m (month_index lastRun)) = None \<and>
    (\<forall>i. days_named m (month_index lastRun + int (Suc i) * sint (m_interval m)) = {})"
  by (rule monthly_gives_up_iff [OF assms])

lemma february_names: "days_ok m \<Longrightarrow> set (m_days m) = {30} \<Longrightarrow> m_daysFromEnd m = [] \<Longrightarrow> days_named m (13 + n * 12) = {}"
proof -
  assume m: "days_ok m" "set (m_days m) = {30}" "m_daysFromEnd m = []"
  have "(13 + n * 12) mod 12 = 13 mod 12" by (rule mod_mult_self1)
  then have "month_length (13 + n * 12) \<le> 29"
    by (simp add: month_length_def days_in_month_def days_before_month_def)
  then show ?thesis using days_named_length [OF m(1), of "13 + n * 12"] m(2,3) by auto
qed

theorem monthly_gives_up_rightly_witness:
  "IsZero (monthly_next \<lparr>m_interval = 12, m_days = [30], m_daysFromEnd = [], m_atTimes = [time_at UTC 3600],
      m_policy = DaylightSavingsTimeDefault\<rparr> (time_at UTC 2678400))"
proof -
  let ?m = "\<lparr>m_interval = 12, m_days = [30], m_daysFromEnd = [], m_atTimes = [time_at UTC 3600],
    m_policy = DaylightSavingsTimeDefault\<rparr>"
  have none: "days_named ?m (13 + int (Suc i) * 12) = {}" for i by (rule february_names) (simp_all add: days_ok_def)
  have walls: "month_walls ?m 13 = []"
    by (simp add: month_walls_def month_length_13 upto_rec_numeral)
  show ?thesis
    by (rule monthly_gives_up_rightly [THEN iffD2])
      (simp_all add: UTC_fixed first_of_def february_1 days_ok_def walls earliest_after_def none del: of_nat_Suc)
qed

text \<open>
  The search of a daily job ends in every location, whatever its transitions: the result is zero or
  later than the last run, and with the skip policy a run is always found.
\<close>

theorem daily_returns:
  assumes "d_atTimes d \<noteq> []" "0 < sint (d_interval d)" "0 \<le> inst lastRun"
  shows "\<exists>t. daily_next d lastRun = Some t \<and> (IsZero t \<or> After t lastRun) \<and>
    (d_policy d = DaylightSavingsTimeSkip \<longrightarrow> \<not> IsZero t)"
  using daily_next_total [OF assms] daily_next_later by blast

theorem daily_returns_witness:
  "\<exists>t. daily_next \<lparr>d_interval = 1, d_atTimes = [time_at UTC 9000], d_policy = DaylightSavingsTimeSkip\<rparr>
      (time_at (spring ''EST'' (-18000) 100000 (-14400)) 90000) = Some t \<and> \<not> IsZero t"
proof -
  have "0 \<le> inst (time_at (spring ''EST'' (-18000) 100000 (-14400)) 90000)"
    by (simp add: time_at_def resolve_wall_spring nanos_def)
  then show ?thesis
    using daily_returns [of "\<lparr>d_interval = 1, d_atTimes = [time_at UTC 9000], d_policy = DaylightSavingsTimeSkip\<rparr>"
      "time_at (spring ''EST'' (-18000) 100000 (-14400)) 90000"] by auto
qed

text \<open>
  The search of a weekly job ends in every location: the result is zero or later than the last run,
  and with the skip policy a run is always found. The interval in days has to fit an int.
\<close>

theorem weekly_returns:
  assumes "wd \<in> set (w_daysOfWeek w)" "0 \<le> wd" "w_atTimes w \<noteq> []"
    "0 < uint (w_interval w)" "uint (w_interval w) * 7 < 2 ^ 63" "0 \<le> inst lastRun"
  shows "\<exists>t. weekly_next w lastRun = Some t \<and> (IsZero t \<or> After t lastRun) \<and>
    (w_policy w = DaylightSavingsTimeSkip \<longrightarrow> \<not> IsZero t)"
  using weekly_next_total [OF assms] weekly_next_later by blast

theorem weekly_returns_witness:
  "\<exists>t. weekly_next \<lparr>w_interval = 1, w_daysOfWeek = [0, 3], w_atTimes = [time_at UTC 9000],
      w_policy = DaylightSavingsTimeSkip\<rparr> (time_at UTC 90000) = Some t \<and> \<not> IsZero t"
  using weekly_returns [of 3 "\<lparr>w_interval = 1, w_daysOfWeek = [0, 3], w_atTimes = [time_at UTC 9000],
      w_policy = DaylightSavingsTimeSkip\<rparr>" "time_at UTC 90000"]
  by (auto simp: UTC_fixed nanos_def)

text \<open>
  A one-time job runs next at the earliest of its times after the last run, and not at all when there
  is none.
\<close>

theorem oneTime_runs_next:
  assumes "strict_by inst (sortedTimes o1)"
  shows "oneTime_next o1 lastRun =
    (case find (\<lambda>t. After t lastRun) (sortedTimes o1) of None \<Rightarrow> zero_time | Some t \<Rightarrow> t)"
  by (rule oneTime_next_least [OF assms])

theorem oneTime_runs_next_witness:
  "oneTime_next \<lparr>sortedTimes = [\<lparr>inst = 2, tloc = UTC\<rparr>, \<lparr>inst = 4, tloc = UTC\<rparr>]\<rparr> \<lparr>inst = 2, tloc = UTC\<rparr> = \<lparr>inst = 4, tloc = UTC\<rparr>"
  by (subst oneTime_runs_next) (simp_all add: After_def)

text \<open>
  The search of a cron job ends when no two offsets of the schedule's location differ by a day or
  more. With an implementation that keeps its contract the result is zero or later than the last run.
\<close>

theorem cron_returns:
  assumes "cron_advances (c_schedule j)"
    and "\<And>c spec. c_schedule j = Default c \<Longrightarrow> parsed c = Some (SpecSchedule spec) \<Longrightarrow>
      day_safe (if is_Local (spec_Location spec) then tloc lastRun else spec_Location spec)"
  shows "\<exists>r. cron_next j lastRun = Some r \<and> (IsZero r \<or> After r lastRun)"
proof -
  obtain r where "cron_next j lastRun = Some r" using cron_next_returns [of j lastRun] assms(2) by auto
  then show ?thesis using cron_next_after [OF assms(1)] by blast
qed

theorem cron_returns_witness:
  "\<exists>r. cron_next \<lparr>crontab = ''* * * * *'',
      c_schedule = Default \<lparr>withSeconds = False,
        parsed = Some (SpecSchedule \<lparr>spec_Location = UTC, spec_Next = \<lambda>l t. Add t (60 * nanos)\<rparr>)\<rparr>,
      c_policy = DaylightSavingsTimeRunAfterTransition\<rparr> (time_at UTC 90000) = Some r"
  by (rule exE [OF cron_returns [of "\<lparr>crontab = ''* * * * *'',
      c_schedule = Default \<lparr>withSeconds = False,
        parsed = Some (SpecSchedule \<lparr>spec_Location = UTC, spec_Next = \<lambda>l t. Add t (60 * nanos)\<rparr>)\<rparr>,
      c_policy = DaylightSavingsTimeRunAfterTransition\<rparr>" "time_at UTC 90000"]])
    (auto simp: cron_advances_def After_def day_safe_def offsets_def UTC_def)

text \<open>
  A run of a cron job is the run its implementation names. When that shows the wall-clock second of
  the last run, in a repeated hour, it is the run after that. The policy for gaps alone can put an
  earlier run in front of it.
\<close>

theorem cron_run_cases:
  assumes "cron_next j lastRun = Some r"
  shows "(r = Cron_Next (c_schedule j) lastRun \<and> (IsZero r \<or> \<not> same_wall_second lastRun r)) \<or>
    (same_wall_second lastRun (Cron_Next (c_schedule j) lastRun) \<and>
      r = Cron_Next (c_schedule j) (Cron_Next (c_schedule j) lastRun)) \<or>
    (c_policy j = DaylightSavingsTimeRunAfterTransition \<and> After r lastRun \<and>
      Before r (Cron_Next (c_schedule j) lastRun) \<and> tloc r = tloc lastRun)"
  by (rule cron_next_cases [OF assms]) blast+

theorem cron_run_cases_witness:
  "let j = \<lparr>crontab = [], c_schedule = Custom (\<lambda>_ _ _. None) (\<lambda>t. Add t 5), c_policy = DaylightSavingsTimeSkip\<rparr>;
       n = Add (time_at UTC 90000) 10
   in cron_next j (time_at UTC 90000) = Some n \<and> n = Cron_Next (c_schedule j) (Cron_Next (c_schedule j) (time_at UTC 90000))"
proof -
  let ?j = "\<lparr>crontab = [], c_schedule = Custom (\<lambda>_ _ _. None) (\<lambda>t. Add t 5), c_policy = DaylightSavingsTimeSkip\<rparr>"
  have same: "same_wall_second (time_at UTC 90000) (Add (time_at UTC 90000) 5)"
    by (simp add: same_wall_second_def Year_def Month_def Day_def Hour_def Minute_def Second_def wall_def wall_of_def
      time_at_def UTC_def resolve_wall_fixed offset_at_fixed nanos_def)
  have eq: "cron_next ?j (time_at UTC 90000) = Some (Add (time_at UTC 90000) 10)"
    using same by (simp add: cron_next_def Let_def IsZero_def Add_def time_at_def UTC_def resolve_wall_fixed nanos_def)
  then show ?thesis
    using cron_run_cases [OF eq] by (simp add: Let_def Add_def)
qed

section \<open>Readings that daylight saving skips\<close>

text \<open>
  At a transition from offset \<open>b\<close> to a later \<open>a\<close>, the code's test for a skipped reading is exact:
  with the skip policy the reading is dropped just when it falls in the gap that the clocks jump over.
\<close>

theorem skipped_in_gap:
  assumes "b < a" "a - b < 86400" "clock_of at = w mod 86400"
  shows "gap_adjust DaylightSavingsTimeSkip (time_at (spring name b T a) w) at =
    (if in_gap b T a w then None else Some (time_at (spring name b T a) w))"
  by (rule gap_skipped [OF assms])

theorem skipped_in_gap_witness:
  "gap_adjust DaylightSavingsTimeSkip (time_at (spring ''Berlin'' 3600 90000 7200) 95400) (time_at UTC 9000) = None"
  by (subst skipped_in_gap) (simp_all add: clock_of_UTC in_gap_def)

text \<open>
  The run-after-transition policy moves a skipped reading by the length of the gap: the run is at the
  instant at which the clock would have shown it without the transition. The reading that
  \<open>time.Date\<close> puts in its place has to be on the same day.
\<close>

theorem gap_runs_after_transition:
  assumes "b < a" "a - b < 86400" "clock_of at = w mod 86400" "in_gap b T a w"
    "(if w < T then w - (a - b) else w + (a - b)) div 86400 = w div 86400"
  shows "gap_adjust DaylightSavingsTimeRunAfterTransition (time_at (spring name b T a) w) at =
      Some \<lparr>inst = (w - b) * nanos, tloc = spring name b T a\<rparr> \<and> T \<le> w - b"
  using gap_run_after_transition [OF assms, of name] assms(4) by (simp add: in_gap_def)

theorem gap_runs_after_transition_witness:
  "gap_adjust DaylightSavingsTimeRunAfterTransition (time_at (spring ''Berlin'' 3600 90000 7200) 95400) (time_at UTC 9000) =
    Some \<lparr>inst = 91800 * nanos, tloc = spring ''Berlin'' 3600 90000 7200\<rparr>"
  using gap_runs_after_transition [of 3600 7200 "time_at UTC 9000" 95400 90000 "''Berlin''"]
  by (simp add: clock_of_UTC in_gap_def)

text \<open>
  C35: Where the clocks jump at midnight, west of Greenwich, \<open>time.Date\<close> puts a skipped reading on the day
  before, the code computes a negative shift, and the policy to run after the transition runs the job
  before the transition.
\<close>

theorem midnight_gap_runs_before_transition:
  assumes "b < a" "a - b < 86400" "clock_of at = w mod 86400" "in_gap b T a w" "w < T" "(T + b) mod 86400 = 0"
  shows "gap_adjust DaylightSavingsTimeRunAfterTransition (time_at (spring name b T a) w) at =
      Some \<lparr>inst = (w - a) * nanos, tloc = spring name b T a\<rparr> \<and> w - a < T"
  using gap_at_midnight [OF assms, of name] assms(4) by (simp add: in_gap_def)

theorem midnight_gap_runs_before_transition_witness:
  "gap_adjust DaylightSavingsTimeRunAfterTransition (time_at (spring ''Santiago'' (-14400) 100800 (-10800)) 88200)
      (time_at UTC 1800) =
    Some \<lparr>inst = 99000 * nanos, tloc = spring ''Santiago'' (-14400) 100800 (-10800)\<rparr>"
  using midnight_gap_runs_before_transition [of "-14400" "-10800" "time_at UTC 1800" 88200 100800 "''Santiago''"]
  by (simp add: clock_of_UTC in_gap_def)

end
