(* ===== verification/JobTypes.thy ===== *)
theory JobTypes
  imports MonthlyBound CronJobs
begin

text \<open>
  The data of a job: the schedules of job.go behind the interface \<open>jobSchedule\<close>, contexts, task
  parameters, and the struct \<open>internalJob\<close> that the scheduler keeps for each job.
\<close>

section \<open>The interface jobSchedule\<close>

datatype jobSchedule =
    Cron cronJob
  | Duration durationJob
  | DurationRandom durationRandomJob
  | Daily dailyJob
  | Weekly weeklyJob
  | Monthly monthlyJob
  | OneTime oneTimeJob

text \<open>
  The method \<open>next\<close> of each schedule; \<open>None\<close> where its loop does not return. \<open>rnd t n\<close> is what
  \<open>rand.Int64N(n)\<close> draws in the call for last run \<open>t\<close>.
\<close>

type_synonym draws = "gtime \<Rightarrow> int \<Rightarrow> int"

fun sched_next :: "draws \<Rightarrow> jobSchedule \<Rightarrow> gtime \<Rightarrow> gtime option" where
  "sched_next rnd (Cron j) lastRun = cron_next j lastRun"
| "sched_next rnd (Duration j) lastRun = Some (duration_next j lastRun)"
| "sched_next rnd (DurationRandom j) lastRun = Some (durationRandom_next (rnd lastRun) j lastRun)"
| "sched_next rnd (Daily d) lastRun = daily_next d lastRun"
| "sched_next rnd (Weekly w) lastRun = weekly_next w lastRun"
| "sched_next rnd (Monthly m) lastRun = Some (monthly_next m lastRun)"
| "sched_next rnd (OneTime o1) lastRun = Some (oneTime_next o1 lastRun)"

section \<open>Identifiers, contexts and parameters\<close>

text \<open>A UUID is its 16 bytes; \<open>uuid.Nil\<close> is 0.\<close>

type_synonym uuid = "128 word"

text \<open>
  \<open>context.WithCancel\<close> derives a context with a fresh number; cancelling it finishes it and every
  context derived from it. \<open>User n\<close> is a context that a caller provides.
\<close>

datatype ctx = Background | User nat | Derived nat ctx

fun ctx_Done :: "ctx set \<Rightarrow> ctx \<Rightarrow> bool" where
  "ctx_Done cancelled (Derived n c) = (Derived n c \<in> cancelled \<or> ctx_Done cancelled c)"
| "ctx_Done cancelled c = (c \<in> cancelled)"

text \<open>The Go types that task functions and their arguments have, as far as reflection looks at them.\<close>

datatype go_type =
    Plain string
  | StructT string
  | PointerT go_type
  | InterfaceT string
  | SliceT go_type
  | FuncT "go_type list" bool

datatype go_value = NilValue | CtxValue ctx | Value go_type nat

text \<open>Functions and objects of the caller (listeners, lockers) are opaque references.\<close>

type_synonym handle = nat

datatype LimitMode = LimitModeReschedule | LimitModeWait

record limitRunsTo =
  run_limit :: "64 word"
  runCount :: "64 word"

section \<open>internalJob\<close>

record internalJob =
  j_schedule :: "jobSchedule option"
  j_ctx :: ctx
  j_parentCtx :: "ctx option"
  j_id :: uuid
  j_name :: string
  j_tags :: "string list"
  j_cron :: "Cron option"
  j_policy :: DaylightSavingsTimePolicy
  nextScheduled :: "gtime list"
  j_lastRun :: gtime
  lastRunStartedAt :: gtime
  lastRunCompletedAt :: gtime
  j_function :: go_value
  j_parameters :: "go_value list"
  j_timer :: "nat option"
  singletonMode :: bool
  singletonLimitMode :: LimitMode
  j_limitRunsTo :: "limitRunsTo option"
  startTime :: gtime
  startImmediately :: bool
  startAtGrace :: int
  stopTime :: gtime
  intervalFromCompletion :: bool
  afterJobRuns :: "handle option"
  beforeJobRuns :: "handle option"
  beforeJobRunsSkipIfBeforeFuncErrors :: "handle option"
  afterJobRunsWithError :: "handle option"
  afterJobRunsWithPanic :: "handle option"
  afterLockError :: "handle option"
  disabledLocker :: bool
  j_locker :: "handle option"

text \<open>The promoted method \<open>next\<close> of the embedded schedule; on a nil schedule it does not return.\<close>

definition job_next :: "draws \<Rightarrow> internalJob \<Rightarrow> gtime \<Rightarrow> gtime option" where
  "job_next rnd j lastRun = (case j_schedule j of None \<Rightarrow> None | Some s \<Rightarrow> sched_next rnd s lastRun)"

definition stopTimeReached :: "internalJob \<Rightarrow> gtime \<Rightarrow> bool" where
  "stopTimeReached j now = (if IsZero (stopTime j) then False else Before (stopTime j) now)"

definition pruneStaleScheduled :: "gtime \<Rightarrow> internalJob \<Rightarrow> internalJob" where
  "pruneStaleScheduled now j = j\<lparr>nextScheduled := keptScheduled now [] (nextScheduled j)\<rparr>"

section \<open>Progress\<close>

text \<open>
  What a schedule needs for its \<open>next\<close> to move forward from a time. The setup functions establish
  the conditions on the fields; for a monthly job the location has no transitions.
\<close>

definition draws_ok :: "draws \<Rightarrow> bool" where
  "draws_ok rnd \<longleftrightarrow> (\<forall>t n. 0 < n \<longrightarrow> 0 \<le> rnd t n \<and> rnd t n < n)"

definition monthly_ok :: "monthlyJob \<Rightarrow> gtime \<Rightarrow> bool" where
  "monthly_ok m t \<longleftrightarrow> fixed_zone (tloc t) \<and> 0 < inst (first_of (tloc t) (month_index t)) \<and> days_ok m \<and>
     m_atTimes m \<noteq> [] \<and> sorted (map clock_of (m_atTimes m)) \<and> 0 < sint (m_interval m)"

fun progress_ok :: "jobSchedule \<Rightarrow> gtime \<Rightarrow> bool" where
  "progress_ok (Cron j) t = cron_advances (c_schedule j)"
| "progress_ok (Duration j) t = (0 < duration j)"
| "progress_ok (DurationRandom j) t = (0 < min_duration j \<and> min_duration j < max_duration j)"
| "progress_ok (Monthly m) t = monthly_ok m t"
| "progress_ok (OneTime o1) t = strict_by inst (sortedTimes o1)"
| "progress_ok _ t = True"

lemma month_index_mono:
  assumes "day_of t \<le> day_of u"
  shows "month_index t \<le> month_index u"
proof (rule ccontr)
  assume "\<not> month_index t \<le> month_index u"
  then have "month_start (month_index u + 1) \<le> month_start (month_index t)" by (intro month_start_mono) simp
  also have "\<dots> \<le> day_of t" using month_start_Day [of t] valid_date_fields [of t] by (simp add: valid_date_def)
  also have "\<dots> \<le> day_of u" by fact
  also have "\<dots> < month_start (month_index u + 1)"
    using month_start_Day [of u] valid_date_fields [of u] month_start_Suc [of "month_index u"]
    by (simp add: valid_date_def month_length_def)
  finally show False by simp
qed

lemma monthly_next_tloc: "\<not> IsZero (monthly_next m t) \<Longrightarrow> monthly_ok m t \<Longrightarrow> tloc (monthly_next m t) = tloc t"
  using monthly_next_fixed [of t m] by (auto simp: monthly_ok_def split: option.splits)

lemma monthly_ok_next:
  assumes "monthly_ok m t" "\<not> IsZero (monthly_next m t)"
  shows "After (monthly_next m t) t" "monthly_ok m (monthly_next m t)"
proof -
  let ?n = "monthly_next m t"
  show after: "After ?n t" using monthly_next_after [of t m] assms by (simp add: monthly_ok_def)
  have loc: "tloc ?n = tloc t" using monthly_next_tloc assms by blast
  have zone: "fixed_zone (tloc t)" using assms(1) by (simp add: monthly_ok_def)
  have "inst t div nanos \<le> inst ?n div nanos" using after by (intro div_mono_int) (simp_all add: After_def)
  then have "day_of t \<le> day_of ?n" using zone loc by (simp add: day_of_def wall_fixed div_mono_int)
  then have "inst (first_of (tloc t) (month_index t)) \<le> inst (first_of (tloc t) (month_index ?n))"
    by (intro inst_first_of_mono zone month_index_mono)
  then show "monthly_ok m ?n" using assms(1) loc by (simp add: monthly_ok_def)
qed

lemma sched_next_progress:
  assumes "draws_ok rnd" "progress_ok s t" "sched_next rnd s t = Some n" "\<not> IsZero n"
  shows "After n t" "progress_ok s n"
proof -
  have "After n t \<and> progress_ok s n"
  proof (cases s)
    case (Cron j)
    then show ?thesis using assms cron_next_after by simp
  next
    case (Duration j)
    then show ?thesis using assms by (auto simp: duration_next_def After_def)
  next
    case (DurationRandom j)
    then have "0 \<le> rnd t (max_duration j - min_duration j)" using assms by (simp add: draws_ok_def)
    then show ?thesis using assms DurationRandom by (auto simp: durationRandom_next_def Let_def After_def)
  next
    case (Daily d)
    then show ?thesis using assms daily_next_later by simp
  next
    case (Weekly w)
    then show ?thesis using assms weekly_next_later by simp
  next
    case (Monthly m)
    then show ?thesis using assms monthly_ok_next by auto
  next
    case (OneTime o1)
    then show ?thesis using assms oneTime_next_later by auto
  qed
  then show "After n t" "progress_ok s n" by simp_all
qed

end
