(* ===== verification/JobDefs.thy ===== *)
theory JobDefs
  imports JobTypes
begin

text \<open>
  The job definitions of job.go and their \<open>setup\<close> methods: the checks in the order of the code, and
  the schedule that is stored on the job. A nil function of the caller is \<open>None\<close>.
\<close>

section \<open>At-times\<close>

record atTime =
  at_hours :: "64 word"
  at_minutes :: "64 word"
  at_seconds :: "64 word"

type_synonym atTimes = "atTime option list option"

definition atTime_time :: "atTime \<Rightarrow> location \<Rightarrow> gtime" where
  "atTime_time a l = Date 0 0 0 (sint (at_hours a)) (sint (at_minutes a)) (sint (at_seconds a)) 0 l"

fun convertAtTimes_loop :: "atTime option list \<Rightarrow> location \<Rightarrow> gtime list \<Rightarrow> gtime list result" where
  "convertAtTimes_loop [] l atTimesDate = Inr atTimesDate"
| "convertAtTimes_loop (None # as) l atTimesDate = Inl errAtTimeNil"
| "convertAtTimes_loop (Some at # as) l atTimesDate =
     (if 23 < at_hours at then Inl errAtTimeHours
      else if 59 < at_minutes at \<or> 59 < at_seconds at then Inl errAtTimeMinSec
      else convertAtTimes_loop as l (atTimesDate @ [atTime_time at l]))"

definition convertAtTimesToDateTime :: "atTimes \<Rightarrow> location \<Rightarrow> gtime list result" where
  "convertAtTimesToDateTime atTimes l =
     (case atTimes of
        None \<Rightarrow> Inl errAtTimesNil
      | Some as \<Rightarrow> map_sum id SortStableTimes (convertAtTimes_loop as l []))"

text \<open>The switch over the error of the conversion, with the errors of one kind of job.\<close>

definition atTimes_switch :: "error \<Rightarrow> error \<Rightarrow> error \<Rightarrow> error \<Rightarrow> gtime list result \<Rightarrow> gtime list result" where
  "atTimes_switch timesNil timeNil hours minSec r =
     (case r of
        Inr ts \<Rightarrow> Inr ts
      | Inl e \<Rightarrow>
          if errors_Is e errAtTimesNil then Inl timesNil
          else if errors_Is e errAtTimeNil then Inl timeNil
          else if errors_Is e errAtTimeHours then Inl hours
          else if errors_Is e errAtTimeMinSec then Inl minSec
          else Inr [])"

section \<open>Definitions\<close>

text \<open>The three ways to start a one-time job: at once, or at given times.\<close>

datatype OneTimeJobStartAt = OneTimeJobStartImmediately | OneTimeJobStartDateTimes "gtime list"

datatype jobDefinition =
    cronJobDefinition string Cron
  | durationJobDefinition int
  | durationRandomJobDefinition int int
  | dailyJobDefinition "64 word" atTimes
  | weeklyJobDefinition "64 word" "int list option" atTimes
  | monthlyJobDefinition "64 word" "int list option" atTimes
  | oneTimeJobDefinition OneTimeJobStartAt

type_synonym parser = "bool \<Rightarrow> string \<Rightarrow> cronSchedule result"

text \<open>A custom implementation set on the job wins; a default one is cloned without its parsed state.\<close>

definition cron_setup :: "parser \<Rightarrow> string \<Rightarrow> Cron \<Rightarrow> internalJob \<Rightarrow> location \<Rightarrow> gtime \<Rightarrow> internalJob result" where
  "cron_setup parse tab c j l now =
     (let cronImpl = (case j_cron j of
            Some c' \<Rightarrow> c'
          | None \<Rightarrow> (case c of Default dc \<Rightarrow> Default \<lparr>withSeconds = withSeconds dc, parsed = None\<rparr> | _ \<Rightarrow> c))
      in case Cron_IsValid parse cronImpl tab l now of
           Inl e \<Rightarrow> Inl e
         | Inr cronImpl \<Rightarrow>
             Inr (j\<lparr>j_schedule := Some (Cron \<lparr>crontab = tab, c_schedule = cronImpl, c_policy = j_policy j\<rparr>)\<rparr>))"

definition duration_setup :: "int \<Rightarrow> internalJob \<Rightarrow> internalJob result" where
  "duration_setup d j =
     (if d = 0 then Inl ErrDurationJobIntervalZero
      else if d < 0 then Inl ErrDurationJobIntervalNegative
      else Inr (j\<lparr>j_schedule := Some (Duration \<lparr>duration = d\<rparr>)\<rparr>))"

definition durationRandom_setup :: "int \<Rightarrow> int \<Rightarrow> internalJob \<Rightarrow> internalJob result" where
  "durationRandom_setup mn mx j =
     (if mx \<le> mn then Inl ErrDurationRandomJobMinMax
      else if mn \<le> 0 \<or> mx \<le> 0 then Inl ErrDurationRandomJobPositive
      else Inr (j\<lparr>j_schedule := Some (DurationRandom \<lparr>min_duration = mn, max_duration = mx\<rparr>)\<rparr>))"

definition daily_setup :: "64 word \<Rightarrow> atTimes \<Rightarrow> internalJob \<Rightarrow> location \<Rightarrow> internalJob result" where
  "daily_setup interval ats j l =
     bind_result (atTimes_switch ErrDailyJobAtTimesNil ErrDailyJobAtTimeNil ErrDailyJobHours
         ErrDailyJobMinutesSeconds (convertAtTimesToDateTime ats l))
       (\<lambda>atTimesDate.
          if interval = 0 then Inl ErrDailyJobZeroInterval
          else Inr (j\<lparr>j_schedule := Some (Daily
                 \<lparr>d_interval = interval, d_atTimes = atTimesDate, d_policy = j_policy j\<rparr>)\<rparr>))"

definition weekly_setup :: "64 word \<Rightarrow> int list option \<Rightarrow> atTimes \<Rightarrow> internalJob \<Rightarrow> location \<Rightarrow> internalJob result" where
  "weekly_setup interval weekdays ats j l =
     (if interval = 0 then Inl ErrWeeklyJobZeroInterval
      else case weekdays of
        None \<Rightarrow> Inl ErrWeeklyJobDaysOfTheWeekNil
      | Some wds \<Rightarrow>
          bind_result (atTimes_switch ErrWeeklyJobAtTimesNil ErrWeeklyJobAtTimeNil ErrWeeklyJobHours
              ErrWeeklyJobMinutesSeconds (convertAtTimesToDateTime ats l))
            (\<lambda>atTimesDate.
               Inr (j\<lparr>j_schedule := Some (Weekly \<lparr>w_interval = interval, w_daysOfWeek = slices_Sort wds,
                      w_atTimes = atTimesDate, w_policy = j_policy j\<rparr>)\<rparr>)))"

text \<open>The loop that splits the days of the month by sign, stopping at the first one out of range.\<close>

fun split_days :: "int list \<Rightarrow> int list \<Rightarrow> int list \<Rightarrow> (int list \<times> int list) result" where
  "split_days [] daysStart daysEnd = Inr (daysStart, daysEnd)"
| "split_days (day # days) daysStart daysEnd =
     (if 31 < day \<or> day = 0 \<or> day < -31 then Inl ErrMonthlyJobDays
      else if 0 < day then split_days days (daysStart @ [day]) daysEnd
      else split_days days daysStart (daysEnd @ [day]))"

definition monthly_setup :: "64 word \<Rightarrow> int list option \<Rightarrow> atTimes \<Rightarrow> internalJob \<Rightarrow> location \<Rightarrow> internalJob result" where
  "monthly_setup interval daysOfTheMonth ats j l =
     (if interval = 0 then Inl ErrMonthlyJobZeroInterval
      else case daysOfTheMonth of
        None \<Rightarrow> Inl ErrMonthlyJobDaysNil
      | Some ds \<Rightarrow>
          bind_result (split_days ds [] []) (\<lambda>(daysStart, daysEnd).
          bind_result (atTimes_switch ErrMonthlyJobAtTimesNil ErrMonthlyJobAtTimeNil ErrMonthlyJobHours
              ErrMonthlyJobMinutesSeconds (convertAtTimesToDateTime ats l)) (\<lambda>atTimesDate.
          Inr (j\<lparr>j_schedule := Some (Monthly \<lparr>m_interval = interval,
                 m_days = removeSliceDuplicatesInt daysStart, m_daysFromEnd = removeSliceDuplicatesInt daysEnd,
                 m_atTimes = atTimesDate, m_policy = j_policy j\<rparr>)\<rparr>))))"

text \<open>\<open>removeSliceDuplicatesTimeOnSortedSlice\<close>: each time is compared with the one before it.\<close>

fun dedup_after :: "gtime \<Rightarrow> gtime list \<Rightarrow> gtime list" where
  "dedup_after before [] = []"
| "dedup_after before (t # ts) = (if Equal t before then dedup_after t ts else t # dedup_after t ts)"

definition removeSliceDuplicatesTimeOnSortedSlice :: "gtime list \<Rightarrow> gtime list" where
  "removeSliceDuplicatesTimeOnSortedSlice startTimes = (case startTimes of [] \<Rightarrow> [] | t # ts \<Rightarrow> t # dedup_after t ts)"

fun OneTime_startAt :: "OneTimeJobStartAt \<Rightarrow> internalJob \<Rightarrow> gtime list \<times> internalJob" where
  "OneTime_startAt OneTimeJobStartImmediately j = ([], j\<lparr>startImmediately := True\<rparr>)"
| "OneTime_startAt (OneTimeJobStartDateTimes startTimes) j = (startTimes, j)"

definition future_times :: "gtime list \<Rightarrow> gtime \<Rightarrow> gtime list" where
  "future_times ts now =
     (case BinarySearchFunc ts now ascendingTime of
        (idx, found) \<Rightarrow> drop (if found then idx + 1 else idx) ts)"

definition oneTime_setup :: "OneTimeJobStartAt \<Rightarrow> internalJob \<Rightarrow> gtime \<Rightarrow> internalJob result" where
  "oneTime_setup startAt j now =
     (case OneTime_startAt startAt j of
        (startTimes, j) \<Rightarrow>
          let ts = future_times (removeSliceDuplicatesTimeOnSortedSlice (SortStableTimes startTimes)) now
          in if \<not> startImmediately j \<and> ts = [] then Inl ErrOneTimeJobStartDateTimePast
             else
               let j = (case ts of [] \<Rightarrow> j | t # _ \<Rightarrow> j\<lparr>startTime := t\<rparr>)
               in Inr (j\<lparr>j_schedule := Some (OneTime \<lparr>sortedTimes = ts\<rparr>)\<rparr>))"

text \<open>The interface method.\<close>

fun definition_setup :: "parser \<Rightarrow> jobDefinition \<Rightarrow> internalJob \<Rightarrow> location \<Rightarrow> gtime \<Rightarrow> internalJob result" where
  "definition_setup parse (cronJobDefinition tab c) j l now = cron_setup parse tab c j l now"
| "definition_setup parse (durationJobDefinition d) j l now = duration_setup d j"
| "definition_setup parse (durationRandomJobDefinition mn mx) j l now = durationRandom_setup mn mx j"
| "definition_setup parse (dailyJobDefinition i ats) j l now = daily_setup i ats j l"
| "definition_setup parse (weeklyJobDefinition i wds ats) j l now = weekly_setup i wds ats j l"
| "definition_setup parse (monthlyJobDefinition i ds ats) j l now = monthly_setup i ds ats j l"
| "definition_setup parse (oneTimeJobDefinition startAt) j l now = oneTime_setup startAt j now"

section \<open>What the setup methods establish\<close>

text \<open>Which lists of at-times are accepted, and which error the first bad entry gives.\<close>

definition valid_at :: "atTime option \<Rightarrow> bool" where
  "valid_at a \<longleftrightarrow> (case a of None \<Rightarrow> False | Some at \<Rightarrow> at_hours at \<le> 23 \<and> at_minutes at \<le> 59 \<and> at_seconds at \<le> 59)"

lemma valid_at_Some: "valid_at a \<Longrightarrow> a = Some (the a)"
  by (cases a) (simp_all add: valid_at_def)

lemma convertAtTimes_loop_ok:
  "convertAtTimes_loop as l acc = Inr ts \<longleftrightarrow>
     (\<forall>a\<in>set as. valid_at a) \<and> ts = acc @ map (\<lambda>a. atTime_time (the a) l) as"
proof (induction as l acc rule: convertAtTimes_loop.induct)
  case (3 at as l acc)
  have "valid_at (Some at) \<longleftrightarrow> \<not> 23 < at_hours at \<and> \<not> (59 < at_minutes at \<or> 59 < at_seconds at)"
    by (auto simp: valid_at_def not_less)
  then show ?case using 3 by auto
qed (auto simp: valid_at_def)

lemma convertAtTimes_ok:
  "convertAtTimesToDateTime ats l = Inr ts \<longleftrightarrow>
     (\<exists>as. ats = Some as \<and> (\<forall>a\<in>set as. valid_at a) \<and> ts = SortStableTimes (map (\<lambda>a. atTime_time (the a) l) as))"
proof (cases ats)
  case (Some as)
  show ?thesis
  proof (cases "\<forall>a\<in>set as. valid_at a")
    case True
    then have "convertAtTimes_loop as l [] = Inr (map (\<lambda>a. atTime_time (the a) l) as)"
      by (simp add: convertAtTimes_loop_ok)
    then show ?thesis using True Some by (auto simp: convertAtTimesToDateTime_def)
  next
    case False
    then have "\<nexists>us. convertAtTimes_loop as l [] = Inr us" by (simp add: convertAtTimes_loop_ok)
    then have "\<exists>e. convertAtTimes_loop as l [] = Inl e" by (metis sum.exhaust)
    then show ?thesis using False Some by (auto simp: convertAtTimesToDateTime_def)
  qed
qed (simp add: convertAtTimesToDateTime_def)

lemma convertAtTimes_errors:
  "convertAtTimesToDateTime ats l = Inl e \<Longrightarrow> e \<in> {errAtTimesNil, errAtTimeNil, errAtTimeHours, errAtTimeMinSec}"
proof -
  have "convertAtTimes_loop as l acc = Inl e \<Longrightarrow> e \<in> {errAtTimeNil, errAtTimeHours, errAtTimeMinSec}" for as acc
    by (induction as l acc rule: convertAtTimes_loop.induct) (auto split: if_splits)
  then show "convertAtTimesToDateTime ats l = Inl e \<Longrightarrow> ?thesis"
    by (cases ats; cases "convertAtTimes_loop (the ats) l []") (auto simp: convertAtTimesToDateTime_def)
qed

lemma atTimes_switch_ok:
  "atTimes_switch a b c d (convertAtTimesToDateTime ats l) = Inr ts \<longleftrightarrow> convertAtTimesToDateTime ats l = Inr ts"
  using convertAtTimes_errors [of ats l]
  by (cases "convertAtTimesToDateTime ats l") (auto simp: atTimes_switch_def)

text \<open>
  In a location whose first transition is after its first days, the time of an at-time shows the
  clock reading asked for, and at-times in the order of their instants are in the order of the clock.
\<close>

definition modern :: "location \<Rightarrow> bool" where
  "modern l \<longleftrightarrow> \<bar>loc_base l\<bar> < 86400 \<and> (\<forall>(t, off)\<in>set (loc_tx l). 86400 \<le> t)"

lemma lookup_early:
  assumes "modern l" "sec < 86400"
  shows "fst (lookup l sec) = loc_base l" "fst (snd (lookup l sec)) = None"
    "\<And>en. snd (snd (lookup l sec)) = Some en \<Longrightarrow> 86400 \<le> en"
  using assms by (cases "loc_tx l"; auto simp: lookup_def modern_def split: prod.splits)+

lemma resolve_wall_early:
  assumes "modern l" "w < 0"
  shows "resolve_wall l w = w - loc_base l" "wall_of l (resolve_wall l w) = w"
proof -
  obtain st en where look: "lookup l w = (loc_base l, st, en)" by (metis assms lookup_early(1) less_trans prod.collapse zero_less_numeral)
  have early: "w - loc_base l < 86400" using assms by (simp add: modern_def abs_less_iff)
  have "in_period st en (w - loc_base l)"
    using lookup_early(2,3) [of l w] assms look early by (force simp: in_period_def split: option.splits)
  then show r: "resolve_wall l w = w - loc_base l" by (simp add: resolve_wall_def look)
  show "wall_of l (resolve_wall l w) = w"
    using lookup_early(1) [OF assms(1) early] by (simp add: r wall_of_def offset_at_def)
qed

definition at_clock :: "atTime \<Rightarrow> int" where
  "at_clock a = sint (at_hours a) * 3600 + sint (at_minutes a) * 60 + sint (at_seconds a)"

text \<open>The day that \<open>time.Date(0, 0, 0, ...)\<close> means: the last of November of the year before year 0.\<close>

definition at_day :: int where
  "at_day = day_number (-1) 12 0"

lemma at_day_early: "at_day < -1"
  by (simp add: at_day_def day_number_def days_before_year_def days_before_month_def)

lemma valid_at_range:
  assumes "valid_at (Some a)"
  shows "valid_clock (sint (at_hours a)) (sint (at_minutes a)) (sint (at_seconds a))" "0 \<le> at_clock a" "at_clock a < 86400"
proof -
  have small: "0 \<le> sint x \<and> sint x \<le> 59" "x \<le> 23 \<Longrightarrow> sint x \<le> 23" if "x \<le> 59" for x :: "64 word"
    using that sint_small [of x] by (simp_all add: word_le_def)
  have "at_hours a \<le> 59" using assms by (auto simp: valid_at_def intro: order_trans)
  then show "valid_clock (sint (at_hours a)) (sint (at_minutes a)) (sint (at_seconds a))"
    using assms small [of "at_hours a"] small [of "at_minutes a"] small [of "at_seconds a"]
    by (simp add: valid_at_def valid_clock_def)
  then show "0 \<le> at_clock a" "at_clock a < 86400" by (auto simp: valid_clock_def at_clock_def)
qed

lemma atTime_time_early:
  assumes "modern l" "valid_at (Some a)"
  shows "wall (atTime_time a l) = at_day * 86400 + at_clock a"
    "inst (atTime_time a l) = (at_day * 86400 + at_clock a - loc_base l) * nanos"
    "clock_of (atTime_time a l) = at_clock a" "tloc (atTime_time a l) = l"
proof -
  let ?w = "wall_seconds 0 0 0 (sint (at_hours a)) (sint (at_minutes a)) (sint (at_seconds a))"
  have w: "?w = at_day * 86400 + at_clock a"
    by (simp add: wall_seconds_def at_day_def at_clock_def)
  have "?w < 0" using at_day_early valid_at_range(3) [OF assms(2)] unfolding w by simp
  note resolved = resolve_wall_early [OF assms(1) this]
  show wall: "wall (atTime_time a l) = at_day * 86400 + at_clock a"
    using resolved w by (simp add: atTime_time_def wall_Date)
  show "inst (atTime_time a l) = (at_day * 86400 + at_clock a - loc_base l) * nanos"
    using resolved w by (simp add: atTime_time_def Date_def)
  show "clock_of (atTime_time a l) = at_clock a"
    using wall valid_at_range(2,3) [OF assms(2)] by (simp add: clock_of_def)
  show "tloc (atTime_time a l) = l" by (simp add: atTime_time_def)
qed

lemma convertAtTimes_sorted:
  assumes "modern l" "convertAtTimesToDateTime ats l = Inr ts"
  shows "sorted (map clock_of ts)"
    "set (map clock_of ts) = {at_clock a |a. Some a \<in> set (the ats)}" "ts = [] \<longleftrightarrow> ats = Some []"
proof -
  obtain as where as: "ats = Some as" "\<forall>a\<in>set as. valid_at a" "ts = SortStableTimes (map (\<lambda>a. atTime_time (the a) l) as)"
    using assms(2) unfolding convertAtTimes_ok by blast
  have shape: "\<exists>a. t = atTime_time a l \<and> valid_at (Some a)" if t: "t \<in> set ts" for t
  proof -
    obtain a where a: "a \<in> set as" "t = atTime_time (the a) l" using t by (auto simp: as(3) SortStableTimes_def)
    then have "valid_at (Some (the a))" using as(2) valid_at_Some [of a] by simp
    then show ?thesis using a(2) by blast
  qed
  have "clock_of t = inst t div nanos - at_day * 86400 + loc_base l" if t: "t \<in> set ts" for t
  proof -
    obtain a where a: "t = atTime_time a l" "valid_at (Some a)" using shape [OF t] by blast
    have "inst t div nanos = at_day * 86400 + at_clock a - loc_base l"
      unfolding a(1) atTime_time_early(2) [OF assms(1) a(2)] by (simp add: nanos_def)
    then show ?thesis using atTime_time_early(3) [OF assms(1) a(2)] a(1) by simp
  qed
  moreover have "sorted (map inst ts)" by (simp add: as(3) SortStableTimes_def)
  ultimately show "sorted (map clock_of ts)"
    unfolding sorted_map by (elim sorted_wrt_mono_rel [rotated]) (simp add: div_mono_int)
  have "length ts = length as" by (simp add: as(3) SortStableTimes_def)
  then show "ts = [] \<longleftrightarrow> ats = Some []" using as(1) by auto
  have "clock_of (atTime_time (the a) l) = at_clock (the a)" if "a \<in> set as" for a
    using that as(2) valid_at_Some [of a] atTime_time_early(3) [OF assms(1), of "the a"] by simp
  then have "set (map clock_of ts) = (\<lambda>a. at_clock (the a)) ` set as"
    by (simp add: as(3) SortStableTimes_def image_image cong: image_cong)
  also have "\<dots> = {at_clock a |a. Some a \<in> set as}"
  proof -
    have "a \<in> set as \<Longrightarrow> Some (the a) \<in> set as" for a using as(2) valid_at_Some [of a] by simp
    then show ?thesis by force
  qed
  finally show "set (map clock_of ts) = {at_clock a |a. Some a \<in> set (the ats)}" by (simp add: as(1))
qed

text \<open>The days of the month after the split are in range, without duplicates and in order.\<close>

lemma split_days_ok:
  "split_days ds xs ys = Inr (xs', ys') \<longleftrightarrow> (\<forall>d\<in>set ds. d \<noteq> 0 \<and> -31 \<le> d \<and> d \<le> 31) \<and>
     xs' = xs @ filter (\<lambda>d. 0 < d) ds \<and> ys' = ys @ filter (\<lambda>d. d < 0) ds"
  by (induction ds xs ys rule: split_days.induct) auto

lemma set_slices_Compact: "set (slices_Compact xs) = set xs"
  by (induction xs rule: slices_Compact.induct) auto

lemma set_removeSliceDuplicatesInt: "set (removeSliceDuplicatesInt xs) = set xs"
  by (simp add: removeSliceDuplicatesInt_def set_slices_Compact slices_Sort_def)

text \<open>The times of a one-time job: strictly ascending, and just the requested times after now.\<close>

lemma dedup_after_strict:
  "sorted_by inst (t # ts) \<Longrightarrow> strict_by inst (t # dedup_after t ts) \<and>
     inst ` set (t # dedup_after t ts) = inst ` set (t # ts)"
proof (induction ts arbitrary: t)
  case (Cons u ts)
  have le: "inst t \<le> inst u" using Cons.prems by simp
  have IH: "strict_by inst (u # dedup_after u ts)" "inst ` set (u # dedup_after u ts) = inst ` set (u # ts)"
    using Cons.IH [of u] Cons.prems by simp_all
  show ?case
  proof (cases "Equal u t")
    case True
    then have "inst u = inst t" by (simp add: Equal_def)
    then show ?thesis using True IH by auto
  next
    case False
    then have "inst t < inst u" using le by (auto simp: Equal_def)
    then show ?thesis using False IH by auto
  qed
qed simp

lemma dedup_strict:
  "strict_by inst (removeSliceDuplicatesTimeOnSortedSlice (SortStableTimes ts)) \<and>
     inst ` set (removeSliceDuplicatesTimeOnSortedSlice (SortStableTimes ts)) = inst ` set ts"
proof (cases "SortStableTimes ts")
  case Nil
  then have "ts = []" unfolding SortStableTimes_def by (metis length_0_conv length_sort)
  then show ?thesis by (simp add: SortStableTimes_def removeSliceDuplicatesTimeOnSortedSlice_def)
next
  case (Cons u us)
  have "sorted (map inst (SortStableTimes ts))" by (simp add: SortStableTimes_def)
  then have "sorted_by inst (u # us)" by (simp add: Cons sorted_by_def sorted_map del: list.map)
  moreover have "set (u # us) = set ts" using Cons set_sort [of inst ts] by (simp add: SortStableTimes_def)
  ultimately show ?thesis using dedup_after_strict [of u us] Cons
    by (simp add: removeSliceDuplicatesTimeOnSortedSlice_def)
qed

lemma future_times_strict:
  assumes "strict_by inst ts"
  shows "future_times ts now = filter (\<lambda>t. After t now) ts"
proof -
  have "(let idx = length (takeWhile (\<lambda>x. inst x < inst now) ts)
         in drop (if \<exists>x\<in>set ts. inst x = inst now then idx + 1 else idx) ts) = filter (\<lambda>t. After t now) ts"
    using assms
  proof (induction ts)
    case (Cons t ts)
    consider "inst t < inst now" | "inst t = inst now" | "inst now < inst t" by linarith
    then show ?case
    proof cases
      case 1
      then show ?thesis using Cons
        by (cases "\<exists>x\<in>set ts. inst x = inst now") (simp_all add: After_def Let_def)
    next
      case 2
      then have "filter (\<lambda>t. After t now) ts = ts" using Cons.prems by (auto simp: After_def filter_id_conv)
      then show ?thesis using 2 by (simp add: After_def Let_def)
    next
      case 3
      then have "filter (\<lambda>t. After t now) ts = ts" "\<not> (\<exists>x\<in>set ts. inst x = inst now)"
        using Cons.prems by (auto simp: After_def filter_id_conv)
      then show ?thesis using 3 by (auto simp: After_def Let_def)
    qed
  qed simp
  then show ?thesis using assms by (simp add: future_times_def BinarySearchFunc_times Let_def)
qed

section \<open>Accepted definitions make progress\<close>

text \<open>
  The schedule that \<open>setup\<close> stores meets the conditions under which its runs move forward. For a cron
  job the implementation has to keep its contract, and for a monthly job the interval has to be one
  that does not wrap as an int.
\<close>

lemma oneTime_setup_ok:
  assumes "oneTime_setup startAt j now = Inr j'"
  obtains ts where "j_schedule j' = Some (OneTime \<lparr>sortedTimes = ts\<rparr>)" "strict_by inst ts" "\<forall>t\<in>set ts. After t now"
    "inst ` set ts = {inst t |t. t \<in> set (fst (OneTime_startAt startAt j)) \<and> After t now}"
proof -
  obtain startTimes j0 where st: "OneTime_startAt startAt j = (startTimes, j0)" by force
  let ?ts = "removeSliceDuplicatesTimeOnSortedSlice (SortStableTimes startTimes)"
  have strict: "strict_by inst ?ts" and same: "inst ` set ?ts = inst ` set startTimes"
    using dedup_strict by auto
  have split: "inst ` {t \<in> A. After t now} = {i \<in> inst ` A. inst now < i}" for A by (auto simp: After_def)
  show thesis
  proof (rule that)
    show "j_schedule j' = Some (OneTime \<lparr>sortedTimes = filter (\<lambda>t. After t now) ?ts\<rparr>)"
      using assms by (auto simp: oneTime_setup_def st Let_def future_times_strict [OF strict] split: if_splits)
    show "strict_by inst (filter (\<lambda>t. After t now) ?ts)" using strict by (rule strict_by_filter)
    have "inst ` set (filter (\<lambda>t. After t now) ?ts) = inst ` {t \<in> set startTimes. After t now}"
      unfolding set_filter split same ..
    then show "inst ` set (filter (\<lambda>t. After t now) ?ts) =
        {inst t |t. t \<in> set (fst (OneTime_startAt startAt j)) \<and> After t now}"
      unfolding st fst_conv by blast
  qed simp
qed

lemma setup_progress:
  assumes "definition_setup parse def j l now = Inr j'" "j_schedule j' = Some s"
    and "\<And>c. s = Cron c \<Longrightarrow> cron_advances (c_schedule c)"
    and "\<And>m. s = Monthly m \<Longrightarrow> m_atTimes m \<noteq> [] \<and> 0 < sint (m_interval m) \<and> fixed_zone (tloc t) \<and>
      0 < inst (first_of (tloc t) (month_index t))"
    and "modern l"
  shows "progress_ok s t"
proof (cases "def")
  case (oneTimeJobDefinition startAt)
  then show ?thesis using assms(1,2) by (auto elim!: oneTime_setup_ok)
next
  case (monthlyJobDefinition interval ds ats)
  then obtain days xs ys ts where ok: "split_days days [] [] = Inr (xs, ys)" "convertAtTimesToDateTime ats l = Inr ts"
    and s: "s = Monthly \<lparr>m_interval = interval, m_days = removeSliceDuplicatesInt xs,
      m_daysFromEnd = removeSliceDuplicatesInt ys, m_atTimes = ts, m_policy = j_policy j\<rparr>"
    using assms(1,2) by (auto simp: monthly_setup_def atTimes_switch_ok split: if_splits option.splits)
  have "days_ok \<lparr>m_interval = interval, m_days = removeSliceDuplicatesInt xs,
      m_daysFromEnd = removeSliceDuplicatesInt ys, m_atTimes = ts, m_policy = j_policy j\<rparr>"
    using ok(1) by (auto simp: days_ok_def split_days_ok set_removeSliceDuplicatesInt)
  then show ?thesis
    using assms(4) [OF s] convertAtTimes_sorted(1) [OF assms(5) ok(2)] by (simp add: s monthly_ok_def)
next
  case (cronJobDefinition tab c)
  then show ?thesis using assms(1-3) by (auto simp: cron_setup_def Let_def split: sum.splits)
qed (use assms(1,2) in \<open>auto simp: duration_setup_def durationRandom_setup_def daily_setup_def weekly_setup_def
  split: if_splits option.splits\<close>)

end
