(* ===== verification/JobOptions.thy ===== *)
theory JobOptions
  imports JobTypes
begin

text \<open>
  The job options and event listeners of job.go: each changes one part of the job or returns an
  error; \<open>NewJob\<close> applies the global options and then those of the job, and stops at an error.
\<close>

section \<open>Event listeners\<close>

datatype EventListener =
    BeforeJobRuns "handle option"
  | BeforeJobRunsSkipIfBeforeFuncErrors "handle option"
  | AfterJobRuns "handle option"
  | AfterJobRunsWithError "handle option"
  | AfterJobRunsWithPanic "handle option"
  | AfterLockError "handle option"

text \<open>Each listener stores its function on the job; a nil function is an error.\<close>

definition apply_BeforeJobRuns :: "handle option \<Rightarrow> internalJob \<Rightarrow> internalJob result" where
  "apply_BeforeJobRuns f j = (if f = None then Inl ErrEventListenerFuncNil else Inr (j\<lparr>beforeJobRuns := f\<rparr>))"

definition apply_BeforeJobRunsSkipIfBeforeFuncErrors :: "handle option \<Rightarrow> internalJob \<Rightarrow> internalJob result" where
  "apply_BeforeJobRunsSkipIfBeforeFuncErrors f j = (if f = None then Inl ErrEventListenerFuncNil else Inr (j\<lparr>beforeJobRunsSkipIfBeforeFuncErrors := f\<rparr>))"

definition apply_AfterJobRuns :: "handle option \<Rightarrow> internalJob \<Rightarrow> internalJob result" where
  "apply_AfterJobRuns f j = (if f = None then Inl ErrEventListenerFuncNil else Inr (j\<lparr>afterJobRuns := f\<rparr>))"

definition apply_AfterJobRunsWithError :: "handle option \<Rightarrow> internalJob \<Rightarrow> internalJob result" where
  "apply_AfterJobRunsWithError f j = (if f = None then Inl ErrEventListenerFuncNil else Inr (j\<lparr>afterJobRunsWithError := f\<rparr>))"

definition apply_AfterJobRunsWithPanic :: "handle option \<Rightarrow> internalJob \<Rightarrow> internalJob result" where
  "apply_AfterJobRunsWithPanic f j = (if f = None then Inl ErrEventListenerFuncNil else Inr (j\<lparr>afterJobRunsWithPanic := f\<rparr>))"

definition apply_AfterLockError :: "handle option \<Rightarrow> internalJob \<Rightarrow> internalJob result" where
  "apply_AfterLockError f j = (if f = None then Inl ErrEventListenerFuncNil else Inr (j\<lparr>afterLockError := f\<rparr>))"

fun apply_listener :: "EventListener \<Rightarrow> internalJob \<Rightarrow> internalJob result" where
  "apply_listener (BeforeJobRuns f) j = apply_BeforeJobRuns f j"
| "apply_listener (BeforeJobRunsSkipIfBeforeFuncErrors f) j = apply_BeforeJobRunsSkipIfBeforeFuncErrors f j"
| "apply_listener (AfterJobRuns f) j = apply_AfterJobRuns f j"
| "apply_listener (AfterJobRunsWithError f) j = apply_AfterJobRunsWithError f j"
| "apply_listener (AfterJobRunsWithPanic f) j = apply_AfterJobRunsWithPanic f j"
| "apply_listener (AfterLockError f) j = apply_AfterLockError f j"

lemmas listener_defs = apply_BeforeJobRuns_def apply_BeforeJobRunsSkipIfBeforeFuncErrors_def apply_AfterJobRuns_def
  apply_AfterJobRunsWithError_def apply_AfterJobRunsWithPanic_def apply_AfterLockError_def

fun apply_listeners :: "EventListener list \<Rightarrow> internalJob \<Rightarrow> internalJob result" where
  "apply_listeners [] j = Inr j"
| "apply_listeners (f # fs) j = (case apply_listener f j of Inl e \<Rightarrow> Inl e | Inr j \<Rightarrow> apply_listeners fs j)"

section \<open>Options\<close>

datatype StartAtOption = WithStartImmediately | WithStartDateTime gtime | WithStartDateTimePast gtime

datatype StopAtOption = WithStopDateTime gtime

datatype JobOption =
    WithDistributedJobLocker "handle option"
  | WithDisabledDistributedJobLocker bool
  | WithEventListeners "EventListener list"
  | WithLimitedRuns "64 word"
  | WithName string
  | WithCronImplementation "Cron option"
  | WithDaylightSavingsTimePolicy DaylightSavingsTimePolicy
  | WithSingletonMode LimitMode
  | WithIntervalFromCompletion
  | WithStartAt StartAtOption
  | WithStartAtGrace int
  | WithStopAt StopAtOption
  | WithTags "string list"
  | WithIdentifier uuid
  | WithContext "ctx option"

definition apply_WithStartImmediately :: "internalJob \<Rightarrow> gtime \<Rightarrow> internalJob result" where
  "apply_WithStartImmediately j now =
     Inr (j\<lparr>startImmediately := True\<rparr>)"

definition apply_WithStartDateTime :: "gtime \<Rightarrow> internalJob \<Rightarrow> gtime \<Rightarrow> internalJob result" where
  "apply_WithStartDateTime start j now =
     (if IsZero start \<or> Before start now then Inl ErrWithStartDateTimePast
      else if \<not> IsZero (stopTime j) \<and> Before (stopTime j) start then Inl ErrStartTimeLaterThanEndTime
      else Inr (j\<lparr>startTime := start\<rparr>))"

definition apply_WithStartDateTimePast :: "gtime \<Rightarrow> internalJob \<Rightarrow> gtime \<Rightarrow> internalJob result" where
  "apply_WithStartDateTimePast start j now =
     (if IsZero start then Inl ErrWithStartDateTimePastZero
      else if \<not> IsZero (stopTime j) \<and> Before (stopTime j) start then Inl ErrStartTimeLaterThanEndTime
      else Inr (j\<lparr>startTime := start\<rparr>))"

fun apply_start_at :: "StartAtOption \<Rightarrow> internalJob \<Rightarrow> gtime \<Rightarrow> internalJob result" where
  "apply_start_at WithStartImmediately j now = apply_WithStartImmediately j now"
| "apply_start_at (WithStartDateTime start) j now = apply_WithStartDateTime start j now"
| "apply_start_at (WithStartDateTimePast start) j now = apply_WithStartDateTimePast start j now"

definition apply_WithStopDateTime :: "gtime \<Rightarrow> internalJob \<Rightarrow> gtime \<Rightarrow> internalJob result" where
  "apply_WithStopDateTime end_time j now =
     (if IsZero end_time \<or> Before end_time now then Inl ErrWithStopDateTimePast
      else if Before end_time (startTime j) then Inl ErrStopTimeEarlierThanStartTime
      else Inr (j\<lparr>stopTime := end_time\<rparr>))"

fun apply_stop_at :: "StopAtOption \<Rightarrow> internalJob \<Rightarrow> gtime \<Rightarrow> internalJob result" where
  "apply_stop_at (WithStopDateTime end_time) j now = apply_WithStopDateTime end_time j now"

definition apply_WithDistributedJobLocker :: "handle option \<Rightarrow> internalJob \<Rightarrow> gtime \<Rightarrow> internalJob result" where
  "apply_WithDistributedJobLocker lk j now =
     (if lk = None then Inl ErrWithDistributedJobLockerNil else Inr (j\<lparr>j_locker := lk\<rparr>))"

definition apply_WithDisabledDistributedJobLocker :: "bool \<Rightarrow> internalJob \<Rightarrow> gtime \<Rightarrow> internalJob result" where
  "apply_WithDisabledDistributedJobLocker b j now =
     Inr (j\<lparr>disabledLocker := b\<rparr>)"

definition apply_WithEventListeners :: "EventListener list \<Rightarrow> internalJob \<Rightarrow> gtime \<Rightarrow> internalJob result" where
  "apply_WithEventListeners ls j now =
     apply_listeners ls j"

definition apply_WithLimitedRuns :: "64 word \<Rightarrow> internalJob \<Rightarrow> gtime \<Rightarrow> internalJob result" where
  "apply_WithLimitedRuns n j now =
     (if n = 0 then Inl ErrWithLimitedRunsZero
      else Inr (j\<lparr>j_limitRunsTo := Some \<lparr>run_limit = n, runCount = 0\<rparr>\<rparr>))"

definition apply_WithName :: "string \<Rightarrow> internalJob \<Rightarrow> gtime \<Rightarrow> internalJob result" where
  "apply_WithName name j now =
     (if name = [] then Inl ErrWithNameEmpty else Inr (j\<lparr>j_name := name\<rparr>))"

definition apply_WithCronImplementation :: "Cron option \<Rightarrow> internalJob \<Rightarrow> gtime \<Rightarrow> internalJob result" where
  "apply_WithCronImplementation c j now =
     Inr (j\<lparr>j_cron := c\<rparr>)"

definition apply_WithDaylightSavingsTimePolicy :: "DaylightSavingsTimePolicy \<Rightarrow> internalJob \<Rightarrow> gtime \<Rightarrow> internalJob result" where
  "apply_WithDaylightSavingsTimePolicy p j now =
     Inr (j\<lparr>j_policy := p\<rparr>)"

definition apply_WithSingletonMode :: "LimitMode \<Rightarrow> internalJob \<Rightarrow> gtime \<Rightarrow> internalJob result" where
  "apply_WithSingletonMode mode j now =
     Inr (j\<lparr>singletonMode := True, singletonLimitMode := mode\<rparr>)"

definition apply_WithIntervalFromCompletion :: "internalJob \<Rightarrow> gtime \<Rightarrow> internalJob result" where
  "apply_WithIntervalFromCompletion j now =
     Inr (j\<lparr>intervalFromCompletion := True\<rparr>)"

definition apply_WithStartAt :: "StartAtOption \<Rightarrow> internalJob \<Rightarrow> gtime \<Rightarrow> internalJob result" where
  "apply_WithStartAt opt j now =
     apply_start_at opt j now"

definition apply_WithStartAtGrace :: "int \<Rightarrow> internalJob \<Rightarrow> gtime \<Rightarrow> internalJob result" where
  "apply_WithStartAtGrace grace j now =
     (if grace < 0 then Inl ErrWithStartAtGraceNegative else Inr (j\<lparr>startAtGrace := grace\<rparr>))"

definition apply_WithStopAt :: "StopAtOption \<Rightarrow> internalJob \<Rightarrow> gtime \<Rightarrow> internalJob result" where
  "apply_WithStopAt opt j now =
     apply_stop_at opt j now"

definition apply_WithTags :: "string list \<Rightarrow> internalJob \<Rightarrow> gtime \<Rightarrow> internalJob result" where
  "apply_WithTags tags j now =
     Inr (j\<lparr>j_tags := tags\<rparr>)"

definition apply_WithIdentifier :: "uuid \<Rightarrow> internalJob \<Rightarrow> gtime \<Rightarrow> internalJob result" where
  "apply_WithIdentifier uid j now =
     (if uid = 0 then Inl ErrWithIdentifierNil else Inr (j\<lparr>j_id := uid\<rparr>))"

definition apply_WithContext :: "ctx option \<Rightarrow> internalJob \<Rightarrow> gtime \<Rightarrow> internalJob result" where
  "apply_WithContext c j now =
     (case c of None \<Rightarrow> Inl ErrWithContextNil | Some ctx \<Rightarrow> Inr (j\<lparr>j_parentCtx := Some ctx\<rparr>))"

text \<open>The interface: which option a value is.\<close>

fun apply_option :: "JobOption \<Rightarrow> internalJob \<Rightarrow> gtime \<Rightarrow> internalJob result" where
  "apply_option (WithDistributedJobLocker lk) j now = apply_WithDistributedJobLocker lk j now"
| "apply_option (WithDisabledDistributedJobLocker b) j now = apply_WithDisabledDistributedJobLocker b j now"
| "apply_option (WithEventListeners ls) j now = apply_WithEventListeners ls j now"
| "apply_option (WithLimitedRuns n) j now = apply_WithLimitedRuns n j now"
| "apply_option (WithName name) j now = apply_WithName name j now"
| "apply_option (WithCronImplementation c) j now = apply_WithCronImplementation c j now"
| "apply_option (WithDaylightSavingsTimePolicy p) j now = apply_WithDaylightSavingsTimePolicy p j now"
| "apply_option (WithSingletonMode mode) j now = apply_WithSingletonMode mode j now"
| "apply_option WithIntervalFromCompletion j now = apply_WithIntervalFromCompletion j now"
| "apply_option (WithStartAt opt) j now = apply_WithStartAt opt j now"
| "apply_option (WithStartAtGrace grace) j now = apply_WithStartAtGrace grace j now"
| "apply_option (WithStopAt opt) j now = apply_WithStopAt opt j now"
| "apply_option (WithTags tags) j now = apply_WithTags tags j now"
| "apply_option (WithIdentifier uid) j now = apply_WithIdentifier uid j now"
| "apply_option (WithContext c) j now = apply_WithContext c j now"

lemmas option_defs =
  apply_WithStartImmediately_def apply_WithStartDateTime_def apply_WithStartDateTimePast_def
  apply_WithStopDateTime_def apply_WithDistributedJobLocker_def apply_WithDisabledDistributedJobLocker_def
  apply_WithEventListeners_def apply_WithLimitedRuns_def apply_WithName_def
  apply_WithCronImplementation_def apply_WithDaylightSavingsTimePolicy_def apply_WithSingletonMode_def
  apply_WithIntervalFromCompletion_def apply_WithStartAt_def apply_WithStartAtGrace_def
  apply_WithStopAt_def apply_WithTags_def apply_WithIdentifier_def
  apply_WithContext_def

text \<open>The loops of \<open>addOrUpdateJob\<close> over the options.\<close>

fun apply_options :: "JobOption list \<Rightarrow> internalJob \<Rightarrow> gtime \<Rightarrow> internalJob result" where
  "apply_options [] j now = Inr j"
| "apply_options (opt # opts) j now =
     (case apply_option opt j now of Inl e \<Rightarrow> Inl e | Inr j \<Rightarrow> apply_options opts j now)"

section \<open>What the options keep\<close>

text \<open>
  A job that options have built is consistent: it does not start after it stops, its grace is not
  negative, a run limit is positive with no run counted yet, its identifier is not nil, and no run
  time or timer has been set.
\<close>

definition options_inv :: "internalJob \<Rightarrow> bool" where
  "options_inv j \<longleftrightarrow> (IsZero (stopTime j) \<or> \<not> Before (stopTime j) (startTime j)) \<and> 0 \<le> startAtGrace j \<and>
     (\<forall>l. j_limitRunsTo j = Some l \<longrightarrow> run_limit l \<noteq> 0 \<and> runCount l = 0) \<and>
     j_id j \<noteq> 0 \<and> nextScheduled j = [] \<and> j_timer j = None"

lemma listener_inv:
  "apply_listener f j = Inr j' \<Longrightarrow> options_inv j' = options_inv j"
  by (cases f) (auto simp: listener_defs options_inv_def split: if_splits)

lemma listeners_inv: "apply_listeners fs j = Inr j' \<Longrightarrow> options_inv j' = options_inv j"
  by (induction fs arbitrary: j) (auto simp: listener_inv split: sum.splits)

lemma option_inv:
  assumes "apply_option opt j now = Inr j'" "options_inv j"
  shows "options_inv j'"
proof (cases opt)
  case (WithEventListeners fs)
  then show ?thesis using assms listeners_inv by (simp add: option_defs)
next
  case (WithStartAt s)
  then show ?thesis using assms by (cases s) (auto simp: option_defs options_inv_def split: if_splits)
next
  case (WithStopAt s)
  then show ?thesis using assms by (cases s) (auto simp: option_defs options_inv_def Before_def split: if_splits)
qed (use assms in \<open>auto simp: option_defs options_inv_def split: if_splits option.splits\<close>)

lemma options_keep_inv: "apply_options opts j now = Inr j' \<Longrightarrow> options_inv j \<Longrightarrow> options_inv j'"
  by (induction opts arbitrary: j) (auto intro: option_inv split: sum.splits)

lemma apply_options_append:
  "apply_options (os @ ps) j now = bind_result (apply_options os j now) (\<lambda>j. apply_options ps j now)"
  by (induction os arbitrary: j) (auto split: sum.splits)

end
