(* ===== verification/Advance.thy ===== *)
theory Advance
  imports JobTypes
begin

text \<open>
  The loops of scheduler.go and job.go that step through a schedule: \<open>advancePastNow\<close>,
  \<open>advanceNextPastDuplicates\<close> and the extension loop of \<open>Job.NextRuns\<close>. What they need of a
  schedule is the locale \<open>job_schedule\<close>, interpreted on the schedules of the repository.
\<close>

section \<open>The loops\<close>

text \<open>
  In the results the outer \<open>None\<close> is a call of \<open>next\<close> that does not return, and the inner
  \<open>None\<close> is \<open>ok=false\<close>. The guard of both loops makes every further round later than the one
  before, so both end whatever \<open>next\<close> does.
\<close>

function advancePastNow :: "(gtime \<Rightarrow> gtime option) \<Rightarrow> gtime \<Rightarrow> gtime \<Rightarrow> gtime option option" where
  "advancePastNow nxt now next =
     (if Before next now then
        (case nxt next of
           None \<Rightarrow> None
         | Some n \<Rightarrow> if IsZero n \<or> \<not> After n next then Some None else advancePastNow nxt now n)
      else Some (Some next))"
  by pat_completeness auto
termination
  by (relation "measure (\<lambda>(nxt, now, next). nat (inst now - inst next))") (auto simp: Before_def After_def)

lemma later_filter_shorter:
  assumes "After n next" "nextScheduledContains ts next"
  shows "length (filter (\<lambda>t. inst n \<le> inst t) ts) < length (filter (\<lambda>t. inst next \<le> inst t) ts)"
proof -
  obtain t where t: "t \<in> set ts" "inst t = inst next" using nextScheduledContains_sound [OF assms(2)] by blast
  have "filter (\<lambda>t. inst n \<le> inst t) ts = filter (\<lambda>t. inst n \<le> inst t) (filter (\<lambda>t. inst next \<le> inst t) ts)"
    using assms(1) by (auto simp: After_def intro!: filter_cong)
  also have "length \<dots> < length (filter (\<lambda>t. inst next \<le> inst t) ts)"
    using t assms(1) by (intro length_filter_less [of t]) (auto simp: After_def)
  finally show ?thesis .
qed

function advanceNextPastDuplicates ::
  "(gtime \<Rightarrow> gtime option) \<Rightarrow> gtime list \<Rightarrow> gtime \<Rightarrow> gtime option option" where
  "advanceNextPastDuplicates nxt ts next =
     (if nextScheduledContains ts next then
        (case nxt next of
           None \<Rightarrow> None
         | Some n \<Rightarrow> if IsZero n \<or> \<not> After n next then Some None else advanceNextPastDuplicates nxt ts n)
      else Some (Some next))"
  by pat_completeness auto
termination
  by (relation "measure (\<lambda>(nxt, ts, next). length (filter (\<lambda>t. inst next \<le> inst t) ts))")
    (auto simp: later_filter_shorter)

declare advancePastNow.simps [simp del] advanceNextPastDuplicates.simps [simp del]

text \<open>The entries that \<open>NextRuns\<close> computes beyond the stored ones: at most \<open>k\<close> more after \<open>from\<close>.\<close>

fun extend_runs :: "(gtime \<Rightarrow> gtime option) \<Rightarrow> gtime \<Rightarrow> nat \<Rightarrow> gtime \<Rightarrow> gtime list option" where
  "extend_runs nxt stop 0 from = Some []"
| "extend_runs nxt stop (Suc k) from =
     (case nxt from of
        None \<Rightarrow> None
      | Some n \<Rightarrow>
          if IsZero n then Some []
          else if \<not> IsZero stop \<and> \<not> Before n stop then Some []
          else map_option (\<lambda>ns. n # ns) (extend_runs nxt stop k n))"

text \<open>The times a schedule goes through from a start.\<close>

inductive run_from :: "(gtime \<Rightarrow> gtime option) \<Rightarrow> gtime \<Rightarrow> gtime \<Rightarrow> bool" for nxt where
  here: "run_from nxt t t"
| step: "nxt t = Some n \<Longrightarrow> \<not> IsZero n \<Longrightarrow> run_from nxt n u \<Longrightarrow> run_from nxt t u"

lemma run_from_unfold:
  "run_from nxt t u \<longleftrightarrow> u = t \<or> (\<exists>n. nxt t = Some n \<and> \<not> IsZero n \<and> run_from nxt n u)"
  by (subst run_from.simps) blast

section \<open>The contract of a schedule\<close>

locale job_schedule =
  fixes nxt :: "'s \<Rightarrow> gtime \<Rightarrow> gtime option"
    and ok :: "'s \<Rightarrow> gtime \<Rightarrow> bool"
  assumes progress: "ok s t \<Longrightarrow> nxt s t = Some n \<Longrightarrow> \<not> IsZero n \<Longrightarrow> After n t"
    and keeps_ok: "ok s t \<Longrightarrow> nxt s t = Some n \<Longrightarrow> \<not> IsZero n \<Longrightarrow> ok s n"
begin

lemma run_from_ok: "run_from (nxt s) t u \<Longrightarrow> ok s t \<Longrightarrow> ok s u \<and> (u = t \<or> After u t)"
  by (induction rule: run_from.induct) (use progress keeps_ok in \<open>auto simp: After_def\<close>, force)

lemma run_from_le: "run_from (nxt s) t u \<Longrightarrow> ok s t \<Longrightarrow> inst t \<le> inst u"
  using run_from_ok by (force simp: After_def)

lemma run_from_split:
  assumes "ok s t" "run_from (nxt s) t u" "u \<noteq> t"
  obtains n where "nxt s t = Some n" "\<not> IsZero n" "After n t" "ok s n" "run_from (nxt s) n u"
  using assms progress keeps_ok by (auto simp: run_from_unfold [of "nxt s" t u])

text \<open>
  The guard against a schedule that does not move forward never fires: \<open>advancePastNow\<close> returns
  the first run that is not before \<open>now\<close>, and \<open>ok=false\<close> only where there is none.
\<close>

lemma advancePastNow_first:
  "ok s next \<Longrightarrow> advancePastNow (nxt s) now next = Some r \<Longrightarrow>
     (case r of
        Some t \<Rightarrow> run_from (nxt s) next t \<and> ok s t \<and> \<not> Before t now \<and>
          (\<forall>u. run_from (nxt s) next u \<longrightarrow> \<not> Before u now \<longrightarrow> inst t \<le> inst u)
      | None \<Rightarrow> \<forall>u. run_from (nxt s) next u \<longrightarrow> Before u now)"
proof (induction "nxt s" now "next" rule: advancePastNow.induct)
  case (1 now "next")
  show ?case
  proof (cases "Before next now")
    case False
    then have "r = Some next" using 1 by (simp add: advancePastNow.simps)
    then show ?thesis using False 1 run_from_le by (auto simp: here)
  next
    case early: True
    then obtain n where n: "nxt s next = Some n" using 1 by (auto simp: advancePastNow.simps split: option.splits)
    show ?thesis
    proof (cases "IsZero n")
      case True
      then have "r = None" using early n 1 by (simp add: advancePastNow.simps)
      moreover have "run_from (nxt s) next u \<longleftrightarrow> u = next" for u
        using True n by (subst run_from_unfold) simp
      ultimately show ?thesis using early by simp
    next
      case False
      have later: "After n next" "ok s n" using progress keeps_ok 1 n False by blast+
      then have "advancePastNow (nxt s) now n = Some r"
        using early n False 1 by (simp add: advancePastNow.simps [of "nxt s" now "next"])
      note IH = "1.hyps" [OF early n _ later(2) this]
      have runs: "run_from (nxt s) next u \<longleftrightarrow> u = next \<or> run_from (nxt s) n u" for u
        using n False by (subst run_from_unfold) simp
      show ?thesis using IH later(1) False early unfolding runs by (cases r) auto
    qed
  qed
qed

lemma advanceNextPastDuplicates_first:
  "ok s next \<Longrightarrow> advanceNextPastDuplicates (nxt s) ts next = Some r \<Longrightarrow>
     (case r of
        Some t \<Rightarrow> run_from (nxt s) next t \<and> ok s t \<and> \<not> nextScheduledContains ts t \<and>
          (\<forall>u. run_from (nxt s) next u \<longrightarrow> \<not> nextScheduledContains ts u \<longrightarrow> inst t \<le> inst u)
      | None \<Rightarrow> \<forall>u. run_from (nxt s) next u \<longrightarrow> nextScheduledContains ts u)"
proof (induction "nxt s" ts "next" rule: advanceNextPastDuplicates.induct)
  case (1 ts "next")
  show ?case
  proof (cases "nextScheduledContains ts next")
    case False
    then have "r = Some next" using 1 by (simp add: advanceNextPastDuplicates.simps)
    then show ?thesis using False 1 run_from_le by (auto simp: here)
  next
    case dup: True
    then obtain n where n: "nxt s next = Some n"
      using 1 by (auto simp: advanceNextPastDuplicates.simps split: option.splits)
    show ?thesis
    proof (cases "IsZero n")
      case True
      then have "r = None" using dup n 1 by (simp add: advanceNextPastDuplicates.simps)
      moreover have "run_from (nxt s) next u \<longleftrightarrow> u = next" for u
        using True n by (subst run_from_unfold) simp
      ultimately show ?thesis using dup by simp
    next
      case False
      have later: "After n next" "ok s n" using progress keeps_ok 1 n False by blast+
      then have "advanceNextPastDuplicates (nxt s) ts n = Some r"
        using dup n False 1 by (simp add: advanceNextPastDuplicates.simps [of "nxt s" ts "next"])
      note IH = "1.hyps" [OF dup n _ later(2) this]
      have runs: "run_from (nxt s) next u \<longleftrightarrow> u = next \<or> run_from (nxt s) n u" for u
        using n False by (subst run_from_unfold) simp
      show ?thesis using IH later(1) False dup unfolding runs by (cases r) auto
    qed
  qed
qed

text \<open>Both loops return when every call of \<open>next\<close> does.\<close>

lemma advancePastNow_returns:
  "(\<And>u. run_from (nxt s) next u \<Longrightarrow> nxt s u \<noteq> None) \<Longrightarrow> advancePastNow (nxt s) now next \<noteq> None"
proof (induction "nxt s" now "next" rule: advancePastNow.induct)
  case (1 now "next")
  obtain n where n: "nxt s next = Some n" using 1(2) [OF here] by blast
  then show ?case
    using 1(1) [OF _ n] 1(2) by (subst advancePastNow.simps) (auto intro: step)
qed

lemma advanceNextPastDuplicates_returns:
  "(\<And>u. run_from (nxt s) next u \<Longrightarrow> nxt s u \<noteq> None) \<Longrightarrow> advanceNextPastDuplicates (nxt s) ts next \<noteq> None"
proof (induction "nxt s" ts "next" rule: advanceNextPastDuplicates.induct)
  case (1 ts "next")
  obtain n where n: "nxt s next = Some n" using 1(2) [OF here] by blast
  then show ?case
    using 1(1) [OF _ n] 1(2) by (subst advanceNextPastDuplicates.simps) (auto intro: step)
qed

text \<open>The runs that \<open>NextRuns\<close> adds come from the schedule, ascend, and stay before the stop time.\<close>

lemma extend_runs_sound:
  "ok s from \<Longrightarrow> extend_runs (nxt s) stop k from = Some ns \<Longrightarrow>
     length ns \<le> k \<and> strict_by inst (from # ns) \<and> (\<forall>n\<in>set ns. run_from (nxt s) from n) \<and>
     (IsZero stop \<or> (\<forall>n\<in>set ns. Before n stop))"
proof (induction k arbitrary: "from" ns)
  case (Suc k)
  then obtain n where n: "nxt s from = Some n" by (auto split: option.splits)
  show ?case
  proof (cases "IsZero n \<or> \<not> IsZero stop \<and> \<not> Before n stop")
    case True
    then have "ns = []" using Suc.prems(2) n by (auto split: if_splits)
    then show ?thesis by simp
  next
    case False
    then obtain ms where ms: "extend_runs (nxt s) stop k n = Some ms" "ns = n # ms"
      using Suc.prems n by (auto split: if_splits)
    have later: "After n from" "ok s n" using progress keeps_ok Suc.prems(1) n False by blast+
    then show ?thesis using Suc.IH [OF later(2) ms(1)] False n ms(2)
      by (auto simp: After_def intro: here step)
  qed
qed simp

end

text \<open>The jobs of the repository keep the contract, for draws in their range.\<close>

definition job_ok :: "draws \<Rightarrow> internalJob \<Rightarrow> gtime \<Rightarrow> bool" where
  "job_ok rnd j t \<longleftrightarrow> draws_ok rnd \<and> (\<forall>s. j_schedule j = Some s \<longrightarrow> progress_ok s t)"

interpretation jobs: job_schedule "\<lambda>p. job_next (fst p) (snd p)" "\<lambda>p. job_ok (fst p) (snd p)"
  by unfold_locales (auto simp: job_next_def job_ok_def split: option.splits dest: sched_next_progress)

text \<open>The facts of the contract for the jobs, with the pair of draws and job taken apart.\<close>

lemmas job_run_from_ok = jobs.run_from_ok [of "(rnd, j)" for rnd j, unfolded fst_conv snd_conv]
lemmas job_run_from_le = jobs.run_from_le [of "(rnd, j)" for rnd j, unfolded fst_conv snd_conv]
lemmas job_advancePastNow = jobs.advancePastNow_first [of "(rnd, j)" for rnd j, unfolded fst_conv snd_conv]
lemmas job_advanceNextPastDuplicates = jobs.advanceNextPastDuplicates_first [of "(rnd, j)" for rnd j, unfolded fst_conv snd_conv]
lemmas job_extend_runs = jobs.extend_runs_sound [of "(rnd, j)" for rnd j, unfolded fst_conv snd_conv]
lemmas job_progress = jobs.progress [of "(rnd, j)" for rnd j, unfolded fst_conv snd_conv]

end
