(* ===== verification/Scheduler.thy ===== *)
theory Scheduler
  imports Advance
begin

text \<open>
  The scheduler of scheduler.go: the state its goroutine owns and the handler of each channel of
  its select loop. A handler runs at one reading of the clock. What it sends on other channels is
  appended to \<open>outbox\<close>; a handler that blocks or loops forever returns \<open>None\<close>.
\<close>

section \<open>State\<close>

text \<open>What the handlers send: a run for the executor, a removal that a goroutine will request later,
  the signal to \<open>NewJob\<close>, the start of the executor, and the calls of the monitor.\<close>

datatype message =
    JobsIn uuid bool
  | RemoveJobLater uuid
  | NewJobDone uuid
  | ExecutorStart
  | ExecutorStop
  | SchedulerStartedSignal
  | NotifyJobRegistered uuid
  | NotifyJobUnregistered uuid
  | NotifySchedulerStopped
  | NotifySchedulerStarted
  | NotifySchedulerShutdown

text \<open>A pending timer: the job its function dispatches and the instant at which it fires.\<close>

record pending_timer =
  timer_job :: uuid
  fires_at :: int

record scheduler =
  jobs :: "uuid \<Rightarrow> internalJob option"
  s_location :: location
  started :: bool
  monitored :: bool
  cancelled :: "ctx set"
  fresh_ctx :: nat
  timers :: "nat \<Rightarrow> pending_timer option"
  fresh_timer :: nat
  stopErrCh :: "error option option"
  outbox :: "message list"

definition shutdownCtx :: ctx where
  "shutdownCtx = Derived 0 Background"

definition is_shutdown :: "scheduler \<Rightarrow> bool" where
  "is_shutdown s \<longleftrightarrow> ctx_Done (cancelled s) shutdownCtx"

definition NewScheduler_state :: "location \<Rightarrow> bool \<Rightarrow> scheduler" where
  "NewScheduler_state l monitor =
     \<lparr>jobs = Map.empty, s_location = l, started = False, monitored = monitor, cancelled = {},
      fresh_ctx = 1, timers = Map.empty, fresh_timer = 0, stopErrCh = None, outbox = []\<rparr>"

text \<open>
  The surroundings of a handler call: the clock, the draws, the order in which Go iterates over the
  map of jobs, which case a select takes when both are ready, and what the executor reports when
  it stops (\<open>None\<close> for no report within the time limit).
\<close>

record env =
  e_clock :: gtime
  e_rnd :: draws
  e_iteration :: "uuid list"
  e_send_wins :: bool
  e_exec_done :: "error option option"

definition s_now :: "env \<Rightarrow> scheduler \<Rightarrow> gtime" where
  "s_now e s = In (e_clock e) (s_location s)"

definition send :: "message \<Rightarrow> scheduler \<Rightarrow> scheduler" where
  "send m s = s\<lparr>outbox := outbox s @ [m]\<rparr>"

definition store :: "uuid \<Rightarrow> internalJob \<Rightarrow> scheduler \<Rightarrow> scheduler" where
  "store uid j s = s\<lparr>jobs := (jobs s)(uid := Some j)\<rparr>"

section \<open>Timers and contexts\<close>

definition timer_Stop :: "nat option \<Rightarrow> scheduler \<Rightarrow> scheduler" where
  "timer_Stop t s = (case t of None \<Rightarrow> s | Some n \<Rightarrow> s\<lparr>timers := (timers s)(n := None)\<rparr>)"

definition AfterFunc :: "env \<Rightarrow> uuid \<Rightarrow> int \<Rightarrow> scheduler \<Rightarrow> nat \<times> scheduler" where
  "AfterFunc e uid d s =
     (fresh_timer s,
      s\<lparr>timers := (timers s)(fresh_timer s := Some \<lparr>timer_job = uid, fires_at = inst (e_clock e) + d\<rparr>),
        fresh_timer := Suc (fresh_timer s)\<rparr>)"

definition cancel :: "ctx \<Rightarrow> scheduler \<Rightarrow> scheduler" where
  "cancel c s = s\<lparr>cancelled := insert c (cancelled s)\<rparr>"

definition WithCancel :: "ctx \<Rightarrow> scheduler \<Rightarrow> ctx \<times> scheduler" where
  "WithCancel parent s = (Derived (fresh_ctx s) parent, s\<lparr>fresh_ctx := Suc (fresh_ctx s)\<rparr>)"

text \<open>\<open>internalJob.stop\<close>\<close>

definition job_stop :: "internalJob \<Rightarrow> scheduler \<Rightarrow> scheduler" where
  "job_stop j s = cancel (j_ctx j) (timer_Stop (j_timer j) s)"

section \<open>Removal\<close>

definition notifyJobUnregistered :: "uuid \<Rightarrow> scheduler \<Rightarrow> scheduler" where
  "notifyJobUnregistered uid s = (if monitored s then send (NotifyJobUnregistered uid) s else s)"

definition notifyJobRegistered :: "uuid \<Rightarrow> scheduler \<Rightarrow> scheduler" where
  "notifyJobRegistered uid s = (if monitored s then send (NotifyJobRegistered uid) s else s)"

definition delete_job :: "uuid \<Rightarrow> scheduler \<Rightarrow> scheduler" where
  "delete_job uid s = s\<lparr>jobs := (jobs s)(uid := None)\<rparr>"

definition selectRemoveJob :: "uuid \<Rightarrow> scheduler \<Rightarrow> scheduler" where
  "selectRemoveJob uid s =
     (case jobs s uid of
        None \<Rightarrow> s
      | Some j \<Rightarrow> delete_job uid (job_stop j (notifyJobUnregistered (j_id j) s)))"

fun removeByTags_loop :: "string list \<Rightarrow> uuid list \<Rightarrow> scheduler \<Rightarrow> scheduler" where
  "removeByTags_loop tags [] s = s"
| "removeByTags_loop tags (uid # uids) s =
     removeByTags_loop tags uids
       (case jobs s uid of
          None \<Rightarrow> s
        | Some j \<Rightarrow>
            if list_ex (\<lambda>tag. tag \<in> set (j_tags j)) tags then
              delete_job (j_id j) (job_stop j (notifyJobUnregistered (j_id j) s))
            else s)"

definition selectRemoveJobsByTags :: "env \<Rightarrow> string list \<Rightarrow> scheduler \<Rightarrow> scheduler" where
  "selectRemoveJobsByTags e tags s = removeByTags_loop tags (e_iteration e) s"

section \<open>Rescheduling\<close>

text \<open>The time from which the next run is computed; the stored times are sorted in place first.\<close>

definition sorted_job :: "internalJob \<Rightarrow> internalJob" where
  "sorted_job j =
     (if intervalFromCompletion j then j else j\<lparr>nextScheduled := SortStableTimes (nextScheduled j)\<rparr>)"

definition scheduleFrom :: "gtime \<Rightarrow> internalJob \<Rightarrow> gtime" where
  "scheduleFrom now j =
     (if intervalFromCompletion j then
        if \<not> IsZero (j_lastRun j) then j_lastRun j
        else if \<not> IsZero (startTime j) then startTime j
        else now
      else
        let from = (if nextScheduled j \<noteq> [] then last (nextScheduled j) else zero_time)
        in if IsZero from then startTime j else from)"

text \<open>
  From a first candidate to the run that is scheduled: not in the past, not a run already
  scheduled, before the stop time. The inner \<open>None\<close> is each of the three removals of the job.
\<close>

definition reschedule_time :: "draws \<Rightarrow> gtime \<Rightarrow> internalJob \<Rightarrow> gtime \<Rightarrow> gtime option option" where
  "reschedule_time rnd now j next =
     (case (if Before next now then advancePastNow (job_next rnd j) now next else Some (Some next)) of
        None \<Rightarrow> None
      | Some None \<Rightarrow> Some None
      | Some (Some next) \<Rightarrow>
          (case (if nextScheduledContains (nextScheduled j) next
                 then advanceNextPastDuplicates (job_next rnd j) (nextScheduled j) next
                 else Some (Some next)) of
             None \<Rightarrow> None
           | Some None \<Rightarrow> Some None
           | Some (Some next) \<Rightarrow>
               if \<not> IsZero (stopTime j) \<and> \<not> Before next (stopTime j) then Some None
               else Some (Some next)))"

definition arm_next :: "env \<Rightarrow> uuid \<Rightarrow> internalJob \<Rightarrow> gtime \<Rightarrow> scheduler \<Rightarrow> scheduler" where
  "arm_next e uid j next s =
     (case AfterFunc e (j_id j) (Sub next (s_now e s)) (timer_Stop (j_timer j) s) of
        (t, s) \<Rightarrow>
          store uid (j\<lparr>nextScheduled := insertNextScheduled (nextScheduled j) next, j_timer := Some t\<rparr>) s)"

definition selectExecJobsOutForRescheduling :: "env \<Rightarrow> uuid \<Rightarrow> scheduler \<Rightarrow> scheduler option" where
  "selectExecJobsOutForRescheduling e uid s =
     (if is_shutdown s then Some s
      else
        case jobs s uid of
          None \<Rightarrow> Some s
        | Some j0 \<Rightarrow>
            if stopTimeReached j0 (s_now e s) then Some (selectRemoveJob uid s)
            else
              let j = sorted_job j0;
                  s = store uid j s
              in case job_next (e_rnd e) j (scheduleFrom (s_now e s) j) of
                   None \<Rightarrow> None
                 | Some next \<Rightarrow>
                     if IsZero next then Some s
                     else
                       (case reschedule_time (e_rnd e) (s_now e s) j next of
                          None \<Rightarrow> None
                        | Some None \<Rightarrow> Some (selectRemoveJob uid s)
                        | Some (Some next) \<Rightarrow> Some (arm_next e uid j next s)))"

definition updateNextScheduled :: "env \<Rightarrow> uuid \<Rightarrow> scheduler \<Rightarrow> scheduler" where
  "updateNextScheduled e uid s =
     (case jobs s uid of
        None \<Rightarrow> s
      | Some j \<Rightarrow> store uid (pruneStaleScheduled (s_now e s) j) s)"

section \<open>Completed runs and timing\<close>

definition selectExecJobsOutCompleted :: "env \<Rightarrow> uuid \<Rightarrow> bool \<Rightarrow> scheduler \<Rightarrow> scheduler" where
  "selectExecJobsOutCompleted e uid skipped s =
     (case jobs s uid of
        None \<Rightarrow> s
      | Some j0 \<Rightarrow>
          let j = pruneStaleScheduled (s_now e s) j0 in
          if skipped then store uid j s
          else
            (case j_limitRunsTo j of
               None \<Rightarrow> store uid (j\<lparr>j_lastRun := s_now e s\<rparr>) s
             | Some l \<Rightarrow>
                 let l = l\<lparr>runCount := runCount l + 1\<rparr>;
                     j = j\<lparr>j_limitRunsTo := Some l\<rparr>
                 in if run_limit l \<le> runCount l then store uid j s
                    else store uid (j\<lparr>j_lastRun := s_now e s\<rparr>) s))"

definition selectJobTimingUpdate :: "uuid \<Rightarrow> gtime \<Rightarrow> gtime \<Rightarrow> scheduler \<Rightarrow> scheduler" where
  "selectJobTimingUpdate uid startedAt completedAt s =
     (case jobs s uid of
        None \<Rightarrow> s
      | Some j0 \<Rightarrow>
          let j1 = (if IsZero startedAt then j0 else j0\<lparr>lastRunStartedAt := startedAt\<rparr>);
              j = (if IsZero completedAt then j1 else j1\<lparr>lastRunCompletedAt := completedAt\<rparr>);
              s = store uid j s
          in case j_limitRunsTo j of
               None \<Rightarrow> s
             | Some l \<Rightarrow>
                 if \<not> IsZero completedAt \<and> run_limit l \<le> runCount l then send (RemoveJobLater uid) s else s)"

section \<open>First runs\<close>

datatype firstRunAction = firstRunSchedule | firstRunFireNow | firstRunDrop

definition firstRunOrGrace ::
  "draws \<Rightarrow> gtime \<Rightarrow> internalJob \<Rightarrow> gtime \<Rightarrow> (gtime \<times> firstRunAction) option" where
  "firstRunOrGrace rnd now j next =
     (if \<not> Before next now then Some (next, firstRunSchedule)
      else if 0 < startAtGrace j \<and> Sub now next \<le> startAtGrace j then Some (now, firstRunFireNow)
      else
        (case advancePastNow (job_next rnd j) now next of
           None \<Rightarrow> None
         | Some (Some advanced) \<Rightarrow> Some (advanced, firstRunSchedule)
         | Some None \<Rightarrow> Some (zero_time, firstRunDrop)))"

definition dispatchJobRun :: "env \<Rightarrow> uuid \<Rightarrow> scheduler \<Rightarrow> scheduler" where
  "dispatchJobRun e uid s =
     (if is_shutdown s \<and> \<not> e_send_wins e then s else send (JobsIn uid True) s)"

text \<open>The result is the job, whether it is to be dropped, and the state.\<close>

definition started_at :: "gtime \<Rightarrow> internalJob \<Rightarrow> internalJob" where
  "started_at next j = j\<lparr>startTime := next, nextScheduled := insertNextScheduled (nextScheduled j) next\<rparr>"

definition past_stop :: "internalJob \<Rightarrow> gtime \<Rightarrow> bool" where
  "past_stop j next \<longleftrightarrow> \<not> IsZero (stopTime j) \<and> \<not> Before next (stopTime j)"

definition arm_first :: "env \<Rightarrow> internalJob \<Rightarrow> gtime \<Rightarrow> scheduler \<Rightarrow> internalJob \<times> bool \<times> scheduler" where
  "arm_first e j next s =
     (if past_stop j next then (j, True, s)
      else
        case AfterFunc e (j_id j) (Sub next (s_now e s)) s of
          (t, s) \<Rightarrow> (started_at next (j\<lparr>j_timer := Some t\<rparr>), False, s))"

definition prepareFirstRun :: "env \<Rightarrow> internalJob \<Rightarrow> scheduler \<Rightarrow> (internalJob \<times> bool \<times> scheduler) option" where
  "prepareFirstRun e j s =
     (if startImmediately j then
        Some (started_at (s_now e s) j, False, dispatchJobRun e (j_id j) s)
      else
        case (if IsZero (startTime j) then job_next (e_rnd e) j (s_now e s) else Some (startTime j)) of
          None \<Rightarrow> None
        | Some next \<Rightarrow>
            if IsZero next then Some (j, True, s)
            else if Before next (s_now e s) then
              (case firstRunOrGrace (e_rnd e) (s_now e s) j next of
                 None \<Rightarrow> None
               | Some (next, firstRunDrop) \<Rightarrow> Some (j, True, s)
               | Some (next, firstRunFireNow) \<Rightarrow>
                   if past_stop j next then Some (j, True, s)
                   else Some (started_at next j, False, dispatchJobRun e (j_id j) s)
               | Some (next, firstRunSchedule) \<Rightarrow> Some (arm_first e j next s))
            else Some (arm_first e j next s))"

section \<open>New jobs, start and stop\<close>

definition selectNewJob :: "env \<Rightarrow> internalJob \<Rightarrow> scheduler \<Rightarrow> scheduler option" where
  "selectNewJob e j s =
     (if started s then
        (case prepareFirstRun e j s of
           None \<Rightarrow> None
         | Some (j, dropped, s) \<Rightarrow>
             if dropped then Some (selectRemoveJob (j_id j) (send (NewJobDone (j_id j)) (store (j_id j) j s)))
             else Some (send (NewJobDone (j_id j)) (store (j_id j) j s)))
      else Some (send (NewJobDone (j_id j)) (store (j_id j) j s)))"

fun start_loop :: "env \<Rightarrow> uuid list \<Rightarrow> scheduler \<Rightarrow> scheduler option" where
  "start_loop e [] s = Some s"
| "start_loop e (uid # uids) s =
     (case jobs s uid of
        None \<Rightarrow> start_loop e uids s
      | Some j \<Rightarrow>
          (case prepareFirstRun e (j\<lparr>nextScheduled := []\<rparr>) s of
             None \<Rightarrow> None
           | Some (j, dropped, s) \<Rightarrow>
               start_loop e uids (if dropped then selectRemoveJob uid s else store uid j s)))"

definition selectStart :: "env \<Rightarrow> scheduler \<Rightarrow> scheduler option" where
  "selectStart e s =
     map_option (\<lambda>s. if is_shutdown s \<and> \<not> e_send_wins e then s else send SchedulerStartedSignal s)
       (start_loop e (e_iteration e) ((send ExecutorStart s)\<lparr>started := True\<rparr>))"

text \<open>
  Stopping: every job's timer is stopped and its context cancelled, and each job then gets a fresh
  context, which also replaces the old one among its parameters.
\<close>

fun stop_loop :: "uuid list \<Rightarrow> scheduler \<Rightarrow> scheduler" where
  "stop_loop [] s = s"
| "stop_loop (uid # uids) s =
     stop_loop uids (case jobs s uid of None \<Rightarrow> s | Some j \<Rightarrow> job_stop j s)"

definition refresh_context :: "uuid \<Rightarrow> internalJob \<Rightarrow> scheduler \<Rightarrow> scheduler" where
  "refresh_context uid j s =
     (let oldCtx = j_ctx j;
          parent = (case j_parentCtx j of None \<Rightarrow> shutdownCtx | Some p \<Rightarrow> p)
      in case WithCancel parent s of
           (c, s) \<Rightarrow>
             store uid (j\<lparr>j_parentCtx := Some parent, j_ctx := c,
               j_parameters := (case j_parameters j of
                                  p # ps \<Rightarrow> if p = CtxValue oldCtx then CtxValue c # ps else p # ps
                                | [] \<Rightarrow> [])\<rparr>) s)"

fun refresh_loop :: "uuid list \<Rightarrow> scheduler \<Rightarrow> scheduler" where
  "refresh_loop [] s = s"
| "refresh_loop (uid # uids) s =
     refresh_loop uids (case jobs s uid of None \<Rightarrow> s | Some j \<Rightarrow> refresh_context uid j s)"

definition notifySchedulerStopped :: "scheduler \<Rightarrow> scheduler" where
  "notifySchedulerStopped s = (if monitored s then send NotifySchedulerStopped s else s)"

definition notifySchedulerStarted :: "scheduler \<Rightarrow> scheduler" where
  "notifySchedulerStarted s = (if monitored s then send NotifySchedulerStarted s else s)"

definition notifySchedulerShutdown :: "scheduler \<Rightarrow> scheduler" where
  "notifySchedulerShutdown s = (if monitored s then send NotifySchedulerShutdown s else s)"

text \<open>The error channel holds one value: a second stop whose predecessor's value was not read blocks.\<close>

definition stopScheduler :: "env \<Rightarrow> scheduler \<Rightarrow> scheduler option" where
  "stopScheduler e s =
     (let s = (if started s then send ExecutorStop s else s);
          s = stop_loop (e_iteration e) s;
          err = (if started s then
                   (case e_exec_done e of Some r \<Rightarrow> r | None \<Rightarrow> Some ErrStopExecutorTimedOut)
                 else None);
          s = refresh_loop (e_iteration e) s
      in case stopErrCh s of
           Some _ \<Rightarrow> None
         | None \<Rightarrow> Some (notifySchedulerStopped (s\<lparr>stopErrCh := Some err, started := False\<rparr>)))"

section \<open>Requests\<close>

text \<open>
  The reply to \<open>RunNow\<close>. The send on \<open>jobsIn\<close> waits for the executor, which receives only once the
  scheduler has started.
\<close>

definition selectRunJobRequest :: "env \<Rightarrow> uuid \<Rightarrow> scheduler \<Rightarrow> (scheduler \<times> error option option) option" where
  "selectRunJobRequest e uid s =
     (case jobs s uid of
        None \<Rightarrow> Some (s, if is_shutdown s \<and> \<not> e_send_wins e then None else Some (Some ErrJobNotFound))
      | Some j \<Rightarrow>
          if is_shutdown s then
            Some (s, if e_send_wins e then Some (Some ErrJobRunNowFailed) else None)
          else if started s then Some (send (JobsIn (j_id j) False) s, Some None)
          else None)"

definition selectJobOutRequest :: "env \<Rightarrow> uuid \<Rightarrow> scheduler \<Rightarrow> internalJob option" where
  "selectJobOutRequest e uid s =
     (case jobs s uid of
        None \<Rightarrow> None
      | Some j \<Rightarrow> if is_shutdown s \<and> \<not> e_send_wins e then None else Some j)"

end
