(* ===== verification/SchedulerInv.thy ===== *)
theory SchedulerInv
  imports Scheduler
begin

text \<open>
  The select loop as a step relation, and what holds in every state it reaches: jobs are stored
  under their identifiers, their run times ascend, and every pending timer belongs to a stored
  job, is its only one, and fires before the job's stop time.
\<close>

section \<open>Frame lemmas\<close>

lemma jobs_simps [simp]:
  "jobs (send m s) = jobs s" "jobs (timer_Stop t s) = jobs s" "jobs (cancel c s) = jobs s"
  "jobs (job_stop j s) = jobs s" "jobs (notifyJobUnregistered uid s) = jobs s"
  "jobs (store uid j s) = (jobs s)(uid := Some j)" "jobs (delete_job uid s) = (jobs s)(uid := None)"
  "jobs (dispatchJobRun e uid s) = jobs s" "jobs (notifySchedulerStopped s) = jobs s"
  by (simp_all add: send_def timer_Stop_def cancel_def job_stop_def notifyJobUnregistered_def store_def
      delete_job_def dispatchJobRun_def notifySchedulerStopped_def split: option.split)

lemma timers_simps [simp]:
  "timers (send m s) = timers s" "timers (cancel c s) = timers s"
  "timers (notifyJobUnregistered uid s) = timers s" "timers (store uid j s) = timers s"
  "timers (delete_job uid s) = timers s" "timers (dispatchJobRun e uid s) = timers s"
  "timers (notifySchedulerStopped s) = timers s" "timers (job_stop j s) = timers (timer_Stop (j_timer j) s)"
  by (simp_all add: send_def cancel_def job_stop_def notifyJobUnregistered_def store_def delete_job_def
      dispatchJobRun_def notifySchedulerStopped_def)

lemma timers_timer_Stop: "timers (timer_Stop t s) n = (if t = Some n then None else timers s n)"
  by (simp add: timer_Stop_def split: option.split)

lemma fresh_timer_simps [simp]:
  "fresh_timer (send m s) = fresh_timer s" "fresh_timer (timer_Stop t s) = fresh_timer s"
  "fresh_timer (cancel c s) = fresh_timer s" "fresh_timer (job_stop j s) = fresh_timer s"
  "fresh_timer (notifyJobUnregistered uid s) = fresh_timer s" "fresh_timer (store uid j s) = fresh_timer s"
  "fresh_timer (delete_job uid s) = fresh_timer s" "fresh_timer (dispatchJobRun e uid s) = fresh_timer s"
  "fresh_timer (notifySchedulerStopped s) = fresh_timer s"
  by (simp_all add: send_def timer_Stop_def cancel_def job_stop_def notifyJobUnregistered_def store_def
      delete_job_def dispatchJobRun_def notifySchedulerStopped_def split: option.split)

lemma started_simps [simp]:
  "started (send m s) = started s" "started (timer_Stop t s) = started s"
  "started (cancel c s) = started s" "started (job_stop j s) = started s"
  "started (notifyJobUnregistered uid s) = started s" "started (store uid j s) = started s"
  "started (delete_job uid s) = started s" "started (dispatchJobRun e uid s) = started s"
  "started (notifySchedulerStopped s) = started s"
  by (simp_all add: send_def timer_Stop_def cancel_def job_stop_def notifyJobUnregistered_def store_def
      delete_job_def dispatchJobRun_def notifySchedulerStopped_def split: option.split)

lemma AfterFunc_simps:
  "AfterFunc e uid d s = (t, s') \<longleftrightarrow> t = fresh_timer s \<and>
     s' = s\<lparr>timers := (timers s)(fresh_timer s \<mapsto> \<lparr>timer_job = uid, fires_at = inst (e_clock e) + d\<rparr>),
       fresh_timer := Suc (fresh_timer s)\<rparr>"
  by (auto simp: AfterFunc_def)

section \<open>The invariant\<close>

definition before_stop :: "internalJob \<Rightarrow> int \<Rightarrow> bool" where
  "before_stop j i \<longleftrightarrow> IsZero (stopTime j) \<or> i < inst (stopTime j)"

definition job_inv :: "uuid \<Rightarrow> internalJob \<Rightarrow> bool" where
  "job_inv uid j \<longleftrightarrow> j_id j = uid \<and> strict_by inst (nextScheduled j)"

definition timer_inv :: "scheduler \<Rightarrow> nat \<Rightarrow> pending_timer \<Rightarrow> bool" where
  "timer_inv s n t \<longleftrightarrow> n < fresh_timer s \<and>
     (\<exists>j. jobs s (timer_job t) = Some j \<and> j_timer j = Some n \<and> before_stop j (fires_at t))"

text \<open>A timer number is held by one job at most.\<close>

definition owns :: "scheduler \<Rightarrow> uuid \<Rightarrow> nat \<Rightarrow> bool" where
  "owns s uid n \<longleftrightarrow> n < fresh_timer s \<and>
     (\<forall>uid' j'. jobs s uid' = Some j' \<longrightarrow> j_timer j' = Some n \<longrightarrow> uid' = uid)"

definition core_inv :: "scheduler \<Rightarrow> bool" where
  "core_inv s \<longleftrightarrow> (\<forall>uid j. jobs s uid = Some j \<longrightarrow> job_inv uid j) \<and>
     (\<forall>uid j n. jobs s uid = Some j \<longrightarrow> j_timer j = Some n \<longrightarrow> owns s uid n) \<and>
     (\<forall>n t. timers s n = Some t \<longrightarrow> timer_inv s n t)"

definition scheduler_inv :: "scheduler \<Rightarrow> bool" where
  "scheduler_inv s \<longleftrightarrow> core_inv s \<and> (started s \<or> timers s = Map.empty)"

lemma core_invD:
  "core_inv s \<Longrightarrow> jobs s uid = Some j \<Longrightarrow> j_id j = uid"
  "core_inv s \<Longrightarrow> jobs s uid = Some j \<Longrightarrow> strict_by inst (nextScheduled j)"
  "core_inv s \<Longrightarrow> timers s n = Some t \<Longrightarrow> timer_inv s n t"
  "core_inv s \<Longrightarrow> jobs s uid = Some j \<Longrightarrow> j_timer j = Some n \<Longrightarrow> owns s uid n"
  by (auto simp: core_inv_def job_inv_def)

lemma core_invI:
  assumes "\<And>uid j. jobs s uid = Some j \<Longrightarrow> job_inv uid j"
    and "\<And>uid j n. jobs s uid = Some j \<Longrightarrow> j_timer j = Some n \<Longrightarrow> owns s uid n"
    and "\<And>n t. timers s n = Some t \<Longrightarrow> timer_inv s n t"
  shows "core_inv s"
  using assms unfolding core_inv_def by blast

lemma ownsD: "owns s uid n \<Longrightarrow> jobs s uid' = Some j' \<Longrightarrow> j_timer j' = Some n \<Longrightarrow> uid' = uid"
  by (simp add: owns_def)

lemma core_inv_job: "core_inv s \<Longrightarrow> jobs s uid = Some j \<Longrightarrow> job_inv uid j"
  by (simp add: core_inv_def)

text \<open>The invariant looks at the jobs and the timers alone.\<close>

lemma core_inv_cong:
  "jobs s' = jobs s \<Longrightarrow> timers s' = timers s \<Longrightarrow> fresh_timer s' = fresh_timer s \<Longrightarrow> core_inv s' = core_inv s"
  by (simp add: core_inv_def timer_inv_def owns_def)

lemma core_inv_simps [simp]:
  "core_inv (send m s) = core_inv s" "core_inv (cancel c s) = core_inv s"
  "core_inv (notifyJobUnregistered uid s) = core_inv s" "core_inv (dispatchJobRun e uid s) = core_inv s"
  "core_inv (notifySchedulerStopped s) = core_inv s"
  by (rule core_inv_cong; simp)+

text \<open>Storing a job keeps it when the job keeps its identifier, its times ascend, and the pending
  timers of that identifier are its own.\<close>

lemma core_inv_store:
  assumes "core_inv s" "j_id j = uid" "strict_by inst (nextScheduled j)"
    and "\<And>n. j_timer j = Some n \<Longrightarrow> owns s uid n"
    and "\<And>n t. timers s n = Some t \<Longrightarrow> timer_job t = uid \<Longrightarrow> j_timer j = Some n \<and> before_stop j (fires_at t)"
  shows "core_inv (store uid j s)"
proof (rule core_invI)
  fix uid' j' assume "jobs (store uid j s) uid' = Some j'"
  then show "job_inv uid' j'"
    using assms(2,3) core_inv_job [OF assms(1)] by (auto simp: job_inv_def split: if_splits)
next
  fix uid' j' n assume j': "jobs (store uid j s) uid' = Some j'" "j_timer j' = Some n"
  show "owns (store uid j s) uid' n"
  proof (cases "uid' = uid")
    case True
    then show ?thesis using assms(4) [of n] j' by (auto simp: owns_def)
  next
    case False
    then have old: "owns s uid' n" using core_invD(4) [OF assms(1)] j' by simp
    then have "j_timer j \<noteq> Some n" using ownsD [OF assms(4)] False j' by force
    then show ?thesis using old by (auto simp: owns_def)
  qed
next
  fix n t assume "timers (store uid j s) n = Some t"
  then show "timer_inv (store uid j s) n t"
    using core_invD(3) [OF assms(1), of n t] assms(5) [of n t] by (auto simp: timer_inv_def)
qed

text \<open>The usual case: an update of a stored job that leaves its timer and its stop time alone.\<close>

lemma core_inv_update:
  assumes "core_inv s" "jobs s uid = Some j" "j_id j' = j_id j" "strict_by inst (nextScheduled j')"
    and "j_timer j' = j_timer j" "stopTime j' = stopTime j"
  shows "core_inv (store uid j' s)"
proof (rule core_inv_store)
  show "j_id j' = uid" using assms core_invD(1) by simp
  fix n t assume "timers s n = Some t" "timer_job t = uid"
  then show "j_timer j' = Some n \<and> before_stop j' (fires_at t)"
    using core_invD(3) [OF assms(1)] assms by (fastforce simp: timer_inv_def before_stop_def)
qed (use assms core_invD(4) [OF assms(1,2)] in auto)

text \<open>Stopping a job's timer and then dropping or replacing the job leaves no timer behind.\<close>

lemma no_timer_after_stop:
  assumes "core_inv s" "jobs s uid = Some j" "timers (timer_Stop (j_timer j) s) n = Some t"
  shows "timer_job t \<noteq> uid"
proof
  assume "timer_job t = uid"
  moreover have "timers s n = Some t" "j_timer j \<noteq> Some n"
    using assms(3) by (auto simp: timers_timer_Stop split: if_splits)
  ultimately show False using core_invD(3) [OF assms(1)] assms(2) by (fastforce simp: timer_inv_def)
qed

lemma core_inv_timer_Stop:
  assumes "core_inv s"
  shows "core_inv (timer_Stop t s)"
  using assms by (auto simp: core_inv_def timer_inv_def owns_def timers_timer_Stop split: if_splits)

lemma core_inv_job_stop: "core_inv s \<Longrightarrow> core_inv (job_stop j s)"
  by (simp add: job_stop_def core_inv_timer_Stop)

lemma core_inv_remove:
  assumes "core_inv s" "jobs s uid = Some j"
  shows "core_inv (delete_job uid (job_stop j s))"
proof -
  have "core_inv (timer_Stop (j_timer j) s)" using assms(1) by (rule core_inv_timer_Stop)
  then show ?thesis
    using no_timer_after_stop [OF assms] unfolding core_inv_def timer_inv_def owns_def
    by (auto simp: delete_job_def job_stop_def cancel_def)
qed

lemma core_inv_selectRemoveJob: "core_inv s \<Longrightarrow> core_inv (selectRemoveJob uid s)"
  by (auto simp: selectRemoveJob_def split: option.split intro!: core_inv_remove)

text \<open>A fresh timer for a job that has none pending.\<close>

lemma core_inv_arm:
  assumes "core_inv s" "AfterFunc e uid d s = (n, s')"
    and "\<And>m t. timers s m = Some t \<Longrightarrow> timer_job t \<noteq> uid"
    and "j_id j = uid" "strict_by inst (nextScheduled j)" "j_timer j = Some n"
    and "before_stop j (inst (e_clock e) + d)"
  shows "core_inv (store uid j s')"
proof (rule core_invI)
  note arm = assms(2) [unfolded AfterFunc_simps]
  fix uid' j' assume "jobs (store uid j s') uid' = Some j'"
  then show "job_inv uid' j'"
    using assms(4,5) core_inv_job [OF assms(1)] arm by (auto simp: job_inv_def split: if_splits)
next
  note arm = assms(2) [unfolded AfterFunc_simps]
  fix uid' j' m assume j': "jobs (store uid j s') uid' = Some j'" "j_timer j' = Some m"
  have old: "owns s uid' m" if "uid' \<noteq> uid" using core_invD(4) [OF assms(1), of uid' j' m] j' that arm by simp
  have none: "j_timer k \<noteq> Some n" if "jobs s v = Some k" for v k
    using core_invD(4) [OF assms(1) that, of n] arm by (auto simp: owns_def)
  show "owns (store uid j s') uid' m"
  proof (cases "uid' = uid")
    case True
    then have "m = n" using j' assms(6) by simp
    then show ?thesis using none True arm by (auto simp: owns_def)
  next
    case False
    then have "m \<noteq> n" using none [of uid' j'] j' arm by auto
    then show ?thesis using old [OF False] assms(6) False arm by (auto simp: owns_def)
  qed
next
  note arm = assms(2) [unfolded AfterFunc_simps]
  fix m t assume m: "timers (store uid j s') m = Some t"
  show "timer_inv (store uid j s') m t"
  proof (cases "m = n")
    case True
    then show ?thesis using m arm assms(6,7) by (auto simp: timer_inv_def)
  next
    case False
    then have old: "timers s m = Some t" using m arm by simp
    show ?thesis using core_invD(3) [OF assms(1) old] assms(3) [OF old] arm by (auto simp: timer_inv_def)
  qed
qed

section \<open>Each handler keeps the invariant\<close>

lemma sorted_job_simps [simp]:
  "j_id (sorted_job j) = j_id j" "j_timer (sorted_job j) = j_timer j" "stopTime (sorted_job j) = stopTime j"
  "j_schedule (sorted_job j) = j_schedule j"
  by (simp_all add: sorted_job_def)

lemma SortStableTimes_strict: "strict_by inst ts \<Longrightarrow> SortStableTimes ts = ts"
  using strict_by_imp_sorted_by [of inst ts]
  by (simp add: SortStableTimes_def sort_key_id_if_sorted sorted_map sorted_by_def)

lemma sorted_job_id: "strict_by inst (nextScheduled j) \<Longrightarrow> sorted_job j = j"
  by (simp add: sorted_job_def SortStableTimes_strict)

lemma strict_pruned: "strict_by inst (nextScheduled j) \<Longrightarrow> strict_by inst (nextScheduled (pruneStaleScheduled now j))"
  by (simp add: pruneStaleScheduled_def keptScheduled_filter strict_by_filter)

lemma pruneStaleScheduled_simps [simp]:
  "j_id (pruneStaleScheduled now j) = j_id j" "j_timer (pruneStaleScheduled now j) = j_timer j"
  "stopTime (pruneStaleScheduled now j) = stopTime j" "j_limitRunsTo (pruneStaleScheduled now j) = j_limitRunsTo j"
  by (simp_all add: pruneStaleScheduled_def)

lemma stored_pruned:
  "core_inv s \<Longrightarrow> jobs s uid = Some j \<Longrightarrow> strict_by inst (nextScheduled (pruneStaleScheduled now j))"
  using core_invD(2) by (intro strict_pruned) auto

text \<open>What \<open>reschedule_time\<close> lets through is new to the job and before its stop time.\<close>

lemma reschedule_time_new:
  assumes "reschedule_time rnd now j next = Some (Some n)"
  shows "\<not> nextScheduledContains (nextScheduled j) n" "before_stop j (inst n)"
proof -
  have dup: "\<not> nextScheduledContains ts t"
    if "advanceNextPastDuplicates nxt ts u = Some (Some t)" for nxt ts u t
    using that
  proof (induction nxt ts u rule: advanceNextPastDuplicates.induct)
    case (1 nxt ts u)
    then show ?case by (subst (asm) (2) advanceNextPastDuplicates.simps) (auto split: if_splits option.splits)
  qed
  show "\<not> nextScheduledContains (nextScheduled j) n" "before_stop j (inst n)"
    using assms dup
    by (auto simp: reschedule_time_def before_stop_def Before_def split: option.splits if_splits)
qed

lemma core_inv_arm_next:
  assumes "core_inv s" "jobs s uid = Some j" "\<not> nextScheduledContains (nextScheduled j) n" "before_stop j (inst n)"
  shows "core_inv (arm_next e uid j n s)"
proof -
  obtain m s' where arm: "AfterFunc e (j_id j) (Sub n (s_now e s)) (timer_Stop (j_timer j) s) = (m, s')" by force
  have "strict_by inst (insertNextScheduled (nextScheduled j) n)"
    using assms core_invD(2) by (intro strict_insertNextScheduled) (auto simp: nextScheduledContains_iff)
  then show ?thesis
    unfolding arm_next_def arm prod.case
    using assms core_invD(1) no_timer_after_stop
    by (intro core_inv_arm [OF core_inv_timer_Stop [OF assms(1)] arm [unfolded core_invD(1) [OF assms(1,2)]]])
      (auto simp: before_stop_def Sub_def s_now_def)
qed

lemma core_inv_resched:
  assumes "core_inv s" "selectExecJobsOutForRescheduling e uid s = Some s'"
  shows "core_inv s'"
proof (cases "is_shutdown s \<or> jobs s uid = None")
  case True
  then show ?thesis using assms by (auto simp: selectExecJobsOutForRescheduling_def split: if_splits)
next
  case False
  then obtain j where j: "jobs s uid = Some j" "\<not> is_shutdown s" by auto
  have same: "sorted_job j = j" using core_invD(2) [OF assms(1) j(1)] by (rule sorted_job_id)
  have "store uid j s = s" using j(1) by (simp add: store_def fun_upd_idem)
  then show ?thesis
    using assms j core_inv_selectRemoveJob [OF assms(1)] core_inv_arm_next [OF assms(1) j(1)] reschedule_time_new
    by (auto simp: selectExecJobsOutForRescheduling_def Let_def same split: if_splits option.splits)
qed

lemma core_inv_updateNextScheduled: "core_inv s \<Longrightarrow> core_inv (updateNextScheduled e uid s)"
  unfolding updateNextScheduled_def
  by (auto split: option.split intro!: core_inv_update simp: stored_pruned)

lemma core_inv_completed: "core_inv s \<Longrightarrow> core_inv (selectExecJobsOutCompleted e uid skipped s)"
  unfolding selectExecJobsOutCompleted_def Let_def
  by (auto split: option.split intro!: core_inv_update simp: stored_pruned)

lemma core_inv_timing: "core_inv s \<Longrightarrow> core_inv (selectJobTimingUpdate uid a b s)"
  unfolding selectJobTimingUpdate_def Let_def
  by (auto split: option.split intro!: core_inv_update intro: core_invD(2))

lemma core_inv_removeByTags: "core_inv s \<Longrightarrow> core_inv (removeByTags_loop tags uids s)"
proof (induction tags uids s rule: removeByTags_loop.induct)
  case (2 tags uid uids s)
  have "core_inv (delete_job (j_id j) (job_stop j (notifyJobUnregistered (j_id j) s)))" if "jobs s uid = Some j" for j
    using that 2(2) core_invD(1) by (intro core_inv_remove) auto
  then show ?case using 2 by (auto split: option.split)
qed simp

section \<open>First runs\<close>

lemma advancePastNow_not_before: "advancePastNow nxt now t = Some (Some u) \<Longrightarrow> \<not> Before u now"
proof (induction nxt now t rule: advancePastNow.induct)
  case (1 nxt now t)
  then show ?case by (subst (asm) (2) advancePastNow.simps) (auto split: if_splits option.splits)
qed

lemma firstRunOrGrace_schedule:
  "firstRunOrGrace rnd now j next = Some (t, firstRunSchedule) \<Longrightarrow> \<not> Before t now"
  by (auto simp: firstRunOrGrace_def advancePastNow_not_before split: if_splits option.splits)

lemma firstRunOrGrace_now:
  "firstRunOrGrace rnd now j next = Some (t, firstRunFireNow) \<Longrightarrow> t = now"
  by (auto simp: firstRunOrGrace_def split: if_splits option.splits)

text \<open>The three outcomes: the job is dropped unchanged, its run is dispatched at once, or its timer
  is armed for a time that is neither past nor at the stop time.\<close>

lemma prepareFirstRun_cases:
  assumes "prepareFirstRun e j s = Some (j', dropped, s')"
  obtains (dropped) "dropped" "j' = j" "s' = s"
  | (dispatched) "\<not> dropped" "j' = started_at (s_now e s) j" "s' = dispatchJobRun e (j_id j) s"
      "startImmediately j \<or> 0 < startAtGrace j"
  | (armed) "next" n where "\<not> dropped" "j' = started_at next (j\<lparr>j_timer := Some n\<rparr>)"
      "AfterFunc e (j_id j) (Sub next (s_now e s)) s = (n, s')" "\<not> past_stop j next" "\<not> Before next (s_now e s)"
proof -
  have arm: thesis if "arm_first e j next s = (j', dropped, s')" "\<not> Before next (s_now e s)" for "next"
    using that dropped armed by (auto simp: arm_first_def split: if_splits prod.splits)
  have grace: thesis
    if "Before next (s_now e s)" "firstRunOrGrace (e_rnd e) (s_now e s) j next = Some (t, act)"
      "(case act of firstRunDrop \<Rightarrow> Some (j, True, s)
        | firstRunFireNow \<Rightarrow> if past_stop j t then Some (j, True, s)
            else Some (started_at t j, False, dispatchJobRun e (j_id j) s)
        | firstRunSchedule \<Rightarrow> Some (arm_first e j t s)) = Some (j', dropped, s')" for "next" t act
  proof (cases act)
    case firstRunSchedule
    then show thesis using that(2,3) firstRunOrGrace_schedule by (intro arm [of t]) simp_all
  next
    case firstRunFireNow
    then have g: "t = s_now e s" "0 < startAtGrace j"
      using that(2) by (auto simp: firstRunOrGrace_def split: if_splits option.splits)
    show thesis
    proof (cases "past_stop j t")
      case True
      then show thesis using that(3) firstRunFireNow by (intro dropped) simp_all
    next
      case False
      then show thesis using that(3) firstRunFireNow g by (intro dispatched) auto
    qed
  next
    case firstRunDrop
    then show thesis using that(3) by (intro dropped) simp_all
  qed
  show thesis
  proof (cases "startImmediately j")
    case True
    then show thesis using assms dispatched by (auto simp: prepareFirstRun_def)
  next
    case False
    then obtain "next" where start: "(if IsZero (startTime j) then job_next (e_rnd e) j (s_now e s) else Some (startTime j)) = Some next"
      using assms by (cases "if IsZero (startTime j) then job_next (e_rnd e) j (s_now e s) else Some (startTime j)")
        (simp_all add: prepareFirstRun_def)
    note eq = assms [unfolded prepareFirstRun_def start]
    consider (zero) "IsZero next" | (later) "\<not> IsZero next" "\<not> Before next (s_now e s)"
      | (early) "\<not> IsZero next" "Before next (s_now e s)" by blast
    then show thesis
    proof cases
      case zero
      then show thesis using eq False dropped by simp
    next
      case later
      then show thesis using eq False arm [of "next"] by simp
    next
      case early
      then obtain t act where g: "firstRunOrGrace (e_rnd e) (s_now e s) j next = Some (t, act)"
        using eq False by (cases "firstRunOrGrace (e_rnd e) (s_now e s) j next") auto
      show thesis using eq False early g by (intro grace [OF early(2) g]) (cases act; simp)
    qed
  qed
qed

lemma started_at_simps [simp]:
  "j_id (started_at t j) = j_id j" "j_timer (started_at t j) = j_timer j" "stopTime (started_at t j) = stopTime j"
  "startTime (started_at t j) = t"
  by (simp_all add: started_at_def)

lemma insertNextScheduled_Nil: "insertNextScheduled [] t = [t]"
  using mset_insertNextScheduled [of "[]" t] by simp

lemma nextScheduled_started_at [simp]: "nextScheduled j = [] \<Longrightarrow> nextScheduled (started_at t j) = [t]"
  by (simp add: started_at_def insertNextScheduled_Nil)

text \<open>The frame of \<open>prepareFirstRun\<close>: it changes nothing but the timers and the outbox.\<close>

lemma prepareFirstRun_frame:
  assumes "prepareFirstRun e j s = Some (j', dropped, s')"
  shows "jobs s' = jobs s" "j_id j' = j_id j" "started s' = started s"
    and "\<And>m t. timers s' m = Some t \<Longrightarrow> timer_job t \<noteq> j_id j \<Longrightarrow> timers s m = Some t"
  using assms
  by (cases rule: prepareFirstRun_cases; auto simp: AfterFunc_simps split: if_splits)+

text \<open>A job without run times and without a pending timer is stored with its first run prepared.\<close>

lemma core_inv_prepare:
  assumes "core_inv s" "nextScheduled j = []" "prepareFirstRun e j s = Some (j', dropped, s')"
    and "\<And>n. j_timer j = Some n \<Longrightarrow> owns s (j_id j) n"
    and "\<And>m t. timers s m = Some t \<Longrightarrow> timer_job t \<noteq> j_id j"
  shows "core_inv (store (j_id j) j' s')"
  using assms(3)
proof (cases rule: prepareFirstRun_cases)
  case dropped
  then show ?thesis using assms by (auto intro!: core_inv_store)
next
  case dispatched
  then show ?thesis using assms by (auto intro!: core_inv_store simp: owns_def)
next
  case (armed "next" n)
  have "before_stop j' (inst (e_clock e) + Sub next (s_now e s))"
    using armed(2,4) by (auto simp: past_stop_def before_stop_def Before_def Sub_def s_now_def)
  then show ?thesis
    using armed assms by (intro core_inv_arm [OF assms(1) armed(3) assms(5)]) auto
qed

lemma core_inv_store_unchanged: "core_inv s \<Longrightarrow> core_inv s' \<Longrightarrow> core_inv (if b then s else s')"
  by simp

lemma core_inv_new_job:
  assumes "core_inv s" "jobs s (j_id j) = None" "nextScheduled j = []" "j_timer j = None" "selectNewJob e j s = Some s'"
  shows "core_inv s'"
proof -
  have fresh: "timer_job t \<noteq> j_id j" if "timers s m = Some t" for m t
    using core_invD(3) [OF assms(1) that] assms(2) by (auto simp: timer_inv_def)
  show ?thesis
  proof (cases "started s")
    case False
    then show ?thesis using assms fresh by (auto simp: selectNewJob_def intro!: core_inv_store)
  next
    case True
    then obtain j' dropped s1 where prep: "prepareFirstRun e j s = Some (j', dropped, s1)"
      using assms(5) by (auto simp: selectNewJob_def split: option.splits)
    have "core_inv (store (j_id j') j' s1)"
      using core_inv_prepare [OF assms(1,3) prep _ fresh] assms(4) prepareFirstRun_frame(2) [OF prep] by simp
    then show ?thesis
      using assms(5) True prep by (auto simp: selectNewJob_def core_inv_selectRemoveJob split: if_splits)
  qed
qed

section \<open>Starting and stopping\<close>

text \<open>One round of the start loop: the job is prepared and stored, or removed.\<close>

lemma core_inv_start_round:
  assumes "core_inv s" "jobs s uid = Some j" "prepareFirstRun e (j\<lparr>nextScheduled := []\<rparr>) s = Some (j', dropped, s1)"
    and none: "\<And>m t. timers s m = Some t \<Longrightarrow> timer_job t \<noteq> uid"
  shows "core_inv (if dropped then selectRemoveJob uid s1 else store uid j' s1)"
proof -
  have uid: "j_id j = uid" using core_invD(1) [OF assms(1,2)] .
  have "core_inv (store uid j' s1)"
    using core_inv_prepare [OF assms(1) _ assms(3)] uid none core_invD(4) [OF assms(1,2)] by simp
  moreover have "dropped \<Longrightarrow> s1 = s" using assms(3) by (cases rule: prepareFirstRun_cases) simp_all
  ultimately show ?thesis using core_inv_selectRemoveJob assms(1) by auto
qed

lemma start_round_timers:
  assumes "core_inv s" "jobs s uid = Some j" "prepareFirstRun e (j\<lparr>nextScheduled := []\<rparr>) s = Some (j', dropped, s1)"
    and "timers (if dropped then selectRemoveJob uid s1 else store uid j' s1) m = Some t"
  shows "timer_job t = uid \<or> timers s m = Some t"
proof -
  have "timers s1 m = Some t"
    using assms(4) by (auto simp: selectRemoveJob_def timers_timer_Stop split: if_splits option.splits)
  then show ?thesis using prepareFirstRun_frame(4) [OF assms(3), of m t] core_invD(1) [OF assms(1,2)] by auto
qed

lemma start_loop_round:
  assumes "start_loop e (uid # uids) s = Some s'" "jobs s uid = Some j"
  obtains j' dropped s1 where "prepareFirstRun e (j\<lparr>nextScheduled := []\<rparr>) s = Some (j', dropped, s1)"
    "start_loop e uids (if dropped then selectRemoveJob uid s1 else store uid j' s1) = Some s'"
  using assms by (auto split: option.splits)

lemma core_inv_start_loop:
  assumes "start_loop e uids s = Some s'" "core_inv s" "distinct uids"
    and "\<And>m t. timers s m = Some t \<Longrightarrow> timer_job t \<notin> set uids"
  shows "core_inv s'"
  using assms
proof (induction uids arbitrary: s)
  case (Cons uid uids)
  show ?case
  proof (cases "jobs s uid")
    case None
    then show ?thesis using Cons by auto
  next
    case (Some j)
    obtain j' dropped s1 where prep: "prepareFirstRun e (j\<lparr>nextScheduled := []\<rparr>) s = Some (j', dropped, s1)"
      and rest: "start_loop e uids (if dropped then selectRemoveJob uid s1 else store uid j' s1) = Some s'"
      using start_loop_round [OF Cons.prems(1) Some] .
    have inv: "core_inv (if dropped then selectRemoveJob uid s1 else store uid j' s1)"
      using core_inv_start_round [OF Cons.prems(2) Some prep] Cons.prems(4) by fastforce
    have later: "timer_job t \<notin> set uids"
      if "timers (if dropped then selectRemoveJob uid s1 else store uid j' s1) m = Some t" for m t
      using start_round_timers [OF Cons.prems(2) Some prep that] Cons.prems(3,4) by auto
    show ?thesis using Cons.IH [OF rest inv _ later] Cons.prems(3) by simp
  qed
qed simp

lemma started_selectRemoveJob [simp]: "started (selectRemoveJob uid s) = started s"
  by (simp add: selectRemoveJob_def split: option.split)

lemma started_start_loop: "start_loop e uids s = Some s' \<Longrightarrow> started s' = started s"
proof (induction uids arbitrary: s)
  case (Cons uid uids)
  show ?case
  proof (cases "jobs s uid")
    case (Some j)
    obtain j' dropped s1 where prep: "prepareFirstRun e (j\<lparr>nextScheduled := []\<rparr>) s = Some (j', dropped, s1)"
      and rest: "start_loop e uids (if dropped then selectRemoveJob uid s1 else store uid j' s1) = Some s'"
      using start_loop_round [OF Cons.prems Some] .
    show ?thesis using Cons.IH [OF rest] prepareFirstRun_frame(3) [OF prep] by auto
  qed (use Cons in auto)
qed simp

lemma scheduler_inv_start:
  assumes "scheduler_inv s" "\<not> started s" "distinct (e_iteration e)" "selectStart e s = Some s'"
  shows "scheduler_inv s'"
proof -
  let ?s = "(send ExecutorStart s)\<lparr>started := True\<rparr>"
  obtain s1 where s1: "start_loop e (e_iteration e) ?s = Some s1" "core_inv s' = core_inv s1" "started s' = started s1"
    using assms(4) by (auto simp: selectStart_def split: if_splits)
  have "core_inv ?s" using assms(1) core_inv_cong [of ?s s] by (simp add: scheduler_inv_def send_def)
  moreover have "timers ?s = Map.empty" using assms(1,2) by (simp add: scheduler_inv_def send_def)
  ultimately have "core_inv s1" using core_inv_start_loop [OF s1(1) _ assms(3)] by simp
  then show ?thesis using s1 started_start_loop [OF s1(1)] by (simp add: scheduler_inv_def)
qed

lemma stop_loop_frame:
  "jobs (stop_loop uids s) = jobs s" "fresh_timer (stop_loop uids s) = fresh_timer s"
  "started (stop_loop uids s) = started s"
  by (induction uids s rule: stop_loop.induct) (auto split: option.split)

lemma core_inv_stop_loop: "core_inv s \<Longrightarrow> core_inv (stop_loop uids s)"
  by (induction uids s rule: stop_loop.induct) (auto split: option.split simp: core_inv_job_stop)

lemma stop_loop_timers:
  "timers (stop_loop uids s) n = Some t \<Longrightarrow> timers s n = Some t \<and>
     (\<forall>uid\<in>set uids. \<forall>j. jobs s uid = Some j \<longrightarrow> j_timer j \<noteq> Some n)"
proof (induction uids arbitrary: s)
  case (Cons uid uids)
  show ?case
  proof (cases "jobs s uid")
    case (Some j)
    then show ?thesis using Cons.IH [of "job_stop j s"] Cons.prems by (auto simp: timers_timer_Stop split: if_splits)
  qed (use Cons in auto)
qed simp

text \<open>Stopping every job leaves no timer pending.\<close>

lemma stop_loop_all:
  assumes "core_inv s" "dom (jobs s) \<subseteq> set uids"
  shows "timers (stop_loop uids s) = Map.empty"
proof (rule ext)
  fix n
  show "timers (stop_loop uids s) n = None"
  proof (rule ccontr)
    assume "timers (stop_loop uids s) n \<noteq> None"
    then obtain t where t: "timers (stop_loop uids s) n = Some t" by blast
    then obtain j where "jobs s (timer_job t) = Some j" "j_timer j = Some n"
      using core_invD(3) [OF assms(1), of n t] stop_loop_timers [OF t] by (auto simp: timer_inv_def)
    then show False using stop_loop_timers [OF t] assms(2) by blast
  qed
qed

lemma refresh_context_frame:
  "timers (refresh_context uid j s) = timers s" "fresh_timer (refresh_context uid j s) = fresh_timer s"
  by (simp_all add: refresh_context_def WithCancel_def Let_def store_def)

lemma core_inv_refresh_context:
  assumes "core_inv s" "jobs s uid = Some j"
  shows "core_inv (refresh_context uid j s)"
proof -
  have "core_inv (s\<lparr>fresh_ctx := n\<rparr>)" for n using assms(1) by (simp add: core_inv_def timer_inv_def owns_def)
  then show ?thesis
    unfolding refresh_context_def WithCancel_def Let_def prod.case
    using assms core_invD(2) [OF assms] by (intro core_inv_update [where j = j]) simp_all
qed

lemma core_inv_refresh_loop:
  "core_inv s \<Longrightarrow> core_inv (refresh_loop uids s) \<and> timers (refresh_loop uids s) = timers s"
  by (induction uids s rule: refresh_loop.induct)
    (auto split: option.split simp: core_inv_refresh_context refresh_context_frame)

lemma scheduler_inv_stop:
  assumes "scheduler_inv s" "dom (jobs s) \<subseteq> set (e_iteration e)" "stopScheduler e s = Some s'"
  shows "scheduler_inv s'" "timers s' = Map.empty"
proof -
  let ?s = "if started s then send ExecutorStop s else s"
  have inv: "core_inv ?s" using assms(1) by (simp add: scheduler_inv_def)
  let ?r = "refresh_loop (e_iteration e) (stop_loop (e_iteration e) ?s)"
  have "core_inv ?r" "timers ?r = Map.empty"
    using core_inv_refresh_loop [OF core_inv_stop_loop [OF inv]] stop_loop_all [OF inv] assms(2) by simp_all
  moreover have "jobs s' = jobs ?r" "timers s' = timers ?r" "fresh_timer s' = fresh_timer ?r" "\<not> started s'"
    using assms(3) by (auto simp: stopScheduler_def Let_def split: option.splits)
  ultimately show "scheduler_inv s'" "timers s' = Map.empty"
    using core_inv_cong [of s' ?r] by (simp_all add: scheduler_inv_def)
qed

end
