(* ===== verification/SelectLoop.thy ===== *)
theory SelectLoop
  imports SchedulerInv
begin

text \<open>
  The select loop of the scheduler's goroutine as a step relation: one rule for each channel, and
  one for each thing that happens to its state from outside (a timer fires, a context is cancelled or
  derived, the error of a stop is read, a caller tells the monitor of a new job, a start or a shutdown). A new job has an identifier that is not in use, no run times and no
  timer, which is how \<open>addOrUpdateJob\<close> builds it. Rescheduling is requested while the scheduler is
  started: a run that outlives the stop timeout can break this, and theory Liveness shows what happens then.
\<close>

text \<open>The function of a timer: it is no longer pending, and its job is dispatched.\<close>

definition timer_fires :: "env \<Rightarrow> nat \<Rightarrow> pending_timer \<Rightarrow> scheduler \<Rightarrow> scheduler" where
  "timer_fires e n t s = dispatchJobRun e (timer_job t) (timer_Stop (Some n) s)"

definition new_job :: "scheduler \<Rightarrow> internalJob \<Rightarrow> bool" where
  "new_job s j \<longleftrightarrow> jobs s (j_id j) = None \<and> nextScheduled j = [] \<and> j_timer j = None"

definition iterates :: "env \<Rightarrow> scheduler \<Rightarrow> bool" where
  "iterates e s \<longleftrightarrow> distinct (e_iteration e) \<and> set (e_iteration e) = dom (jobs s)"

inductive select_step :: "scheduler \<Rightarrow> scheduler \<Rightarrow> bool" where
  resched: "started s \<Longrightarrow> selectExecJobsOutForRescheduling e uid s = Some s' \<Longrightarrow> select_step s s'"
| update_next: "select_step s (updateNextScheduled e uid s)"
| completed: "select_step s (selectExecJobsOutCompleted e uid skipped s)"
| timing: "select_step s (selectJobTimingUpdate uid startedAt completedAt s)"
| new: "new_job s j \<Longrightarrow> selectNewJob e j s = Some s' \<Longrightarrow> select_step s s'"
| remove: "select_step s (selectRemoveJob uid s)"
| remove_tags: "iterates e s \<Longrightarrow> select_step s (selectRemoveJobsByTags e tags s)"
| run_now: "selectRunJobRequest e uid s = Some (s', reply) \<Longrightarrow> select_step s s'"
| start: "\<not> started s \<Longrightarrow> iterates e s \<Longrightarrow> selectStart e s = Some s' \<Longrightarrow> select_step s s'"
| stop: "iterates e s \<Longrightarrow> stopScheduler e s = Some s' \<Longrightarrow> select_step s s'"
| fire: "timers s n = Some t \<Longrightarrow> fires_at t \<le> inst (e_clock e) \<Longrightarrow> select_step s (timer_fires e n t s)"
| cancel_ctx: "select_step s (cancel c s)"
| read_error: "select_step s (s\<lparr>stopErrCh := None\<rparr>)"
| with_cancel: "select_step s (snd (WithCancel c s))"
| registered: "select_step s (notifyJobRegistered uid s)"
| start_notice: "select_step s (notifySchedulerStarted s)"
| shutdown_notice: "select_step s (notifySchedulerShutdown s)"

inductive_cases select_stepE: "select_step s s'"

inductive reachable :: "scheduler \<Rightarrow> bool" where
  created: "reachable (NewScheduler_state l monitor)"
| stepped: "reachable s \<Longrightarrow> select_step s s' \<Longrightarrow> reachable s'"

section \<open>The invariant holds in every reachable state\<close>

lemma started_handlers [simp]:
  "started (updateNextScheduled e uid s) = started s"
  "started (selectExecJobsOutCompleted e uid skipped s) = started s"
  "started (selectJobTimingUpdate uid a b s) = started s"
  by (simp_all add: updateNextScheduled_def selectExecJobsOutCompleted_def selectJobTimingUpdate_def Let_def
      split: option.split)

lemma started_removeByTags [simp]: "started (removeByTags_loop tags uids s) = started s"
  by (induction tags uids s rule: removeByTags_loop.induct) (auto split: option.split)

lemma started_resched: "selectExecJobsOutForRescheduling e uid s = Some s' \<Longrightarrow> started s' = started s"
  by (auto simp: selectExecJobsOutForRescheduling_def Let_def arm_next_def AfterFunc_def split: if_splits option.splits)

lemma started_new_job: "selectNewJob e j s = Some s' \<Longrightarrow> started s' = started s"
  using prepareFirstRun_frame(3) [of e j s] by (auto simp: selectNewJob_def split: if_splits option.splits)

text \<open>Handlers other than start and stop: while the scheduler has not started they arm no timer.\<close>

lemma timers_handlers [simp]:
  "timers (updateNextScheduled e uid s) = timers s"
  "timers (selectExecJobsOutCompleted e uid skipped s) = timers s"
  "timers (selectJobTimingUpdate uid a b s) = timers s"
  by (simp_all add: updateNextScheduled_def selectExecJobsOutCompleted_def selectJobTimingUpdate_def Let_def
      split: option.split)

lemma no_timers_stopped: "timers s = Map.empty \<Longrightarrow> timers (timer_Stop t s) = Map.empty"
  by (rule ext) (simp add: timers_timer_Stop)

lemma no_timers_removal:
  "timers s = Map.empty \<Longrightarrow> timers (selectRemoveJob uid s) = Map.empty"
  "timers s = Map.empty \<Longrightarrow> timers (removeByTags_loop tags uids s) = Map.empty"
proof -
  show "timers s = Map.empty \<Longrightarrow> timers (selectRemoveJob uid s) = Map.empty"
    by (simp add: selectRemoveJob_def no_timers_stopped split: option.split)
  show "timers s = Map.empty \<Longrightarrow> timers (removeByTags_loop tags uids s) = Map.empty"
    by (induction tags uids s rule: removeByTags_loop.induct) (simp add: no_timers_stopped split: option.split)+
qed

lemma no_timers_new_job:
  "\<not> started s \<Longrightarrow> selectNewJob e j s = Some s' \<Longrightarrow> timers s' = timers s"
  by (auto simp: selectNewJob_def)

lemma run_now_frame:
  assumes "selectRunJobRequest e uid s = Some (s', reply)"
  shows "core_inv s' = core_inv s" "timers s' = timers s" "started s' = started s"
  using assms by (auto simp: selectRunJobRequest_def split: option.splits if_splits)

lemma scheduler_inv_step:
  assumes "scheduler_inv s" "select_step s s'"
  shows "scheduler_inv s'"
  using assms(2,1)
proof (cases rule: select_step.cases)
  case (resched e uid)
  then show ?thesis
    using assms(1) core_inv_resched [OF _ resched(2)] started_resched [OF resched(2)] by (simp add: scheduler_inv_def)
next
  case (new j e)
  then show ?thesis
    using assms(1) core_inv_new_job [of s j e s'] started_new_job [OF new(2)] no_timers_new_job [OF _ new(2)]
    by (cases "started s") (simp_all add: scheduler_inv_def new_job_def)
next
  case (run_now e uid reply)
  then show ?thesis using assms(1) by (simp add: scheduler_inv_def run_now_frame)
next
  case (start e)
  then show ?thesis using scheduler_inv_start [OF assms(1) start(1) _ start(3)] by (simp add: iterates_def)
next
  case (stop e)
  then show ?thesis using scheduler_inv_stop(1) [OF assms(1) _ stop(2)] by (simp add: iterates_def)
next
  case (fire n t e)
  then show ?thesis
    using assms(1) core_inv_timer_Stop [of s "Some n"] no_timers_stopped [of s]
    by (auto simp: scheduler_inv_def timer_fires_def)
next
  case read_error
  then show ?thesis using assms(1) core_inv_cong [of s' s] by (simp add: scheduler_inv_def)
next
  case (with_cancel c)
  then show ?thesis using assms(1) core_inv_cong [of s' s] by (simp add: scheduler_inv_def WithCancel_def)
next
  case (registered uid)
  then show ?thesis
    using assms(1) core_inv_cong [of s' s] by (simp add: scheduler_inv_def notifyJobRegistered_def send_def)
next
  case start_notice
  then show ?thesis
    using assms(1) core_inv_cong [of s' s] by (simp add: scheduler_inv_def notifySchedulerStarted_def send_def)
next
  case shutdown_notice
  then show ?thesis
    using assms(1) core_inv_cong [of s' s] by (simp add: scheduler_inv_def notifySchedulerShutdown_def send_def)
qed (use assms(1) in \<open>auto simp: scheduler_inv_def core_inv_updateNextScheduled core_inv_completed core_inv_timing
  core_inv_selectRemoveJob core_inv_removeByTags no_timers_removal selectRemoveJobsByTags_def\<close>)

lemma reachable_inv: "reachable s \<Longrightarrow> scheduler_inv s"
proof (induction rule: reachable.induct)
  case (created l monitor)
  show ?case by (simp add: scheduler_inv_def core_inv_def NewScheduler_state_def)
qed (rule scheduler_inv_step)

end
