(* ===== verification/SchedulerFacts.thy ===== *)
theory SchedulerFacts
  imports SelectLoop
begin

text \<open>
  What the handlers of the scheduler do: the run that rescheduling picks, the first run of a job,
  starting, stopping and removing jobs, and the counting of limited runs.
\<close>

section \<open>Rescheduling\<close>

lemma run_from_trans: "run_from nxt t u \<Longrightarrow> run_from nxt u v \<Longrightarrow> run_from nxt t v"
  by (induction rule: run_from.induct) (auto intro: run_from.intros)

lemma run_from_linear: "run_from nxt t u \<Longrightarrow> run_from nxt t v \<Longrightarrow> run_from nxt u v \<or> run_from nxt v u"
proof (induction rule: run_from.induct)
  case (step t n u)
  show ?case
  proof (cases "v = t")
    case True
    then show ?thesis using step run_from.step by blast
  next
    case False
    then have "run_from nxt n v" using step.hyps step.prems by (subst (asm) run_from_unfold) simp
    then show ?thesis using step.IH by blast
  qed
qed simp

text \<open>
  The run that is scheduled is the earliest run from \<open>next\<close> on that is not in the past and not
  scheduled already; the job is removed when there is none, or when it is not before the stop time.
\<close>

definition eligible :: "draws \<Rightarrow> gtime \<Rightarrow> internalJob \<Rightarrow> gtime \<Rightarrow> gtime \<Rightarrow> bool" where
  "eligible rnd now j next u \<longleftrightarrow>
     run_from (job_next rnd j) next u \<and> \<not> Before u now \<and> \<not> nextScheduledContains (nextScheduled j) u"

lemma reschedule_time_spec:
  assumes ok: "job_ok rnd j next" and res: "reschedule_time rnd now j next = Some r"
  shows "case r of
      Some n \<Rightarrow> eligible rnd now j next n \<and> (\<forall>u. eligible rnd now j next u \<longrightarrow> inst n \<le> inst u) \<and> before_stop j (inst n)
    | None \<Rightarrow> (\<forall>u. eligible rnd now j next u \<longrightarrow> \<not> before_stop j (inst u))"
proof -
  let ?nxt = "job_next rnd j" and ?ts = "nextScheduled j"
  define a where "a = (if Before next now then advancePastNow ?nxt now next else Some (Some next))"
  have past: "case q of
      Some t \<Rightarrow> run_from ?nxt next t \<and> job_ok rnd j t \<and> \<not> Before t now \<and>
        (\<forall>u. run_from ?nxt next u \<longrightarrow> \<not> Before u now \<longrightarrow> inst t \<le> inst u)
    | None \<Rightarrow> \<forall>u. run_from ?nxt next u \<longrightarrow> Before u now" if "a = Some q" for q
    using that ok job_advancePastNow [OF ok] job_run_from_le [OF _ ok] run_from.here
    by (auto simp: a_def split: if_splits)
  obtain q where q: "a = Some q" using res by (cases a) (simp_all add: reschedule_time_def a_def [symmetric])
  show ?thesis
  proof (cases q)
    case None
    then have "r = None" using res q by (simp add: reschedule_time_def a_def [symmetric])
    then show ?thesis using past [OF q] None by (auto simp: eligible_def)
  next
    case (Some t)
    note t = past [OF q, unfolded Some, simplified]
    define b where "b = (if nextScheduledContains ?ts t then advanceNextPastDuplicates ?nxt ?ts t else Some (Some t))"
    have "a = Some (Some t)" using q Some by simp
    note res' = res [unfolded reschedule_time_def a_def [symmetric] this option.case b_def [symmetric]]
    have from_t: "run_from ?nxt t u" if u: "run_from ?nxt next u" "\<not> Before u now" for u
    proof -
      have "run_from ?nxt t u \<or> run_from ?nxt u t" using run_from_linear t u(1) by blast
      moreover have "u = t" if "run_from ?nxt u t"
        using job_run_from_ok [OF that] job_run_from_ok [OF u(1) ok] t u by (force simp: After_def)
      ultimately show ?thesis using run_from.here by blast
    qed
    have dup: "case w of
        Some n \<Rightarrow> run_from ?nxt t n \<and> \<not> nextScheduledContains ?ts n \<and>
          (\<forall>u. run_from ?nxt t u \<longrightarrow> \<not> nextScheduledContains ?ts u \<longrightarrow> inst n \<le> inst u)
      | None \<Rightarrow> \<forall>u. run_from ?nxt t u \<longrightarrow> nextScheduledContains ?ts u" if "b = Some w" for w
      using that t job_advanceNextPastDuplicates [of rnd j t ?ts w] job_run_from_le run_from.here
      by (auto simp: b_def split: if_splits option.splits)
    obtain w where w: "b = Some w" using res' by (cases b) simp_all
    have later: "run_from ?nxt t n \<Longrightarrow> \<not> Before n now" for n
      using job_run_from_le [of rnd j t n] t by (auto simp: Before_def)
    show ?thesis
    proof (cases w)
      case None
      then have "r = None" using res' w by simp
      then show ?thesis using dup [OF w] None from_t by (auto simp: eligible_def)
    next
      case (Some n)
      have n: "eligible rnd now j next n" "\<forall>u. eligible rnd now j next u \<longrightarrow> inst n \<le> inst u"
      proof -
        have n: "run_from ?nxt t n" "\<not> nextScheduledContains ?ts n"
          "\<And>u. run_from ?nxt t u \<Longrightarrow> \<not> nextScheduledContains ?ts u \<Longrightarrow> inst n \<le> inst u"
          using dup [OF w] Some by auto
        have "run_from ?nxt next n" using run_from_trans t n(1) by blast
        then show "eligible rnd now j next n" using n later unfolding eligible_def by blast
        show "\<forall>u. eligible rnd now j next u \<longrightarrow> inst n \<le> inst u"
          using n(3) from_t unfolding eligible_def by blast
      qed
      have "r = (if \<not> IsZero (stopTime j) \<and> \<not> Before n (stopTime j) then None else Some n)"
        using res' w Some by (auto split: if_splits)
      then show ?thesis using n by (auto simp: before_stop_def Before_def)
    qed
  qed
qed

section \<open>Starting\<close>

text \<open>A job whose first run is prepared: dispatched at once, or with a timer armed for it.\<close>

definition first_run_prepared :: "env \<Rightarrow> scheduler \<Rightarrow> uuid \<Rightarrow> internalJob \<Rightarrow> bool" where
  "first_run_prepared e s uid j \<longleftrightarrow> nextScheduled j = [startTime j] \<and>
     (JobsIn uid True \<in> set (outbox s) \<and> startTime j = s_now e s \<or>
      (\<exists>n. j_timer j = Some n \<and> timers s n = Some \<lparr>timer_job = uid, fires_at = inst (startTime j)\<rparr> \<and>
        \<not> Before (startTime j) (s_now e s) \<and> before_stop j (inst (startTime j))))"

lemma outbox_simps [simp]:
  "outbox (store uid j s) = outbox s" "outbox (timer_Stop t s) = outbox s" "outbox (cancel c s) = outbox s"
  "outbox (delete_job uid s) = outbox s" "outbox (job_stop j s) = outbox s" "outbox (send m s) = outbox s @ [m]"
  by (simp_all add: store_def timer_Stop_def cancel_def delete_job_def job_stop_def send_def split: option.split)

lemma s_location_simps [simp]:
  "s_location (store uid j s) = s_location s" "s_location (timer_Stop t s) = s_location s"
  "s_location (cancel c s) = s_location s" "s_location (delete_job uid s) = s_location s"
  "s_location (job_stop j s) = s_location s" "s_location (send m s) = s_location s"
  "s_location (dispatchJobRun e uid s) = s_location s" "s_location (selectRemoveJob uid s) = s_location s"
  by (simp_all add: store_def timer_Stop_def cancel_def delete_job_def job_stop_def send_def dispatchJobRun_def
      selectRemoveJob_def notifyJobUnregistered_def split: option.split)

lemma cancelled_simps [simp]:
  "cancelled (store uid j s) = cancelled s" "cancelled (timer_Stop t s) = cancelled s"
  "cancelled (cancel c s) = insert c (cancelled s)" "cancelled (delete_job uid s) = cancelled s"
  "cancelled (job_stop j s) = insert (j_ctx j) (cancelled s)" "cancelled (send m s) = cancelled s"
  "cancelled (dispatchJobRun e uid s) = cancelled s" "cancelled (notifyJobUnregistered uid s) = cancelled s"
  by (simp_all add: store_def timer_Stop_def cancel_def delete_job_def job_stop_def send_def dispatchJobRun_def
      notifyJobUnregistered_def split: option.split)

lemma prepareFirstRun_prepared:
  assumes "prepareFirstRun e (j\<lparr>nextScheduled := []\<rparr>) s = Some (j', dropped, s')" "\<not> is_shutdown s" "j_id j = uid"
  shows "s_location s' = s_location s \<and> cancelled s' = cancelled s \<and> set (outbox s) \<subseteq> set (outbox s') \<and>
    (dropped \<longrightarrow> s' = s) \<and> (\<not> dropped \<longrightarrow> first_run_prepared e s' uid j')"
  using assms(1)
proof (cases rule: prepareFirstRun_cases)
  case dispatched
  then show ?thesis
    using assms(2,3) by (auto simp: first_run_prepared_def dispatchJobRun_def s_now_def)
next
  case (armed "next" n)
  then show ?thesis
    using assms(3)
    by (auto simp: first_run_prepared_def AfterFunc_simps s_now_def Sub_def past_stop_def before_stop_def Before_def)
qed simp

lemma prepareFirstRun_timers:
  assumes "prepareFirstRun e j s = Some (j', dropped, s')" "core_inv s" "timers s n = Some t"
  shows "timers s' n = Some t"
  using assms(1) core_invD(3) [OF assms(2,3)] assms(3)
  by (cases rule: prepareFirstRun_cases) (auto simp: AfterFunc_simps timer_inv_def)

lemma is_shutdown_mono: "cancelled s \<subseteq> cancelled s' \<Longrightarrow> is_shutdown s \<Longrightarrow> is_shutdown s'"
  by (auto simp: is_shutdown_def shutdownCtx_def)

lemma selectRemoveJob_frame:
  "cancelled s \<subseteq> cancelled (selectRemoveJob uid s)" "set (outbox s) \<subseteq> set (outbox (selectRemoveJob uid s))"
  "jobs (selectRemoveJob uid s) = (jobs s)(uid := None)"
  by (auto simp: selectRemoveJob_def notifyJobUnregistered_def fun_eq_iff split: option.split)

lemma selectRemoveJob_timers:
  assumes "core_inv s" "timers s n = Some t" "timer_job t \<noteq> uid"
  shows "timers (selectRemoveJob uid s) n = Some t"
proof (cases "jobs s uid")
  case (Some j)
  have "j_timer j \<noteq> Some n"
  proof
    assume "j_timer j = Some n"
    moreover obtain k where "jobs s (timer_job t) = Some k" "j_timer k = Some n"
      using core_invD(3) [OF assms(1,2)] by (auto simp: timer_inv_def)
    ultimately show False using ownsD [OF core_invD(4) [OF assms(1) Some]] assms(3) by blast
  qed
  then show ?thesis using assms(2) Some by (simp add: selectRemoveJob_def timers_timer_Stop)
qed (use assms in \<open>simp add: selectRemoveJob_def\<close>)

text \<open>Each round of the start loop prepares one job; later rounds leave it alone.\<close>

definition start_frame :: "uuid list \<Rightarrow> scheduler \<Rightarrow> scheduler \<Rightarrow> bool" where
  "start_frame uids s s' \<longleftrightarrow> cancelled s \<subseteq> cancelled s' \<and> s_location s' = s_location s \<and>
     set (outbox s) \<subseteq> set (outbox s') \<and> (\<forall>uid. uid \<notin> set uids \<longrightarrow> jobs s' uid = jobs s uid) \<and>
     (\<forall>n t. timers s n = Some t \<longrightarrow> timer_job t \<notin> set uids \<longrightarrow> timers s' n = Some t)"

lemma start_frame_round:
  assumes "core_inv s" "jobs s uid = Some j" "prepareFirstRun e (j\<lparr>nextScheduled := []\<rparr>) s = Some (j', dropped, s1)"
    and "\<not> is_shutdown s"
  shows "start_frame [uid] s (if dropped then selectRemoveJob uid s1 else store uid j' s1)"
proof -
  have uid: "j_id j = uid" using core_invD(1) [OF assms(1,2)] .
  note prep = prepareFirstRun_prepared [OF assms(3,4) uid]
  show ?thesis
  proof (cases dropped)
    case True
    then have "s1 = s" using prep by blast
    then show ?thesis
      using True selectRemoveJob_frame selectRemoveJob_timers [OF assms(1)] by (auto simp: start_frame_def)
  next
    case False
    then show ?thesis
      using prep prepareFirstRun_frame(1) [OF assms(3)] prepareFirstRun_timers [OF assms(3,1)] by (auto simp: start_frame_def)
  qed
qed

lemma start_frame_trans: "start_frame [uid] s s1 \<Longrightarrow> start_frame uids s1 s' \<Longrightarrow> start_frame (uid # uids) s s'"
  unfolding start_frame_def by auto

lemma prepareFirstRun_cancelled:
  "prepareFirstRun e j s = Some (j', dropped, s') \<Longrightarrow> cancelled s' = cancelled s"
  by (erule prepareFirstRun_cases) (auto simp: AfterFunc_simps)

lemma first_run_prepared_frame:
  assumes "first_run_prepared e s uid j" "uid \<notin> set uids" "s_location s' = s_location s"
    "set (outbox s) \<subseteq> set (outbox s')" "\<forall>n t. timers s n = Some t \<longrightarrow> timer_job t \<notin> set uids \<longrightarrow> timers s' n = Some t"
  shows "first_run_prepared e s' uid j"
  using assms unfolding first_run_prepared_def s_now_def by fastforce

lemma start_loop_prepares:
  assumes "start_loop e uids s = Some s'" "core_inv s" "distinct uids"
    and "\<And>m t. timers s m = Some t \<Longrightarrow> timer_job t \<notin> set uids" and "\<not> is_shutdown s'"
  shows "start_frame uids s s' \<and> (\<forall>uid\<in>set uids. \<forall>j. jobs s' uid = Some j \<longrightarrow> first_run_prepared e s' uid j)"
  using assms
proof (induction uids arbitrary: s)
  case Nil
  then show ?case by (simp add: start_frame_def)
next
  case (Cons uid uids)
  show ?case
  proof (cases "jobs s uid")
    case None
    then have "start_loop e uids s = Some s'" using Cons.prems(1) by simp
    then have rest: "start_frame uids s s' \<and> (\<forall>uid\<in>set uids. \<forall>j. jobs s' uid = Some j \<longrightarrow> first_run_prepared e s' uid j)"
      using Cons by (intro Cons.IH) auto
    moreover have "jobs s' uid = None" using rest None Cons.prems(3) by (simp add: start_frame_def)
    ultimately show ?thesis by (auto simp: start_frame_def)
  next
    case (Some j)
    obtain j' dropped s1 where prep: "prepareFirstRun e (j\<lparr>nextScheduled := []\<rparr>) s = Some (j', dropped, s1)"
      and rest: "start_loop e uids (if dropped then selectRemoveJob uid s1 else store uid j' s1) = Some s'"
      using start_loop_round [OF Cons.prems(1) Some] .
    let ?s2 = "if dropped then selectRemoveJob uid s1 else store uid j' s1"
    have uid: "j_id j = uid" using core_invD(1) [OF Cons.prems(2) Some] .
    have none: "timers s m = Some t \<Longrightarrow> timer_job t \<noteq> uid" for m t using Cons.prems(4) [of m t] by auto
    have inv: "core_inv ?s2" by (rule core_inv_start_round [OF Cons.prems(2) Some prep none])
    have later: "timer_job t \<notin> set uids" if "timers ?s2 m = Some t" for m t
      using start_round_timers [OF Cons.prems(2) Some prep that] Cons.prems(3,4) by auto
    have IH: "start_frame uids ?s2 s' \<and> (\<forall>uid\<in>set uids. \<forall>j. jobs s' uid = Some j \<longrightarrow> first_run_prepared e s' uid j)"
      using Cons.IH [OF rest inv _ later Cons.prems(5)] Cons.prems(3) by simp
    have "\<not> is_shutdown ?s2" using IH Cons.prems(5) is_shutdown_mono unfolding start_frame_def by blast
    then have live: "\<not> is_shutdown s"
      using is_shutdown_mono [of s ?s2] prepareFirstRun_cancelled [OF prep] selectRemoveJob_frame(1) [of s1 uid]
      by (cases dropped) auto
    note frame = start_frame_trans [OF start_frame_round [OF Cons.prems(2) Some prep live] conjunct1 [OF IH]]
    have "first_run_prepared e s' uid k" if k: "jobs s' uid = Some k" for k
    proof -
      have "jobs ?s2 uid = Some k" using k IH Cons.prems(3) by (simp add: start_frame_def)
      then have k': "\<not> dropped" "k = j'" by (auto simp: selectRemoveJob_frame split: if_splits)
      then have "first_run_prepared e s1 uid k" using prepareFirstRun_prepared [OF prep live uid] by simp
      then show ?thesis
        using first_run_prepared_frame [of e s1 uid k uids s'] IH k' Cons.prems(3) by (simp add: start_frame_def)
    qed
    then show ?thesis using frame IH by simp
  qed
qed

section \<open>Stopping\<close>

text \<open>What a stop leaves of a job: the same job with a fresh context under the same parent, which also
  stands in for the old one where that was the first parameter.\<close>

definition refreshed :: "internalJob \<Rightarrow> ctx \<Rightarrow> internalJob" where
  "refreshed j c = j\<lparr>j_parentCtx := Some (case j_parentCtx j of None \<Rightarrow> shutdownCtx | Some p \<Rightarrow> p), j_ctx := c,
     j_parameters := (case j_parameters j of
        p # ps \<Rightarrow> if p = CtxValue (j_ctx j) then CtxValue c # ps else p # ps | [] \<Rightarrow> [])\<rparr>"

definition parent_ctx :: "internalJob \<Rightarrow> ctx" where
  "parent_ctx j = (case j_parentCtx j of None \<Rightarrow> shutdownCtx | Some p \<Rightarrow> p)"

lemma refresh_context_eq:
  "refresh_context uid j s =
     store uid (refreshed j (Derived (fresh_ctx s) (parent_ctx j))) (s\<lparr>fresh_ctx := Suc (fresh_ctx s)\<rparr>)"
  by (simp add: refresh_context_def refreshed_def parent_ctx_def WithCancel_def Let_def)

lemma fresh_ctx_simps [simp]:
  "fresh_ctx (store uid j s) = fresh_ctx s" "fresh_ctx (timer_Stop t s) = fresh_ctx s"
  "fresh_ctx (cancel c s) = fresh_ctx s" "fresh_ctx (job_stop j s) = fresh_ctx s" "fresh_ctx (send m s) = fresh_ctx s"
  by (simp_all add: store_def timer_Stop_def cancel_def job_stop_def send_def split: option.split)

lemma stop_loop_ctx: "fresh_ctx (stop_loop uids s) = fresh_ctx s"
  by (induction uids s rule: stop_loop.induct) (auto split: option.split)

lemma refresh_loop_jobs:
  assumes "distinct uids" "jobs s uid = Some j"
  shows "(uid \<notin> set uids \<longrightarrow> jobs (refresh_loop uids s) uid = Some j) \<and>
    (uid \<in> set uids \<longrightarrow>
      (\<exists>n\<ge>fresh_ctx s. jobs (refresh_loop uids s) uid = Some (refreshed j (Derived n (parent_ctx j)))))"
  using assms
proof (induction uids arbitrary: s j)
  case (Cons v uids)
  let ?s = "case jobs s v of None \<Rightarrow> s | Some k \<Rightarrow> refresh_context v k s"
  have fresh: "fresh_ctx s \<le> fresh_ctx ?s" by (simp add: refresh_context_eq split: option.split)
  show ?case
  proof (cases "v = uid")
    case True
    then have "jobs ?s uid = Some (refreshed j (Derived (fresh_ctx s) (parent_ctx j)))"
      using Cons.prems by (simp add: refresh_context_eq)
    then show ?thesis using Cons.IH [of ?s] Cons.prems True by auto
  next
    case False
    then have "jobs ?s uid = Some j" using Cons.prems by (simp add: refresh_context_eq split: option.split)
    then show ?thesis using Cons.IH [of ?s j] Cons.prems False fresh by (auto intro: order_trans)
  qed
qed simp

lemma refresh_loop_None: "jobs s uid = None \<Longrightarrow> jobs (refresh_loop uids s) uid = None"
proof (induction uids arbitrary: s)
  case (Cons v uids)
  have "jobs (case jobs s v of None \<Rightarrow> s | Some k \<Rightarrow> refresh_context v k s) uid = None"
    using Cons.prems by (cases "v = uid") (auto simp: refresh_context_eq split: option.split)
  then show ?case using Cons.IH by simp
qed simp

lemma stop_loop_cancels:
  "uid \<in> set uids \<Longrightarrow> jobs s uid = Some j \<Longrightarrow> j_ctx j \<in> cancelled (stop_loop uids s)"
  "cancelled s \<subseteq> cancelled (stop_loop uids s)"
proof -
  have mono: "cancelled s \<subseteq> cancelled (stop_loop uids s)" for uids s
    by (induction uids s rule: stop_loop.induct) (force split: option.split)+
  show "cancelled s \<subseteq> cancelled (stop_loop uids s)" by (rule mono)
  show "uid \<in> set uids \<Longrightarrow> jobs s uid = Some j \<Longrightarrow> j_ctx j \<in> cancelled (stop_loop uids s)"
  proof (induction uids arbitrary: s)
    case (Cons v uids)
    show ?case
    proof (cases "v = uid")
      case True
      then show ?thesis using Cons.prems mono [of "job_stop j s" uids] by auto
    next
      case False
      then show ?thesis using Cons.IH Cons.prems by (auto split: option.split)
    qed
  qed simp
qed

lemma refresh_loop_cancelled: "cancelled (refresh_loop uids s) = cancelled s"
  by (induction uids s rule: refresh_loop.induct) (auto simp: refresh_context_eq split: option.split)

section \<open>Removing jobs\<close>

definition has_tag :: "string list \<Rightarrow> internalJob \<Rightarrow> bool" where
  "has_tag tags j \<longleftrightarrow> set tags \<inter> set (j_tags j) \<noteq> {}"

lemma removeByTags_jobs:
  assumes "\<And>uid j. jobs s uid = Some j \<Longrightarrow> j_id j = uid"
  shows "jobs (removeByTags_loop tags uids s) uid =
    (case jobs s uid of
       Some j \<Rightarrow> if uid \<in> set uids \<and> has_tag tags j then None else Some j
     | None \<Rightarrow> None)"
  using assms
proof (induction uids arbitrary: s)
  case (Cons v uids)
  let ?s = "case jobs s v of None \<Rightarrow> s
    | Some j \<Rightarrow> if list_ex (\<lambda>tag. tag \<in> set (j_tags j)) tags
        then delete_job (j_id j) (job_stop j (notifyJobUnregistered (j_id j) s)) else s"
  have tag: "list_ex (\<lambda>tag. tag \<in> set (j_tags j)) tags \<longleftrightarrow> has_tag tags j" for j
    by (auto simp: has_tag_def list_ex_iff)
  have ids: "jobs ?s w = Some j \<Longrightarrow> j_id j = w" for w j
    using Cons.prems by (auto split: option.splits if_splits)
  have "jobs ?s uid = (case jobs s uid of
      Some j \<Rightarrow> if uid = v \<and> has_tag tags j then None else Some j | None \<Rightarrow> None)"
    using Cons.prems by (auto simp: tag split: option.split)
  then show ?case using Cons.IH [OF ids] by (auto split: option.split)
qed (simp split: option.split)

end
