(* ===== verification/NewJob.thy ===== *)
theory NewJob
  imports JobDefs JobOptions SchedulerFacts
begin

text \<open>
  Creating and updating jobs: the checks by reflection that \<open>addOrUpdateJob\<close> makes on a task, the
  job it builds, and the requests it sends to the scheduler's goroutine. \<open>None\<close> is a panic. What
  \<open>Type.Implements\<close> says of a type and the name that the runtime gives a function are arguments.
\<close>

section \<open>Reflection\<close>

datatype go_kind =
    Invalid | Func | Interface | Pointer | Struct | Slice | Basic string

fun kind_of :: "go_type \<Rightarrow> go_kind" where
  "kind_of (Plain n) = Basic n"
| "kind_of (StructT n) = Struct"
| "kind_of (PointerT t) = Pointer"
| "kind_of (InterfaceT n) = Interface"
| "kind_of (SliceT t) = Slice"
| "kind_of (FuncT ins variadic) = Func"

text \<open>The dynamic type of a value; \<open>reflect.TypeOf(nil)\<close> is nil. A context is a pointer to a struct,
  but the background context, which is a struct.\<close>

fun TypeOf :: "go_value \<Rightarrow> go_type option" where
  "TypeOf NilValue = None"
| "TypeOf (CtxValue Background) = Some (StructT ''context.backgroundCtx'')"
| "TypeOf (CtxValue c) = Some (PointerT (StructT ''context.cancelCtx''))"
| "TypeOf (Value t n) = Some t"

text \<open>The kind of an argument, that of what it points to for a pointer; \<open>None\<close> where a method is
  called on a nil type.\<close>

definition argument_kind :: "go_value \<Rightarrow> go_kind option" where
  "argument_kind v = (case TypeOf v of
     None \<Rightarrow> None
   | Some (PointerT t) \<Rightarrow> Some (kind_of t)
   | Some t \<Rightarrow> Some (kind_of t))"

text \<open>
  The kind the code computes for a parameter. For an interface or a pointer it takes the kind of
  \<open>reflect.Indirect(reflect.ValueOf(parameterType))\<close>: the value is the \<open>*rtype\<close> that describes the
  type, so this is the kind of the descriptor, a struct.
\<close>

definition parameter_kind :: "go_type \<Rightarrow> go_kind" where
  "parameter_kind t = (if kind_of t = Interface \<or> kind_of t = Pointer then Struct else kind_of t)"

datatype check = Panics | Fails error | Passes

fun verify_kinds :: "go_value list \<Rightarrow> go_type list \<Rightarrow> check" where
  "verify_kinds (v # vs) (t # ts) =
     (case argument_kind v of
        None \<Rightarrow> Panics
      | Some k \<Rightarrow> if k \<noteq> parameter_kind t then Fails ErrNewJobWrongTypeOfParameters else verify_kinds vs ts)"
| "verify_kinds _ _ = Passes"

definition verifyNonVariadic :: "go_type list \<Rightarrow> go_value list \<Rightarrow> nat \<Rightarrow> check" where
  "verifyNonVariadic ins params n = verify_kinds (take n params) (take n ins)"

type_synonym implements = "go_type \<Rightarrow> string \<Rightarrow> bool"

fun verifyInterfaceVariadic :: "implements \<Rightarrow> string \<Rightarrow> go_value list \<Rightarrow> check" where
  "verifyInterfaceVariadic impl iface [] = Passes"
| "verifyInterfaceVariadic impl iface (v # vs) =
     (case TypeOf v of
        None \<Rightarrow> Panics
      | Some t \<Rightarrow> if impl t iface then verifyInterfaceVariadic impl iface vs
                 else Fails ErrNewJobWrongTypeOfParameters)"

fun verify_variadic_kinds :: "go_kind \<Rightarrow> go_value list \<Rightarrow> check" where
  "verify_variadic_kinds k [] = Passes"
| "verify_variadic_kinds k (v # vs) =
     (case argument_kind v of
        None \<Rightarrow> Panics
      | Some k' \<Rightarrow> if k' \<noteq> k then Fails ErrNewJobWrongTypeOfParameters else verify_variadic_kinds k vs)"

definition slice_elem :: "go_type \<Rightarrow> go_type" where
  "slice_elem t = (case t of SliceT u \<Rightarrow> u | _ \<Rightarrow> t)"

definition verifyVariadic :: "implements \<Rightarrow> go_type list \<Rightarrow> go_value list \<Rightarrow> nat \<Rightarrow> check" where
  "verifyVariadic impl ins params variadicStart =
     (case verifyNonVariadic ins params variadicStart of
        Passes \<Rightarrow>
          (let elem = slice_elem (ins ! variadicStart); rest = drop variadicStart params in
           case elem of
             InterfaceT iface \<Rightarrow> verifyInterfaceVariadic impl iface rest
           | PointerT _ \<Rightarrow> verify_variadic_kinds Struct rest
           | _ \<Rightarrow> verify_variadic_kinds (kind_of elem) rest)
      | bad \<Rightarrow> bad)"

definition verifyParameterType :: "implements \<Rightarrow> go_type list \<Rightarrow> bool \<Rightarrow> go_value list \<Rightarrow> check" where
  "verifyParameterType impl ins variadic params =
     (if variadic then
        let variadicStart = length ins - 1 in
        if length params < variadicStart then Fails ErrNewJobWrongNumberOfParameters
        else verifyVariadic impl ins params variadicStart
      else if length params \<noteq> length ins then Fails ErrNewJobWrongNumberOfParameters
      else verifyNonVariadic ins params (length ins))"

section \<open>Calling a function\<close>

text \<open>
  \<open>callJobFuncWithParams\<close> of util.go: a nil function is not called, the number of parameters has to
  be that of the declared ones, and the first returned error is the result. A function reached
  through a pointer has a pointer type, whose \<open>NumIn\<close> panics. \<open>call\<close> is what the function returns:
  for each result the error it holds, if any; \<open>None\<close> when the function panics.
\<close>

type_synonym task_call = "go_value \<Rightarrow> go_value list \<Rightarrow> error option list option"

fun first_error :: "error option list \<Rightarrow> error option" where
  "first_error [] = None"
| "first_error (Some err # vals) = Some err"
| "first_error (None # vals) = first_error vals"

definition callJobFuncWithParams ::
  "task_call \<Rightarrow> go_value \<Rightarrow> go_value list \<Rightarrow> error option option" where
  "callJobFuncWithParams call f params =
     (case f of
        Value (FuncT ins variadic) n \<Rightarrow>
          if n = 0 then Some None
          else if length params \<noteq> length ins then Some (Some ErrJobParameterMismatch)
          else map_option first_error (call f params)
      | NilValue \<Rightarrow> Some None
      | Value t n \<Rightarrow> if n = 0 then Some None else None
      | CtxValue _ \<Rightarrow> None)"

section \<open>Building a job\<close>

record task =
  t_function :: go_value
  t_parameters :: "go_value list"

text \<open>The loop that follows pointers; a nil pointer (number 0) ends in the invalid value.\<close>

fun deref :: "go_type \<Rightarrow> nat \<Rightarrow> (go_type \<times> nat) option" where
  "deref (PointerT t) n = (if n = 0 then None else deref t n)"
| "deref t n = Some (t, n)"

fun task_function :: "go_value \<Rightarrow> (go_type list \<times> bool \<times> nat) option" where
  "task_function (Value t n) =
     (case deref t n of Some (FuncT ins variadic, n) \<Rightarrow> Some (ins, variadic, n) | _ \<Rightarrow> None)"
| "task_function _ = None"

definition zero_job :: internalJob where
  "zero_job = \<lparr>j_schedule = None, j_ctx = Background, j_parentCtx = None, j_id = 0, j_name = [], j_tags = [],
     j_cron = None, j_policy = DaylightSavingsTimeDefault, nextScheduled = [], j_lastRun = zero_time,
     lastRunStartedAt = zero_time, lastRunCompletedAt = zero_time, j_function = NilValue, j_parameters = [],
     j_timer = None, singletonMode = False, singletonLimitMode = LimitModeReschedule, j_limitRunsTo = None,
     startTime = zero_time, startImmediately = False, startAtGrace = 0, stopTime = zero_time,
     intervalFromCompletion = False, afterJobRuns = None, beforeJobRuns = None,
     beforeJobRunsSkipIfBeforeFuncErrors = None, afterJobRunsWithError = None, afterJobRunsWithPanic = None,
     afterLockError = None, disabledLocker = False, j_locker = None\<rparr>"

definition is_context :: "implements \<Rightarrow> go_value \<Rightarrow> bool" where
  "is_context impl v = (case v of
     CtxValue _ \<Rightarrow> True | Value t n \<Rightarrow> impl t ''context.Context'' | NilValue \<Rightarrow> False)"

text \<open>The current context goes in front of the parameters of a task that asks for one and got none.\<close>

definition add_context :: "implements \<Rightarrow> go_type list \<Rightarrow> nat \<Rightarrow> ctx \<Rightarrow> go_value list \<Rightarrow> go_value list" where
  "add_context impl ins n c params =
     (if n \<noteq> 0 \<and> ins \<noteq> [] \<and> hd ins = InterfaceT ''context.Context'' then
        (case params of
           [] \<Rightarrow> [CtxValue c]
         | p # ps \<Rightarrow> if is_context impl p then params else CtxValue c # params)
      else params)"

text \<open>
  What the construction of a job takes from its surroundings. \<open>je_shut_down\<close> says that the scheduler
  is shut down just after an update has found its job.
\<close>

record job_env =
  je_parse :: parser
  je_implements :: implements
  je_func_name :: "go_value \<Rightarrow> string"
  je_new_uuid :: uuid
  je_globalJobOptions :: "JobOption list"
  je_shut_down :: bool

text \<open>
  \<open>addOrUpdateJob\<close> up to the first request: the options, the context, the checks and the setup. The
  state changes by the context that is derived, and cancelled again when a later check fails. The
  options see the clock in the scheduler's location, \<open>setup\<close> sees it as it is.
\<close>

definition build_job ::
  "job_env \<Rightarrow> env \<Rightarrow> uuid \<Rightarrow> jobDefinition \<Rightarrow> task option \<Rightarrow> JobOption list \<Rightarrow> scheduler \<Rightarrow>
     (internalJob result \<times> scheduler) option" where
  "build_job je e uid def tsk opts s =
     (let j = zero_job\<lparr>j_id := (if uid = 0 then je_new_uuid je else uid)\<rparr> in
      case tsk of
        None \<Rightarrow> Some (Inl ErrNewJobTaskNil, s)
      | Some tsk \<Rightarrow>
          (case task_function (t_function tsk) of
             None \<Rightarrow> Some (Inl ErrNewJobTaskNotFunc, s)
           | Some (ins, variadic, n) \<Rightarrow>
               let j = j\<lparr>j_name := je_func_name je (t_function tsk), j_function := t_function tsk,
                         j_parameters := t_parameters tsk\<rparr>
               in case apply_options (je_globalJobOptions je @ opts) j (s_now e s) of
                    Inl err \<Rightarrow> Some (Inl err, s)
                  | Inr j \<Rightarrow>
                      let parent = (case j_parentCtx j of None \<Rightarrow> shutdownCtx | Some p \<Rightarrow> p) in
                      case WithCancel parent s of (c, s) \<Rightarrow>
                      let params = add_context (je_implements je) ins n c (t_parameters tsk);
                          j = j\<lparr>j_parentCtx := Some parent, j_ctx := c, j_parameters := params\<rparr>
                      in case verifyParameterType (je_implements je) ins variadic params of
                           Panics \<Rightarrow> None
                         | Fails err \<Rightarrow> Some (Inl err, cancel c s)
                         | Passes \<Rightarrow>
                             (case definition_setup (je_parse je) def j (s_location s) (e_clock e) of
                                Inl err \<Rightarrow> Some (Inl err, cancel c s)
                              | Inr j \<Rightarrow> Some (Inr j, s))))"

text \<open>
  The requests: an update first removes the existing job, then the new job is handed over. Other than
  the shutdown in \<open>je_shut_down\<close>, nothing happens between the requests. After a shutdown nothing is
  received: a job is returned all the same, and the result of an update that found its job before is
  a nil job without an error (\<open>Inr None\<close>).
\<close>

definition addOrUpdateJob ::
  "job_env \<Rightarrow> env \<Rightarrow> uuid \<Rightarrow> jobDefinition \<Rightarrow> task option \<Rightarrow> JobOption list \<Rightarrow> scheduler \<Rightarrow>
     (internalJob option result \<times> scheduler) option" where
  "addOrUpdateJob je e uid def tsk opts s =
     (case build_job je e uid def tsk opts s of
        None \<Rightarrow> None
      | Some (Inl err, s) \<Rightarrow> Some (Inl err, s)
      | Some (Inr j, s) \<Rightarrow>
          if is_shutdown s then Some (Inr (Some j), notifyJobRegistered (j_id j) s)
          else
            let found = uid \<noteq> 0 \<and> (case jobs s uid of None \<Rightarrow> False | Some old \<Rightarrow> j_id old \<noteq> 0)
            in if found \<and> je_shut_down je then Some (Inr None, cancel (j_ctx j) (cancel shutdownCtx s))
               else
                 let s = (if found then selectRemoveJob uid s else s)
                 in map_option (\<lambda>s. (Inr (Some j), notifyJobRegistered (j_id j) s)) (selectNewJob e j s))"

definition NewJob ::
  "job_env \<Rightarrow> env \<Rightarrow> jobDefinition \<Rightarrow> task option \<Rightarrow> JobOption list \<Rightarrow> scheduler \<Rightarrow>
     (internalJob option result \<times> scheduler) option" where
  "NewJob je e def tsk opts s = addOrUpdateJob je e 0 def tsk opts s"

definition Update ::
  "job_env \<Rightarrow> env \<Rightarrow> uuid \<Rightarrow> jobDefinition \<Rightarrow> task option \<Rightarrow> JobOption list \<Rightarrow> scheduler \<Rightarrow>
     (internalJob option result \<times> scheduler) option" where
  "Update je e uid def tsk opts s = addOrUpdateJob je e uid def tsk opts s"

end
