(* ===== verification/JobApi.thy ===== *)
theory JobApi
  imports SchedulerFacts
begin

text \<open>
  What a caller sees of a job: the public schedules, the job handle, and the accessors that ask the
  scheduler for the stored job.
\<close>

section \<open>Public schedules\<close>

datatype JobType =
    CronJobType | DurationJobType | DurationRandomJobType | DailyJobType | WeeklyJobType | MonthlyJobType
  | OneTimeJobType

datatype JobSchedule =
    CronJobSchedule string
  | DurationJobSchedule int
  | DurationRandomJobSchedule int int
  | DailyJobSchedule "64 word" "gtime list"
  | WeeklyJobSchedule "64 word" "int list" "gtime list"
  | MonthlyJobSchedule "64 word" "int list" "int list" "gtime list"
  | OneTimeJobSchedule "gtime list"

fun schedule_JobType :: "JobSchedule \<Rightarrow> JobType" where
  "schedule_JobType (CronJobSchedule tab) = CronJobType"
| "schedule_JobType (DurationJobSchedule d) = DurationJobType"
| "schedule_JobType (DurationRandomJobSchedule mn mx) = DurationRandomJobType"
| "schedule_JobType (DailyJobSchedule i ats) = DailyJobType"
| "schedule_JobType (WeeklyJobSchedule i wds ats) = WeeklyJobType"
| "schedule_JobType (MonthlyJobSchedule i ds es ats) = MonthlyJobType"
| "schedule_JobType (OneTimeJobSchedule ts) = OneTimeJobType"

fun jobScheduleFromInternal :: "jobSchedule option \<Rightarrow> JobSchedule option" where
  "jobScheduleFromInternal (Some (Cron v)) = Some (CronJobSchedule (crontab v))"
| "jobScheduleFromInternal (Some (Duration v)) = Some (DurationJobSchedule (duration v))"
| "jobScheduleFromInternal (Some (DurationRandom v)) =
     Some (DurationRandomJobSchedule (min_duration v) (max_duration v))"
| "jobScheduleFromInternal (Some (Daily v)) = Some (DailyJobSchedule (d_interval v) (d_atTimes v))"
| "jobScheduleFromInternal (Some (Weekly v)) =
     Some (WeeklyJobSchedule (w_interval v) (w_daysOfWeek v) (w_atTimes v))"
| "jobScheduleFromInternal (Some (Monthly v)) =
     Some (MonthlyJobSchedule (m_interval v) (m_days v) (m_daysFromEnd v) (m_atTimes v))"
| "jobScheduleFromInternal (Some (OneTime v)) = Some (OneTimeJobSchedule (sortedTimes v))"
| "jobScheduleFromInternal None = None"

section \<open>The job handle\<close>

record job =
  job_ID :: uuid
  job_Name :: string
  job_Tags :: "string list"
  job_Schedule :: "JobSchedule option"

definition jobFromInternalJob :: "internalJob \<Rightarrow> job" where
  "jobFromInternalJob j = \<lparr>job_ID = j_id j, job_Name = j_name j, job_Tags = j_tags j,
     job_Schedule = jobScheduleFromInternal (j_schedule j)\<rparr>"

definition handle_ID :: "job \<Rightarrow> uuid" where
  "handle_ID j = job_ID j"

definition handle_Name :: "job \<Rightarrow> string" where
  "handle_Name j = job_Name j"

definition handle_Tags :: "job \<Rightarrow> string list" where
  "handle_Tags j = job_Tags j"

definition handle_Schedule :: "job \<Rightarrow> JobSchedule option" where
  "handle_Schedule j = job_Schedule j"

text \<open>The reply to \<open>Scheduler.Jobs\<close>; comparing the bytes of two UUIDs compares their values.\<close>

definition selectAllJobsOutRequest :: "env \<Rightarrow> scheduler \<Rightarrow> job list option" where
  "selectAllJobsOutRequest e s =
     (if is_shutdown s \<and> \<not> e_send_wins e then None
      else Some (sort_key (\<lambda>j. uint (job_ID j))
        (map jobFromInternalJob (List.map_filter (jobs s) (e_iteration e)))))"

text \<open>\<open>Scheduler.Jobs\<close>: nil where the scheduler does not reply.\<close>

definition scheduler_Jobs :: "env \<Rightarrow> scheduler \<Rightarrow> job list" where
  "scheduler_Jobs e s = (case selectAllJobsOutRequest e s of None \<Rightarrow> [] | Some js \<Rightarrow> js)"

section \<open>Accessors\<close>

text \<open>
  \<open>requestJob\<close>: no reply in time is \<open>ErrSchedulerBusy\<close>; a closed channel without a value gives the
  zero \<open>internalJob\<close>, whose nil identifier the accessors report as \<open>ErrJobNotFound\<close>.
\<close>

datatype job_reply = NoReply | Closed | Received internalJob

definition requestJob :: "job_reply \<Rightarrow> internalJob option result" where
  "requestJob r = (case r of NoReply \<Rightarrow> Inl ErrSchedulerBusy | Closed \<Rightarrow> Inr None | Received j \<Rightarrow> Inr (Some j))"

definition reply_of :: "internalJob option \<Rightarrow> job_reply" where
  "reply_of j = (case j of None \<Rightarrow> Closed | Some j \<Rightarrow> Received j)"

definition with_job :: "job_reply \<Rightarrow> (internalJob \<Rightarrow> 'a) \<Rightarrow> 'a result" where
  "with_job r f =
     (case requestJob r of
        Inl e \<Rightarrow> Inl e
      | Inr None \<Rightarrow> Inl ErrJobNotFound
      | Inr (Some j) \<Rightarrow> if j_id j = 0 then Inl ErrJobNotFound else Inr (f j))"

definition IsRunning :: "job_reply \<Rightarrow> bool result" where
  "IsRunning r = with_job r (\<lambda>ij.
     if IsZero (lastRunStartedAt ij) then False
     else After (lastRunStartedAt ij) (lastRunCompletedAt ij))"

definition LastRun :: "job_reply \<Rightarrow> gtime result" where
  "LastRun r = with_job r j_lastRun"

definition LastRunCompletedAt :: "job_reply \<Rightarrow> gtime result" where
  "LastRunCompletedAt r = with_job r lastRunCompletedAt"

definition LastRunStartedAt :: "job_reply \<Rightarrow> gtime result" where
  "LastRunStartedAt r = with_job r lastRunStartedAt"

definition NextRun :: "job_reply \<Rightarrow> gtime result" where
  "NextRun r = with_job r (\<lambda>ij. case nextScheduled ij of [] \<Rightarrow> zero_time | t # _ \<Rightarrow> t)"

text \<open>\<open>None\<close> is the panic of slicing with a negative count, or a \<open>next\<close> that does not return.\<close>

definition next_runs :: "draws \<Rightarrow> internalJob \<Rightarrow> int \<Rightarrow> gtime list option" where
  "next_runs rnd ij n =
     (let ts = nextScheduled ij in
      if ts = [] then Some []
      else if n \<le> int (length ts) then (if n < 0 then None else Some (take (nat n) ts))
      else map_option (\<lambda>more. ts @ more)
             (extend_runs (job_next rnd ij) (stopTime ij) (nat n - length ts) (last ts)))"

definition NextRuns :: "draws \<Rightarrow> job_reply \<Rightarrow> int \<Rightarrow> gtime list option result" where
  "NextRuns rnd r n = with_job r (\<lambda>ij. next_runs rnd ij n)"

text \<open>\<open>RunNow\<close> with the reply of the scheduler: none within the time limit, or the error it sent.\<close>

definition RunNow :: "bool \<Rightarrow> error option option \<Rightarrow> error option" where
  "RunNow sent reply =
     (if \<not> sent then Some ErrJobRunNowFailed
      else case reply of None \<Rightarrow> Some ErrJobRunNowFailed | Some err \<Rightarrow> err)"

text \<open>\<open>Scheduler.RemoveJob\<close> with the job that the request returned (\<open>None\<close> for no answer).\<close>

definition RemoveJob :: "env \<Rightarrow> uuid \<Rightarrow> scheduler \<Rightarrow> error option \<times> scheduler" where
  "RemoveJob e uid s =
     (if is_shutdown s then (Some ErrJobNotFound, s)
      else case selectJobOutRequest e uid s of
        None \<Rightarrow> (Some ErrJobNotFound, s)
      | Some j \<Rightarrow> if j_id j = 0 then (Some ErrJobNotFound, s) else (None, selectRemoveJob uid s))"

section \<open>Facts\<close>

lemma with_job_Inr: "with_job r f = Inr x \<longleftrightarrow> (\<exists>j. r = Received j \<and> j_id j \<noteq> 0 \<and> x = f j)"
  by (cases r) (auto simp: with_job_def requestJob_def)

lemma with_job_Inl:
  "with_job r f = Inl e \<longleftrightarrow>
     (r = NoReply \<and> e = ErrSchedulerBusy) \<or>
     ((r = Closed \<or> (\<exists>j. r = Received j \<and> j_id j = 0)) \<and> e = ErrJobNotFound)"
  by (cases r) (auto simp: with_job_def requestJob_def)

lemma next_runs_sound:
  assumes ok: "job_ok rnd j (last (nextScheduled j))" and srt: "strict_by inst (nextScheduled j)"
    and runs: "next_runs rnd j n = Some ts"
  shows "int (length ts) \<le> max n 0 \<and> strict_by inst ts \<and>
    (nextScheduled j \<noteq> [] \<longrightarrow> 0 < n \<longrightarrow> take 1 ts = take 1 (nextScheduled j)) \<and>
    (\<forall>t\<in>set ts. t \<in> set (nextScheduled j) \<or>
      run_from (job_next rnd j) (last (nextScheduled j)) t \<and> (IsZero (stopTime j) \<or> Before t (stopTime j)))"
proof (cases "nextScheduled j = []")
  case True
  then show ?thesis using runs by (simp add: next_runs_def)
next
  case False
  let ?ns = "nextScheduled j"
  show ?thesis
  proof (cases "n \<le> int (length ?ns)")
    case True
    then have ts: "ts = take (nat n) ?ns" "0 \<le> n"
      using runs False by (auto simp: next_runs_def Let_def split: if_splits)
    have "strict_by inst ts" using srt append_take_drop_id [of "nat n" ?ns] unfolding ts(1) by (metis strict_by_append)
    then show ?thesis using ts True by (auto dest: in_set_takeD)
  next
    case long: False
    then obtain more where more: "extend_runs (job_next rnd j) (stopTime j) (nat n - length ?ns) (last ?ns) = Some more"
      "ts = ?ns @ more" using runs False by (auto simp: next_runs_def Let_def)
    note ext = job_extend_runs [OF ok more(1)]
    have "inst t \<le> inst (last ?ns)" if "t \<in> set ?ns" for t
      using that False srt sorted_by_last [of inst ?ns t] by simp
    then have "strict_by inst ts" using ext srt more(2) by fastforce
    then show ?thesis using ext more(2) False long by (auto simp: take_append Suc_le_eq)
  qed
qed

end
