(* ===== verification/SchedulerTheorems.thy ===== *)
theory SchedulerTheorems
  imports NewJob JobApi
begin

text \<open>
  What the scheduler guarantees: the search for runs that are not past, the invariants of every state
  its goroutine reaches, and what rescheduling, starting, stopping and removing do.
\<close>

section \<open>Concrete states\<close>

text \<open>Jobs, surroundings and states on which the theorems are applied.\<close>

definition every :: "int \<Rightarrow> uuid \<Rightarrow> internalJob" where
  "every d uid = zero_job\<lparr>j_id := uid, j_schedule := Some (Duration \<lparr>duration = d\<rparr>)\<rparr>"

definition clock_at :: "int \<Rightarrow> uuid list \<Rightarrow> env" where
  "clock_at i uids = \<lparr>e_clock = \<lparr>inst = i, tloc = UTC\<rparr>, e_rnd = \<lambda>_ _. 0, e_iteration = uids, e_send_wins = True,
     e_exec_done = Some None\<rparr>"

definition fresh :: scheduler where
  "fresh = NewScheduler_state UTC False"

lemmas example_simps = every_def zero_job_def clock_at_def fresh_def NewScheduler_state_def store_def s_now_def In_def

lemma every_ok: "0 < d \<Longrightarrow> job_ok (e_rnd (clock_at i uids)) (every d uid) t"
  by (simp add: job_ok_def draws_ok_def example_simps)

section \<open>Catching up\<close>

text \<open>
  \<open>advancePastNow\<close> returns the first run of the schedule, from \<open>next\<close> on, that is not before now,
  and reports that there is none only when every run is before now: its guard against a schedule that
  stands still never cuts the search short.
\<close>

theorem advance_finds_first:
  assumes "job_ok rnd j next" "advancePastNow (job_next rnd j) now next = Some r"
  shows "case r of
      Some t \<Rightarrow> run_from (job_next rnd j) next t \<and> \<not> Before t now \<and>
        (\<forall>u. run_from (job_next rnd j) next u \<longrightarrow> \<not> Before u now \<longrightarrow> inst t \<le> inst u)
    | None \<Rightarrow> (\<forall>u. run_from (job_next rnd j) next u \<longrightarrow> Before u now)"
  using job_advancePastNow [OF assms] by (simp split: option.splits)

lemma every_next: "job_next rnd (every d uid) t = Some (Add t d)"
  by (simp add: job_next_def example_simps duration_next_def)

theorem advance_finds_first_witness:
  "run_from (job_next (e_rnd (clock_at 0 [])) (every 10 1)) \<lparr>inst = 5, tloc = UTC\<rparr> \<lparr>inst = 25, tloc = UTC\<rparr>"
proof -
  let ?nxt = "job_next (e_rnd (clock_at 0 [])) (every 10 1)"
  have "advancePastNow ?nxt \<lparr>inst = 20, tloc = UTC\<rparr> \<lparr>inst = 5, tloc = UTC\<rparr> = Some (Some \<lparr>inst = 25, tloc = UTC\<rparr>)"
    by (simp add: every_next advancePastNow.simps Before_def After_def IsZero_def Add_def)
  from advance_finds_first [OF _ this] every_ok [of 10] show ?thesis by simp
qed

section \<open>Every reachable state\<close>

text \<open>
  C9: In every state that the select loop reaches, each job is stored under its own identifier and its
  scheduled run times are strictly ascending, without duplicates.
\<close>

theorem jobs_stay_consistent:
  assumes "reachable s" "jobs s uid = Some j"
  shows "j_id j = uid \<and> strict_by inst (nextScheduled j)"
  using core_inv_job [OF _ assms(2)] reachable_inv [OF assms(1)] by (simp add: scheduler_inv_def job_inv_def)

lemma new_reachable: "new_job fresh j \<Longrightarrow> selectNewJob e j fresh = Some s \<Longrightarrow> reachable s"
  using reachable.created reachable.stepped select_step.new unfolding fresh_def by blast

lemma one_job_reachable: "reachable (send (NewJobDone 1) (store 1 (every 10 1) fresh))"
  by (rule new_reachable [of "every 10 1" "clock_at 0 []"])
    (simp_all add: new_job_def selectNewJob_def example_simps)

theorem jobs_stay_consistent_witness:
  "strict_by inst (nextScheduled (every 10 1))"
  using jobs_stay_consistent [OF one_job_reachable, of 1 "every 10 1"] by simp


lemma started_reachable: "reachable (send SchedulerStartedSignal ((send ExecutorStart fresh)\<lparr>started := True\<rparr>))"
proof -
  have "select_step fresh (send SchedulerStartedSignal ((send ExecutorStart fresh)\<lparr>started := True\<rparr>))"
    by (rule select_step.start [of _ "clock_at 0 []"])
      (simp_all add: fresh_def NewScheduler_state_def clock_at_def iterates_def selectStart_def send_def
        is_shutdown_def shutdownCtx_def)
  then show ?thesis using reachable.created reachable.stepped unfolding fresh_def by blast
qed

text \<open>A started scheduler with one job, whose first run is at instant 15.\<close>

lemma every_prepared:
  assumes "0 < d" "0 < i"
  shows "prepareFirstRun (clock_at i uids) (every d uid) s =
    Some (arm_first (clock_at i uids) (every d uid) (Add (s_now (clock_at i uids) s) d) s)"
proof -
  let ?now = "s_now (clock_at i uids) s"
  have "\<not> IsZero (Add ?now d)" "\<not> Before (Add ?now d) ?now"
    using assms by (simp_all add: IsZero_def Before_def s_now_def clock_at_def)
  moreover have "\<not> startImmediately (every d uid)" "IsZero (startTime (every d uid))"
    by (simp_all add: every_def zero_job_def)
  ultimately show ?thesis by (simp add: prepareFirstRun_def every_next)
qed

definition armed_job :: internalJob where
  "armed_job = started_at \<lparr>inst = 15, tloc = UTC\<rparr> (every 10 1\<lparr>j_timer := Some 0\<rparr>)"

definition one_timer :: scheduler where
  "one_timer = send (NewJobDone 1) (store 1 armed_job (snd (AfterFunc (clock_at 5 []) 1 10
     (send SchedulerStartedSignal ((send ExecutorStart fresh)\<lparr>started := True\<rparr>)))))"

lemma one_timer_simps [simp]:
  "jobs one_timer = [1 \<mapsto> armed_job]" "timers one_timer = [0 \<mapsto> \<lparr>timer_job = 1, fires_at = 15\<rparr>]"
  "started one_timer" "cancelled one_timer = {}" "s_location one_timer = UTC"
  by (simp_all add: one_timer_def send_def AfterFunc_def example_simps)

lemma armed_job_simps [simp]:
  "j_id armed_job = 1" "j_timer armed_job = Some 0" "nextScheduled armed_job = [\<lparr>inst = 15, tloc = UTC\<rparr>]"
  "j_schedule armed_job = Some (Duration \<lparr>duration = 10\<rparr>)" "stopTime armed_job = zero_time"
  "intervalFromCompletion armed_job = False" "j_ctx armed_job = Background" "j_tags armed_job = []"
  "j_parentCtx armed_job = None" "j_limitRunsTo armed_job = None" "startImmediately armed_job = False"
  by (simp_all add: armed_job_def started_at_def insertNextScheduled_Nil every_def zero_job_def)

lemma one_timer_live [simp]: "\<not> is_shutdown one_timer"
  by (simp add: is_shutdown_def shutdownCtx_def)

lemma timer_reachable: "reachable one_timer"
proof -
  let ?s1 = "send SchedulerStartedSignal ((send ExecutorStart fresh)\<lparr>started := True\<rparr>)"
  have "arm_first (clock_at 5 []) (every 10 1) (Add (s_now (clock_at 5 []) ?s1) 10) ?s1 =
      (armed_job, False, snd (AfterFunc (clock_at 5 []) 1 10 ?s1))"
    by (simp add: arm_first_def armed_job_def past_stop_def AfterFunc_def Sub_def example_simps send_def Add_def)
  moreover have "started ?s1" by (simp add: send_def)
  ultimately have "selectNewJob (clock_at 5 []) (every 10 1) ?s1 = Some one_timer"
    by (simp add: selectNewJob_def every_prepared one_timer_def)
  moreover have "new_job ?s1 (every 10 1)" by (simp add: new_job_def example_simps send_def)
  ultimately show ?thesis using started_reachable reachable.stepped select_step.new by blast
qed


text \<open>
  In every state that the select loop reaches, at most one timer is pending for a job.
\<close>

theorem one_timer_per_job:
  assumes "reachable s" "timers s n = Some t" "timers s m = Some u" "timer_job t = timer_job u"
  shows "n = m"
  using core_invD(3) [OF _ assms(2)] core_invD(3) [OF _ assms(3)] reachable_inv [OF assms(1)] assms(4)
  by (auto simp: scheduler_inv_def timer_inv_def)

theorem one_timer_per_job_witness:
  "{n. \<exists>t. timers one_timer n = Some t \<and> timer_job t = 1} = {0}"
proof -
  have "n = 0" if "timers one_timer n = Some t" "timer_job t = 1" for n t
    using one_timer_per_job [OF timer_reachable that(1), of 0 "\<lparr>timer_job = 1, fires_at = 15\<rparr>"] that(2) by simp
  moreover have "timers one_timer 0 = Some \<lparr>timer_job = 1, fires_at = 15\<rparr>" by simp
  ultimately show ?thesis by (intro equalityI subsetI) (blast, force)
qed

section \<open>Rescheduling\<close>



section \<open>Start, stop and new jobs\<close>

lemma start_no_timers: "reachable s \<Longrightarrow> \<not> started s \<Longrightarrow> timers s = Map.empty"
  using reachable_inv [of s] by (simp add: scheduler_inv_def)

lemma first_run_prepared_send: "first_run_prepared e s uid j \<Longrightarrow> first_run_prepared e (send m s) uid j"
  by (auto simp: first_run_prepared_def s_now_def send_def)

text \<open>
  After a start every registered job has exactly one scheduled run, and either that run is now and
  was handed to the executor, or a timer is pending for it that fires at that time, not in the past and
  before the stop time.
\<close>

theorem start_prepares_every_job:
  assumes "reachable s" "\<not> started s" "iterates e s" "selectStart e s = Some s'" "\<not> is_shutdown s'"
    "jobs s' uid = Some j"
  shows "started s' \<and> jobs s uid \<noteq> None \<and> first_run_prepared e s' uid j"
proof -
  let ?s = "(send ExecutorStart s)\<lparr>started := True\<rparr>"
  obtain s1 where s1: "start_loop e (e_iteration e) ?s = Some s1" "s' = s1 \<or> s' = send SchedulerStartedSignal s1"
    using assms(4) by (auto simp: selectStart_def split: if_splits)
  have inv: "core_inv ?s"
    using reachable_inv [OF assms(1)] core_inv_cong [of ?s s] by (simp add: scheduler_inv_def send_def)
  have none: "timers ?s = Map.empty" using start_no_timers [OF assms(1,2)] by (simp add: send_def)
  have live: "\<not> is_shutdown s1" and job: "jobs s1 uid = Some j"
    using s1(2) assms(5,6) by (auto simp: is_shutdown_def send_def)
  have prep: "start_frame (e_iteration e) ?s s1 \<and>
      (\<forall>uid\<in>set (e_iteration e). \<forall>j. jobs s1 uid = Some j \<longrightarrow> first_run_prepared e s1 uid j)"
    by (rule start_loop_prepares [OF s1(1) inv _ _ live]) (use none assms(3) in \<open>simp_all add: iterates_def\<close>)
  have uid: "uid \<in> dom (jobs s)"
  proof (rule ccontr)
    assume "uid \<notin> dom (jobs s)"
    then have "jobs s1 uid = jobs s uid" using prep assms(3) by (simp add: start_frame_def iterates_def send_def)
    then show False using job \<open>uid \<notin> dom (jobs s)\<close> by (simp add: domIff)
  qed
  then have "first_run_prepared e s1 uid j" using prep job assms(3) by (simp add: iterates_def)
  moreover have "started s1" using started_start_loop [OF s1(1)] by simp
  ultimately show ?thesis using s1(2) uid first_run_prepared_send by (auto simp: send_def)
qed

text \<open>The state with one job before it starts, and what a start at instant 5 makes of it.\<close>

definition one_job :: scheduler where
  "one_job = send (NewJobDone 1) (store 1 (every 10 1) fresh)"

lemma one_job_simps [simp]: "jobs one_job = [1 \<mapsto> every 10 1]" "\<not> started one_job" "cancelled one_job = {}"
  by (simp_all add: one_job_def send_def example_simps)

lemma clock_at_simps [simp]: "e_iteration (clock_at i uids) = uids" "inst (e_clock (clock_at i uids)) = i"
  by (simp_all add: clock_at_def)

lemma one_job_starts:
  obtains s' where "selectStart (clock_at 5 [1]) one_job = Some s'" "\<not> is_shutdown s'" "jobs s' 1 \<noteq> None"
proof -
  let ?s = "(send ExecutorStart one_job)\<lparr>started := True\<rparr>"
  have every: "(every 10 1)\<lparr>nextScheduled := []\<rparr> = every 10 1" "jobs ?s 1 = Some (every 10 1)"
    by (simp_all add: every_def zero_job_def send_def)
  have "\<exists>j s1. arm_first (clock_at 5 [1]) (every 10 1) (Add (s_now (clock_at 5 [1]) ?s) 10) ?s = (j, False, s1) \<and>
      cancelled s1 = {}"
    by (simp add: arm_first_def past_stop_def AfterFunc_def send_def every_def zero_job_def)
  then obtain j s1 where "start_loop (clock_at 5 [1]) [1] ?s = Some (store 1 j s1)" "cancelled s1 = {}"
    using every_prepared [of 10 5 "[1]" 1 ?s] every by auto
  then show thesis
    by (intro that [of "if is_shutdown (store 1 j s1) \<and> \<not> e_send_wins (clock_at 5 [1]) then store 1 j s1
        else send SchedulerStartedSignal (store 1 j s1)"])
      (simp_all add: selectStart_def is_shutdown_def shutdownCtx_def send_def store_def)
qed

lemma one_job_reaches: "reachable one_job"
  using one_job_reachable by (simp add: one_job_def)

theorem start_prepares_every_job_witness:
  "\<exists>s' j. selectStart (clock_at 5 [1]) one_job = Some s' \<and> jobs s' 1 = Some j \<and> first_run_prepared (clock_at 5 [1]) s' 1 j"
proof -
  obtain s' j where s': "selectStart (clock_at 5 [1]) one_job = Some s'" "\<not> is_shutdown s'" "jobs s' 1 = Some j"
    using one_job_starts by (metis not_None_eq)
  then show ?thesis
    using start_prepares_every_job [OF one_job_reaches _ _ s'] by (auto simp: iterates_def)
qed

lemma stop_effect:
  assumes "reachable s" "iterates e s" "stopScheduler e s = Some s'"
  shows "\<not> started s' \<and> timers s' = Map.empty \<and> dom (jobs s') = dom (jobs s) \<and>
    (\<forall>uid j. jobs s uid = Some j \<longrightarrow> j_ctx j \<in> cancelled s' \<and>
      (\<exists>n\<ge>fresh_ctx s. jobs s' uid = Some (refreshed j (Derived n (parent_ctx j)))))"
proof -
  let ?s = "if started s then send ExecutorStop s else s"
  let ?t = "stop_loop (e_iteration e) ?s"
  let ?r = "refresh_loop (e_iteration e) ?t"
  have s': "jobs s' = jobs ?r" "cancelled s' = cancelled ?r" "\<not> started s'"
    using assms(3) by (auto simp: stopScheduler_def Let_def notifySchedulerStopped_def send_def split: option.splits if_splits)
  have jobs_t: "jobs ?t = jobs s" "fresh_ctx ?t = fresh_ctx s"
    by (simp_all add: stop_loop_frame stop_loop_ctx)
  have "timers s' = Map.empty"
    using scheduler_inv_stop(2) [OF reachable_inv [OF assms(1)] _ assms(3)] assms(2) by (simp add: iterates_def)
  moreover have each: "j_ctx j \<in> cancelled s' \<and> (\<exists>n\<ge>fresh_ctx s. jobs s' uid = Some (refreshed j (Derived n (parent_ctx j))))"
    if j: "jobs s uid = Some j" for uid j
  proof -
    have "uid \<in> set (e_iteration e)" "distinct (e_iteration e)" using j assms(2) by (auto simp: iterates_def)
    then show ?thesis
      using stop_loop_cancels(1) [of uid "e_iteration e" ?s j] refresh_loop_jobs [of "e_iteration e" ?t uid j] j jobs_t
      by (simp add: s' refresh_loop_cancelled)
  qed
  moreover have "dom (jobs s') = dom (jobs s)"
  proof
    have "jobs s uid = None \<Longrightarrow> jobs s' uid = None" for uid
      using refresh_loop_None [of ?t uid "e_iteration e"] jobs_t by (simp add: s')
    then show "dom (jobs s') \<subseteq> dom (jobs s)" by (metis domIff subsetI)
    show "dom (jobs s) \<subseteq> dom (jobs s')" using each by blast
  qed
  ultimately show ?thesis using s'(3) by blast
qed


lemma stopErrCh_loops: "stopErrCh (refresh_loop uids s) = stopErrCh s" "stopErrCh (stop_loop uids s) = stopErrCh s"
  by (induction uids arbitrary: s)
    (simp_all add: refresh_context_eq job_stop_def cancel_def timer_Stop_def store_def split: option.split)

lemma stop_returns:
  assumes "stopErrCh s = None"
  obtains s' where "stopScheduler e s = Some s'"
proof -
  have "\<exists>s'. stopScheduler e s = Some s'"
    using assms stopErrCh_loops by (auto simp: stopScheduler_def Let_def send_def split: option.split)
  then show thesis using that by blast
qed


text \<open>
  A job that is new to a started scheduler is either dropped or has its first run prepared: exactly one
  scheduled run, handed to the executor now or with a timer pending for it. No other job changes.
\<close>

theorem new_job_prepared:
  assumes "reachable s" "started s" "\<not> is_shutdown s" "new_job s j" "selectNewJob e j s = Some s'"
  shows "(jobs s' = jobs s \<or> (\<exists>j'. jobs s' = (jobs s)(j_id j \<mapsto> j') \<and> first_run_prepared e s' (j_id j) j'))"
proof -
  have j: "j\<lparr>nextScheduled := []\<rparr> = j" "jobs s (j_id j) = None" using assms(4) by (simp_all add: new_job_def)
  obtain j' dropped s1 where prep: "prepareFirstRun e j s = Some (j', dropped, s1)"
    using assms(2,5) by (auto simp: selectNewJob_def split: option.splits)
  note facts = prepareFirstRun_prepared [of e j s j' dropped s1, unfolded j(1), OF prep assms(3) refl]
  have same: "j_id j' = j_id j" "jobs s1 = jobs s"
    using prepareFirstRun_frame [OF prep] by simp_all
  show ?thesis
  proof (cases dropped)
    case True
    then have "jobs s' = (jobs s)(j_id j := None)"
      using assms(2,5) prep same by (auto simp: selectNewJob_def selectRemoveJob_frame)
    then show ?thesis using j(2) by (simp add: fun_upd_idem)
  next
    case False
    then have "s' = send (NewJobDone (j_id j)) (store (j_id j) j' s1)" using assms(2,5) prep same by (simp add: selectNewJob_def)
    moreover have "first_run_prepared e (store (j_id j) j' s1) (j_id j) j'"
      using facts False first_run_prepared_frame [of e s1 "j_id j" j' "[]" "store (j_id j) j' s1"] by simp
    ultimately show ?thesis using first_run_prepared_send same by auto
  qed
qed

theorem new_job_prepared_witness:
  "\<exists>s'. selectNewJob (clock_at 5 []) (every 10 2) one_timer = Some s' \<and>
     (jobs s' = jobs one_timer \<or> (\<exists>j'. jobs s' = (jobs one_timer)(2 \<mapsto> j') \<and> first_run_prepared (clock_at 5 []) s' 2 j'))"
proof -
  have new: "new_job one_timer (every 10 2)" by (simp add: new_job_def every_def zero_job_def)
  obtain j b s where "arm_first (clock_at 5 []) (every 10 2) (Add (s_now (clock_at 5 []) one_timer) 10) one_timer = (j, b, s)"
    by (rule prod_cases3)
  then have "selectNewJob (clock_at 5 []) (every 10 2) one_timer \<noteq> None" by (simp add: selectNewJob_def every_prepared)
  then obtain s' where s': "selectNewJob (clock_at 5 []) (every 10 2) one_timer = Some s'" by blast
  from new_job_prepared [OF timer_reachable _ _ new s'] s' show ?thesis by (simp add: every_def)
qed

section \<open>Removal and completed runs\<close>

text \<open>
  Removing a job deletes it, cancels its context and stops its timer; every other job and every other
  pending timer stays as it is.
\<close>

theorem removal_is_exact:
  assumes "reachable s" "jobs s uid = Some j"
  shows "jobs (selectRemoveJob uid s) = (jobs s)(uid := None) \<and> j_ctx j \<in> cancelled (selectRemoveJob uid s) \<and>
    (\<forall>n t. timers (selectRemoveJob uid s) n = Some t \<longleftrightarrow> timers s n = Some t \<and> timer_job t \<noteq> uid)"
proof -
  have inv: "core_inv s" using reachable_inv [OF assms(1)] by (simp add: scheduler_inv_def)
  have "timer_job t \<noteq> uid" if "timers (selectRemoveJob uid s) n = Some t" for n t
    using core_invD(3) [OF core_inv_selectRemoveJob [OF inv] that] by (auto simp: timer_inv_def selectRemoveJob_frame)
  moreover have "timers s n = Some t" if "timers (selectRemoveJob uid s) n = Some t" for n t
    using that assms(2) by (simp add: selectRemoveJob_def timers_timer_Stop split: if_splits)
  moreover have "j_ctx j \<in> cancelled (selectRemoveJob uid s)" using assms(2) by (simp add: selectRemoveJob_def)
  ultimately show ?thesis using selectRemoveJob_timers [OF inv] selectRemoveJob_frame(3) by blast
qed

theorem removal_is_exact_witness:
  "jobs (selectRemoveJob 1 one_timer) = Map.empty \<and> timers (selectRemoveJob 1 one_timer) 0 = None"
proof -
  from removal_is_exact [OF timer_reachable, of 1 armed_job]
  have "jobs (selectRemoveJob 1 one_timer) = [1 \<mapsto> armed_job](1 := None)"
    "timers (selectRemoveJob 1 one_timer) 0 \<noteq> Some \<lparr>timer_job = 1, fires_at = 15\<rparr>"
    "\<And>t. timers (selectRemoveJob 1 one_timer) 0 = Some t \<Longrightarrow> t = \<lparr>timer_job = 1, fires_at = 15\<rparr>"
    by auto
  then show ?thesis by (cases "timers (selectRemoveJob 1 one_timer) 0") auto
qed

text \<open>
  \<open>RemoveByTags\<close> removes just the jobs that have one of the tags.
\<close>

theorem tags_remove_exactly:
  assumes "reachable s" "iterates e s"
  shows "jobs (selectRemoveJobsByTags e tags s) uid =
    (case jobs s uid of
       Some j \<Rightarrow> if set tags \<inter> set (j_tags j) \<noteq> {} then None else Some j
     | None \<Rightarrow> None)"
proof -
  have ids: "jobs s uid = Some j \<Longrightarrow> j_id j = uid" for uid j
    using core_inv_job reachable_inv [OF assms(1)] by (auto simp: scheduler_inv_def job_inv_def)
  have "uid \<in> set (e_iteration e) \<longleftrightarrow> jobs s uid \<noteq> None" for uid using assms(2) by (auto simp: iterates_def)
  then show ?thesis
    by (simp add: selectRemoveJobsByTags_def removeByTags_jobs [OF ids] has_tag_def split: option.split)
qed

theorem tags_remove_exactly_witness:
  "jobs (selectRemoveJobsByTags (clock_at 0 [1]) [''report''] one_timer) 1 = Some armed_job"
proof -
  have "iterates (clock_at 0 [1]) one_timer" by (simp add: iterates_def)
  then show ?thesis by (simp add: tags_remove_exactly [OF timer_reachable])
qed

text \<open>
  A completed run of a job with a run limit uses up one of its runs and a skipped one none; with the
  report of the time it completed the job is scheduled for removal just when the limit is reached.
\<close>

theorem limited_runs_are_counted:
  assumes "jobs s uid = Some j" "j_limitRunsTo j = Some l" "\<not> IsZero completedAt"
  shows "\<exists>j'. jobs (selectJobTimingUpdate uid startedAt completedAt (selectExecJobsOutCompleted e uid skipped s)) uid = Some j' \<and>
      j_limitRunsTo j' = Some (l\<lparr>runCount := runCount l + (if skipped then 0 else 1)\<rparr>) \<and>
      lastRunCompletedAt j' = completedAt \<and>
      outbox (selectJobTimingUpdate uid startedAt completedAt (selectExecJobsOutCompleted e uid skipped s)) =
        outbox s @ (if run_limit l \<le> runCount l + (if skipped then 0 else 1) then [RemoveJobLater uid] else [])"
  using assms by (simp add: selectExecJobsOutCompleted_def selectJobTimingUpdate_def Let_def pruneStaleScheduled_def)

theorem limited_runs_are_counted_witness:
  "let j = every 10 1\<lparr>j_limitRunsTo := Some \<lparr>run_limit = 3, runCount = 2\<rparr>\<rparr>; s = store 1 j fresh
   in RemoveJobLater 1 \<in> set (outbox (selectJobTimingUpdate 1 \<lparr>inst = 1, tloc = UTC\<rparr> \<lparr>inst = 2, tloc = UTC\<rparr>
        (selectExecJobsOutCompleted (clock_at 0 []) 1 False s)))"
  using limited_runs_are_counted [of "store 1 (every 10 1\<lparr>j_limitRunsTo := Some \<lparr>run_limit = 3, runCount = 2\<rparr>\<rparr>) fresh" 1
    "every 10 1\<lparr>j_limitRunsTo := Some \<lparr>run_limit = 3, runCount = 2\<rparr>\<rparr>" "\<lparr>run_limit = 3, runCount = 2\<rparr>" "\<lparr>inst = 2, tloc = UTC\<rparr>"
    "\<lparr>inst = 1, tloc = UTC\<rparr>" "clock_at 0 []" False]
  by (auto simp: Let_def IsZero_def)

text \<open>
  A start time that has passed fires the job now when it is within the grace period, and otherwise moves
  to the first run of the schedule that is not past; the job is dropped only when every run is past.
\<close>

theorem past_start_moves_to_first_run:
  assumes "Before next now" "job_ok rnd j next" "firstRunOrGrace rnd now j next = Some (t, action)"
  shows "if 0 < startAtGrace j \<and> inst now - inst next \<le> startAtGrace j then t = now \<and> action = firstRunFireNow
    else if \<exists>u. run_from (job_next rnd j) next u \<and> \<not> Before u now then
      action = firstRunSchedule \<and> run_from (job_next rnd j) next t \<and> \<not> Before t now \<and>
      (\<forall>u. run_from (job_next rnd j) next u \<longrightarrow> \<not> Before u now \<longrightarrow> inst t \<le> inst u)
    else action = firstRunDrop"
proof (cases "0 < startAtGrace j \<and> inst now - inst next \<le> startAtGrace j")
  case True
  then show ?thesis using assms(1,3) by (simp add: firstRunOrGrace_def Sub_def)
next
  case False
  then obtain r where r: "advancePastNow (job_next rnd j) now next = Some r"
    using assms(1,3) by (auto simp: firstRunOrGrace_def Sub_def split: if_splits option.splits)
  then show ?thesis
    using False assms(1,3) job_advancePastNow [OF assms(2) r] by (auto simp: firstRunOrGrace_def Sub_def split: option.splits)
qed

theorem past_start_moves_to_first_run_witness:
  "firstRunOrGrace (e_rnd (clock_at 0 [])) \<lparr>inst = 20, tloc = UTC\<rparr> (every 10 1) \<lparr>inst = 5, tloc = UTC\<rparr> =
     Some (\<lparr>inst = 25, tloc = UTC\<rparr>, firstRunSchedule) \<and>
   run_from (job_next (e_rnd (clock_at 0 [])) (every 10 1)) \<lparr>inst = 5, tloc = UTC\<rparr> \<lparr>inst = 25, tloc = UTC\<rparr>"
proof -
  have eq: "firstRunOrGrace (e_rnd (clock_at 0 [])) \<lparr>inst = 20, tloc = UTC\<rparr> (every 10 1) \<lparr>inst = 5, tloc = UTC\<rparr> =
     Some (\<lparr>inst = 25, tloc = UTC\<rparr>, firstRunSchedule)"
    by (simp add: firstRunOrGrace_def every_next advancePastNow.simps Before_def After_def IsZero_def Add_def)
      (simp add: every_def zero_job_def)
  from past_start_moves_to_first_run [OF _ every_ok eq] eq show ?thesis
    by (auto simp: Before_def every_def zero_job_def split: if_splits)
qed

section \<open>Identifiers used twice\<close>

text \<open>
  \<open>NewJob\<close> with the identifier of a job that the scheduler holds replaces that job without stopping it. The old
  timer stays pending, no job knows it any more, and removing the job does not stop it either: it will fire
  and dispatch the new job a second time.
\<close>

theorem duplicate_identifier_orphans_timer:
  assumes "reachable s" "timers s n = Some t" "j_id j = timer_job t" "nextScheduled j = []" "j_timer j = None"
    and "selectNewJob e j s = Some s'"
  shows "timers s' n = Some t \<and> (\<forall>uid k. jobs s' uid = Some k \<longrightarrow> j_timer k \<noteq> Some n) \<and>
    timers (selectRemoveJob (timer_job t) s') n = Some t"
proof -
  have inv: "core_inv s" "started s" using reachable_inv [OF assms(1)] assms(2) by (auto simp: scheduler_inv_def)
  obtain k where k: "n < fresh_timer s" "jobs s (timer_job t) = Some k" "j_timer k = Some n"
    using core_invD(3) [OF inv(1) assms(2)] by (auto simp: timer_inv_def)
  have own: "uid = timer_job t" if "jobs s uid = Some i" "j_timer i = Some n" for uid i
    using ownsD [OF core_invD(4) [OF inv(1) k(2,3)] that] .
  obtain j' dropped s1 where prep: "prepareFirstRun e j s = Some (j', dropped, s1)"
    and s': "s' = (let s2 = send (NewJobDone (j_id j')) (store (j_id j') j' s1) in if dropped then selectRemoveJob (j_id j') s2 else s2)"
    using assms(6) inv(2) by (auto simp: selectNewJob_def Let_def split: option.splits if_splits)
  note frame = prepareFirstRun_frame(1,2) [OF prep] prepareFirstRun_timers [OF prep inv(1) assms(2)]
  have new: "j_timer j' \<noteq> Some n"
    using prep assms(5) k(1) by (cases rule: prepareFirstRun_cases) (auto simp: AfterFunc_simps)
  then show ?thesis
    using frame assms(3) own unfolding s' Let_def
    by (auto simp: selectRemoveJob_def timers_timer_Stop)
qed

theorem duplicate_identifier_orphans_timer_witness:
  "\<exists>s'. selectNewJob (clock_at 7 []) (every 10 1) one_timer = Some s' \<and> timers s' 0 = Some \<lparr>timer_job = 1, fires_at = 15\<rparr>"
proof -
  let ?e = "clock_at 7 []"
  have "prepareFirstRun ?e (every 10 1) one_timer = Some (arm_first ?e (every 10 1) (Add (s_now ?e one_timer) 10) one_timer)"
    by (rule every_prepared) simp_all
  then have "\<exists>s'. selectNewJob ?e (every 10 1) one_timer = Some s'" by (auto simp: selectNewJob_def split: prod.split)
  then obtain s' where s': "selectNewJob ?e (every 10 1) one_timer = Some s'" by blast
  have "timers one_timer 0 = Some \<lparr>timer_job = 1, fires_at = 15\<rparr>" by simp
  from duplicate_identifier_orphans_timer [OF timer_reachable this _ _ _ s'] show ?thesis
    using s' by (simp add: every_def zero_job_def)
qed

end
