(* ===== verification/Executor.thy ===== *)
theory Executor
  imports NewJob
begin

text \<open>
  One run of a job as executor.go performs it: \<open>runJob\<close> with its elector, lockers and listeners, the call
  of the task with its recovery from a panic, and the messages it sends to the scheduler and the
  monitors, in order. A run is the list of what it did with its result, \<open>None\<close> when a panic ends it.
\<close>

section \<open>Data\<close>

datatype JobStatus = Fail | Success | Skip | SingletonRescheduled

record jobIn =
  in_id :: uuid
  shouldSendOut :: bool

text \<open>The configuration of the executor that a run looks at; monitors only as far as they are set.\<close>

record executor =
  x_elector :: bool
  x_locker :: "handle option"
  x_monitor :: bool
  x_monitorStatus :: bool
  x_schedulerMonitor :: bool

datatype listener =
    OnLockError error
  | OnBefore
  | OnBeforeSkip
  | OnAfter
  | OnAfterError error
  | OnPanic

datatype event =
    OutForRescheduling uuid
  | OutForNextRunUpdate uuid
  | OutCompleted uuid bool
  | OutTiming uuid gtime gtime
  | AskLeader
  | TakeLock handle string
  | ReleaseLock handle
  | CallListener handle listener
  | CallTask
  | IncrementJob JobStatus
  | RecordJobTiming gtime gtime
  | RecordJobTimingWithStatus gtime gtime JobStatus "error option"
  | JobStarted
  | JobSchedulingDelay "gtime option" gtime
  | JobRunning
  | JobFailed error
  | JobCompleted
  | JobExecutionTime int
  | ConcurrencyLimitReached string uuid

text \<open>
  What a run meets: whether a context is done when it begins, the readings of the clock, whether the
  scheduler receives a message or the cancelled executor gives up on it, the answers of elector and
  locker, what a listener returns (\<open>None\<close> for a panic), what the task does, and the value of its panic
  as text.
\<close>

record world =
  w_cancelled :: bool
  w_now :: "nat \<Rightarrow> gtime"
  w_receives :: "event \<Rightarrow> bool"
  w_leader :: "error option"
  w_lock :: "error option"
  w_listener :: "listener \<Rightarrow> error option option"
  w_call :: task_call
  w_recovered :: string

section \<open>Sequencing\<close>

type_synonym 'a run = "event list \<times> 'a option"

definition run_return :: "'a \<Rightarrow> 'a run" where
  "run_return x = ([], Some x)"

definition run_bind :: "'a run \<Rightarrow> ('a \<Rightarrow> 'b run) \<Rightarrow> 'b run" where
  "run_bind m f = (case m of
     (es, None) \<Rightarrow> (es, None)
   | (es, Some x) \<Rightarrow> (case f x of (fs, r) \<Rightarrow> (es @ fs, r)))"

definition emit :: "event list \<Rightarrow> unit run" where
  "emit es = (es, Some ())"

definition emit_if :: "bool \<Rightarrow> event list \<Rightarrow> unit run" where
  "emit_if b es = (if b then emit es else run_return ())"

text \<open>A select between a send to the scheduler and the executor's context.\<close>

definition send_or_done :: "world \<Rightarrow> event \<Rightarrow> unit run" where
  "send_or_done w ev = emit_if (w_receives w ev) [ev]"

definition call_listener :: "world \<Rightarrow> handle option \<Rightarrow> listener \<Rightarrow> error option run" where
  "call_listener w f l = (case f of None \<Rightarrow> run_return None | Some h \<Rightarrow> ([CallListener h l], w_listener w l))"

text \<open>A deferred unlock happens at the end of the run, also when a panic ends it.\<close>

definition deferring :: "event \<Rightarrow> 'a run \<Rightarrow> 'a run" where
  "deferring ev m = (fst m @ [ev], snd m)"

section \<open>Steps of a run\<close>

text \<open>When the executor's context is done first, \<open>shouldSendOut\<close> stays as it is.\<close>

definition sendOutForRescheduling :: "world \<Rightarrow> jobIn \<Rightarrow> jobIn run" where
  "sendOutForRescheduling w jIn =
     (if shouldSendOut jIn then
        if w_receives w (OutForRescheduling (in_id jIn)) then
          ([OutForRescheduling (in_id jIn)], Some (jIn\<lparr>shouldSendOut := False\<rparr>))
        else ([], Some jIn)
      else ([], Some (jIn\<lparr>shouldSendOut := False\<rparr>)))"

definition sendOutForNextRunUpdate :: "world \<Rightarrow> jobIn \<Rightarrow> unit run" where
  "sendOutForNextRunUpdate w jIn = send_or_done w (OutForNextRunUpdate (in_id jIn))"

definition incrementJobCounter :: "executor \<Rightarrow> JobStatus \<Rightarrow> unit run" where
  "incrementJobCounter x status = emit_if (x_monitor x) [IncrementJob status]"

definition recordJobTiming :: "executor \<Rightarrow> gtime \<Rightarrow> gtime \<Rightarrow> unit run" where
  "recordJobTiming x start end_time = emit_if (x_monitor x) [RecordJobTiming start end_time]"

definition recordJobTimingWithStatus ::
  "executor \<Rightarrow> gtime \<Rightarrow> gtime \<Rightarrow> JobStatus \<Rightarrow> error option \<Rightarrow> unit run" where
  "recordJobTimingWithStatus x start end_time status err =
     emit_if (x_monitorStatus x) [RecordJobTimingWithStatus start end_time status err]"

text \<open>The calls of the scheduler's monitor; each does nothing when none is set.\<close>

definition notifyJobStarted :: "executor \<Rightarrow> unit run" where
  [simp]: "notifyJobStarted x = emit_if (x_schedulerMonitor x) [JobStarted]"

definition notifyJobSchedulingDelay :: "executor \<Rightarrow> gtime option \<Rightarrow> gtime \<Rightarrow> unit run" where
  [simp]: "notifyJobSchedulingDelay x scheduledTime actualStartTime =
     emit_if (x_schedulerMonitor x) [JobSchedulingDelay scheduledTime actualStartTime]"

definition notifyJobRunning :: "executor \<Rightarrow> unit run" where
  [simp]: "notifyJobRunning x = emit_if (x_schedulerMonitor x) [JobRunning]"

definition notifyJobCompleted :: "executor \<Rightarrow> unit run" where
  [simp]: "notifyJobCompleted x = emit_if (x_schedulerMonitor x) [JobCompleted]"

definition notifyJobFailed :: "executor \<Rightarrow> error \<Rightarrow> unit run" where
  [simp]: "notifyJobFailed x err = emit_if (x_schedulerMonitor x) [JobFailed err]"

definition notifyJobExecutionTime :: "executor \<Rightarrow> int \<Rightarrow> unit run" where
  [simp]: "notifyJobExecutionTime x d = emit_if (x_schedulerMonitor x) [JobExecutionTime d]"

definition notifyConcurrencyLimitReached :: "executor \<Rightarrow> string \<Rightarrow> uuid \<Rightarrow> unit run" where
  [simp]: "notifyConcurrencyLimitReached x limitType uid = emit_if (x_schedulerMonitor x) [ConcurrencyLimitReached limitType uid]"

definition callJobWithRecover :: "world \<Rightarrow> internalJob \<Rightarrow> error option run" where
  "callJobWithRecover w j =
     run_bind (emit [CallTask]) (\<lambda>_.
     case callJobFuncWithParams (w_call w) (j_function j) (j_parameters j) of
       Some err \<Rightarrow> run_return err
     | None \<Rightarrow>
         run_bind (call_listener w (afterJobRunsWithPanic j) OnPanic) (\<lambda>_.
         run_return (Some (Wrapped ErrPanicRecovered (w_recovered w)))))"

text \<open>The call of the task: a panic is recovered only for a job with a listener for panics.\<close>

definition call_task :: "world \<Rightarrow> internalJob \<Rightarrow> error option run" where
  "call_task w j =
     (if afterJobRunsWithPanic j \<noteq> None then callJobWithRecover w j
      else ([CallTask], callJobFuncWithParams (w_call w) (j_function j) (j_parameters j)))"

text \<open>A run that is not to take place here: it is rescheduled and counted as skipped.\<close>

definition skip_run :: "world \<Rightarrow> executor \<Rightarrow> jobIn \<Rightarrow> unit run" where
  "skip_run w x jIn =
     run_bind (sendOutForRescheduling w jIn) (\<lambda>jIn.
     run_bind (incrementJobCounter x Skip) (\<lambda>_.
     sendOutForNextRunUpdate w jIn))"

text \<open>What follows the task: its outcome goes to listener, monitors and scheduler.\<close>

definition finish_run :: "world \<Rightarrow> executor \<Rightarrow> internalJob \<Rightarrow> gtime \<Rightarrow> error option \<Rightarrow> unit run" where
  "finish_run w x j start err =
     run_bind (recordJobTiming x start (w_now w 3)) (\<lambda>_.
     let end_time = w_now w 4 in
     case err of
       Some e \<Rightarrow>
         run_bind (call_listener w (afterJobRunsWithError j) (OnAfterError e)) (\<lambda>_.
         run_bind (incrementJobCounter x Fail) (\<lambda>_.
         run_bind (recordJobTimingWithStatus x start end_time Fail err) (\<lambda>_.
         run_bind (send_or_done w (OutTiming (j_id j) zero_time end_time)) (\<lambda>_.
         run_bind (notifyJobFailed x e) (\<lambda>_.
         notifyJobExecutionTime x (Sub end_time start))))))
     | None \<Rightarrow>
         run_bind (call_listener w (afterJobRuns j) OnAfter) (\<lambda>_.
         run_bind (incrementJobCounter x Success) (\<lambda>_.
         run_bind (recordJobTimingWithStatus x start end_time Success None) (\<lambda>_.
         run_bind (send_or_done w (OutTiming (j_id j) zero_time end_time)) (\<lambda>_.
         run_bind (notifyJobCompleted x) (\<lambda>_.
         notifyJobExecutionTime x (Sub end_time start)))))))"

text \<open>
  The body of a run, once elector and lockers have let it through. A job is rescheduled before its task
  runs, or after it when its interval counts from the completion.
\<close>

definition run_body :: "world \<Rightarrow> executor \<Rightarrow> internalJob \<Rightarrow> jobIn \<Rightarrow> unit run" where
  "run_body w x j jIn =
     run_bind (call_listener w (beforeJobRuns j) OnBefore) (\<lambda>_.
     let actual_start = w_now w 1 in
     run_bind (notifyJobStarted x) (\<lambda>_.
     run_bind (if nextScheduled j \<noteq> []
               then notifyJobSchedulingDelay x (scheduledTimeForRun (nextScheduled j) actual_start) actual_start
               else run_return ()) (\<lambda>_.
     run_bind (call_listener w (beforeJobRunsSkipIfBeforeFuncErrors j) OnBeforeSkip) (\<lambda>err.
     case err of
       Some e \<Rightarrow>
         run_bind (sendOutForRescheduling w jIn) (\<lambda>_.
         run_bind (send_or_done w (OutCompleted (j_id j) True)) (\<lambda>_.
         notifyJobFailed x e))
     | None \<Rightarrow>
         run_bind (notifyJobRunning x) (\<lambda>_.
         run_bind (if intervalFromCompletion j then run_return jIn
                   else run_bind (sendOutForRescheduling w jIn) (\<lambda>jIn.
                        run_bind (send_or_done w (OutCompleted (j_id j) False)) (\<lambda>_. run_return jIn))) (\<lambda>jIn.
         let start = w_now w 2 in
         run_bind (send_or_done w (OutTiming (j_id j) start zero_time)) (\<lambda>_.
         run_bind (call_task w j) (\<lambda>err.
         run_bind (finish_run w x j start err) (\<lambda>_.
         if intervalFromCompletion j then
           run_bind (send_or_done w (OutCompleted (j_id j) False)) (\<lambda>_.
           run_bind (sendOutForRescheduling w jIn) (\<lambda>_. run_return ()))
         else run_return ())))))))))"

text \<open>A run under a lock: without it the run is skipped, and it is released at the end.\<close>

definition locked_run :: "world \<Rightarrow> executor \<Rightarrow> handle \<Rightarrow> internalJob \<Rightarrow> jobIn \<Rightarrow> unit run" where
  "locked_run w x locker j jIn =
     run_bind (emit [TakeLock locker (j_name j)]) (\<lambda>_.
     case w_lock w of
       Some e \<Rightarrow>
         run_bind (call_listener w (afterLockError j) (OnLockError e)) (\<lambda>_. skip_run w x jIn)
     | None \<Rightarrow> deferring (ReleaseLock locker) (run_body w x j jIn))"

text \<open>\<open>runJob\<close>; a job that the scheduler does not know (\<open>None\<close>) arrives as one without a context.\<close>

definition runJob :: "world \<Rightarrow> executor \<Rightarrow> internalJob option \<Rightarrow> jobIn \<Rightarrow> unit run" where
  "runJob w x job jIn =
     (case job of
        None \<Rightarrow> run_return ()
      | Some j \<Rightarrow>
          if w_cancelled w then run_return ()
          else if stopTimeReached j (w_now w 0) then run_return ()
          else if x_elector x then
            run_bind (emit [AskLeader]) (\<lambda>_.
            if w_leader w \<noteq> None then skip_run w x jIn else run_body w x j jIn)
          else if \<not> disabledLocker j \<and> j_locker j \<noteq> None then locked_run w x (the (j_locker j)) j jIn
          else if \<not> disabledLocker j \<and> x_locker x \<noteq> None then locked_run w x (the (x_locker x)) j jIn
          else run_body w x j jIn)"

section \<open>The scheduler's side\<close>

text \<open>
  What the select loop does with a message of a run: its four channels and the handler of each. Other
  events of a run do not reach the scheduler.
\<close>

fun receive :: "env \<Rightarrow> event \<Rightarrow> scheduler \<Rightarrow> scheduler option" where
  "receive e (OutForRescheduling uid) s = selectExecJobsOutForRescheduling e uid s"
| "receive e (OutForNextRunUpdate uid) s = Some (updateNextScheduled e uid s)"
| "receive e (OutCompleted uid skipped) s = Some (selectExecJobsOutCompleted e uid skipped s)"
| "receive e (OutTiming uid startedAt completedAt) s = Some (selectJobTimingUpdate uid startedAt completedAt s)"
| "receive e _ s = Some s"

text \<open>The messages of a run one after the other, each at its own time.\<close>

fun receive_all :: "(env \<times> event) list \<Rightarrow> scheduler \<Rightarrow> scheduler option" where
  "receive_all [] s = Some s"
| "receive_all ((e, ev) # evs) s = (case receive e ev s of None \<Rightarrow> None | Some s \<Rightarrow> receive_all evs s)"

end
