(* ===== verification/Dispatch.thy ===== *)
theory Dispatch
  imports Executor
begin

text \<open>
  The way of a job through the executor: the goroutine that \<open>executor.start\<close> spins off for each job it
  receives hands the job to the limit mode, to a singleton runner or to a goroutine of its own, or turns
  it away, and what the runners do with a job before and after \<open>runJob\<close>. The answer to a request for a job
  is \<open>None\<close> when there is none (a nil pointer), and \<open>Some None\<close> for a job that the scheduler does not know.
\<close>

section \<open>The goroutine of a received job\<close>

text \<open>What becomes of a job: turned away, or sent to a queue or a goroutine with this request.\<close>

datatype handover =
    TurnedAway
  | LimitQueue jobIn
  | SingletonQueue jobIn
  | StandardRun "internalJob option" jobIn

text \<open>The identifier of a job that is not known is the nil one.\<close>

definition answer_id :: "internalJob option \<Rightarrow> uuid" where
  "answer_id job = (case job of Some j \<Rightarrow> j_id j | None \<Rightarrow> 0)"

text \<open>\<open>place\<close>: the limiter has room. In waiting mode the job is rescheduled before it is queued.\<close>

definition limit_dispatch ::
  "world \<Rightarrow> executor \<Rightarrow> LimitMode \<Rightarrow> bool \<Rightarrow> internalJob option option \<Rightarrow> jobIn \<Rightarrow> handover run" where
  "limit_dispatch w x mode place answer jIn =
     (if mode = LimitModeReschedule then
        if place then run_return (LimitQueue jIn)
        else
          run_bind (case answer of
              None \<Rightarrow> run_return ()
            | Some job \<Rightarrow> notifyConcurrencyLimitReached x ''limit'' (answer_id job)) (\<lambda>_.
          run_bind (sendOutForRescheduling w jIn) (\<lambda>_.
          run_return TurnedAway))
      else
        run_bind (sendOutForRescheduling w jIn) (\<lambda>jIn.
        run_return (LimitQueue jIn)))"

text \<open>
  The queue of a singleton runner gets the request as it was received; the rescheduling of a job whose
  interval counts from its completion is left to the run.
\<close>

definition singleton_dispatch :: "world \<Rightarrow> executor \<Rightarrow> internalJob \<Rightarrow> bool \<Rightarrow> jobIn \<Rightarrow> handover run" where
  "singleton_dispatch w x j place jIn =
     (if singletonLimitMode j = LimitModeReschedule \<and> \<not> place then
        run_bind (incrementJobCounter x SingletonRescheduled) (\<lambda>_.
        run_bind (sendOutForRescheduling w jIn) (\<lambda>_.
        run_bind (notifyConcurrencyLimitReached x ''singleton'' (j_id j)) (\<lambda>_.
        run_return TurnedAway)))
      else
        run_bind (if intervalFromCompletion j then run_return jIn else sendOutForRescheduling w jIn) (\<lambda>_.
        run_return (SingletonQueue jIn)))"

text \<open>\<open>gone\<close>: the context of the executor is done.\<close>

definition standard_dispatch :: "bool \<Rightarrow> internalJob option \<Rightarrow> jobIn \<Rightarrow> handover" where
  "standard_dispatch gone job jIn = (if gone then TurnedAway else StandardRun job jIn)"

definition dispatch_job ::
  "world \<Rightarrow> executor \<Rightarrow> LimitMode option \<Rightarrow> bool \<Rightarrow> bool \<Rightarrow> internalJob option option \<Rightarrow> jobIn \<Rightarrow> handover run" where
  "dispatch_job w x limit gone place answer jIn =
     (case limit of
        Some mode \<Rightarrow> limit_dispatch w x mode place answer jIn
      | None \<Rightarrow>
          (case answer of
             None \<Rightarrow> run_return TurnedAway
           | Some None \<Rightarrow> run_return (standard_dispatch gone None jIn)
           | Some (Some j) \<Rightarrow>
               if singletonMode j then singleton_dispatch w x j place jIn
               else run_return (standard_dispatch gone (Some j) jIn)))"

section \<open>The runners' part\<close>

definition runs_singleton :: "internalJob option \<Rightarrow> bool" where
  "runs_singleton job = (case job of Some j \<Rightarrow> singletonMode j | None \<Rightarrow> False)"

text \<open>\<open>limitModeRunner\<close>; \<open>busy\<close>: the job is among the running singleton jobs.\<close>

definition limit_run :: "world \<Rightarrow> executor \<Rightarrow> bool \<Rightarrow> internalJob option option \<Rightarrow> jobIn \<Rightarrow> unit run" where
  "limit_run w x busy answer jIn =
     (case answer of
        None \<Rightarrow> run_return ()
      | Some job \<Rightarrow>
          if runs_singleton job \<and> busy then
            if shouldSendOut jIn then send_or_done w (OutForRescheduling (j_id (the job))) else run_return ()
          else runJob w x job jIn)"

text \<open>\<open>singletonModeRunner\<close>: the run skips the rescheduling that the goroutine has asked for already.\<close>

definition runner_request :: "internalJob \<Rightarrow> jobIn \<Rightarrow> jobIn" where
  "runner_request j jIn = (if intervalFromCompletion j then jIn else jIn\<lparr>shouldSendOut := False\<rparr>)"

definition singleton_run :: "world \<Rightarrow> executor \<Rightarrow> internalJob option option \<Rightarrow> jobIn \<Rightarrow> unit run" where
  "singleton_run w x answer jIn =
     (case answer of
        None \<Rightarrow> run_return ()
      | Some None \<Rightarrow> runJob w x None (jIn\<lparr>shouldSendOut := False\<rparr>)
      | Some (Some j) \<Rightarrow> runJob w x (Some j) (runner_request j jIn))"

text \<open>
  The whole way of a job: it is dispatched in the world \<open>w\<close>, and what took it runs it in the world \<open>w'\<close> with
  what the scheduler answers then.
\<close>

definition carry_out :: "world \<Rightarrow> executor \<Rightarrow> bool \<Rightarrow> internalJob option option \<Rightarrow> handover \<Rightarrow> unit run" where
  "carry_out w x busy answer h =
     (case h of
        TurnedAway \<Rightarrow> run_return ()
      | LimitQueue jIn \<Rightarrow> limit_run w x busy answer jIn
      | SingletonQueue jIn \<Rightarrow> singleton_run w x answer jIn
      | StandardRun job jIn \<Rightarrow> runJob w x job jIn)"

end
