(* ===== verification/LimitRunners.thy ===== *)
theory LimitRunners
  imports Dispatch "HOL-Library.Multiset"
begin

text \<open>
  The limit mode of the executor: the goroutines that hand work over, the queue, and the runners that
  share it, as a step relation. A runner is the point in \<open>limitModeRunner\<close> it has reached. The
  limiter and the queue outlive a stop, and so do runners that a stop did not wait for.
\<close>

section \<open>State\<close>

datatype runner =
    Idle
  | Taken jobIn
  | Running jobIn "internalJob option"
  | Releasing
  | Exited

text \<open>
  \<open>receiving\<close> holds the goroutines of \<open>start\<close> that have not got past the limiter, \<open>sending\<close> those that wait for
  room in the queue. \<open>lm_late\<close> records that a stop returned while a runner was still alive.
\<close>

record limit_state =
  lm_running :: bool
  lm_cancelled :: bool
  receiving :: "jobIn multiset"
  sending :: "jobIn multiset"
  lm_queue :: "jobIn list"
  tokens :: nat
  singletonJobs :: "uuid set"
  runners :: "runner multiset"
  lm_late :: bool
  lm_out :: "event list"

definition limit_init :: limit_state where
  "limit_init = \<lparr>lm_running = False, lm_cancelled = False, receiving = {#}, sending = {#}, lm_queue = [], tokens = 0,
     singletonJobs = {}, runners = {#}, lm_late = False, lm_out = []\<rparr>"

definition queue_buffer :: nat where
  "queue_buffer = 1000"

text \<open>\<open>JobsWaitingInQueue\<close>\<close>

definition JobsWaitingInQueue :: "LimitMode option \<Rightarrow> limit_state \<Rightarrow> nat" where
  "JobsWaitingInQueue mode s = (if mode = Some LimitModeWait then length (lm_queue s) else 0)"

text \<open>The case of the executor's loop for a job: it starts the runners when they are not running.\<close>

definition start_runners :: "nat \<Rightarrow> limit_state \<Rightarrow> limit_state" where
  "start_runners limit s =
     (if lm_running s then s else s\<lparr>lm_running := True, runners := runners s + replicate_mset limit Idle\<rparr>)"

definition limit_receive :: "nat \<Rightarrow> jobIn \<Rightarrow> limit_state \<Rightarrow> limit_state" where
  "limit_receive limit jIn s = (start_runners limit s)\<lparr>receiving := add_mset jIn (receiving s)\<rparr>"

definition is_alive :: "runner \<Rightarrow> bool" where
  "is_alive r \<longleftrightarrow> r \<noteq> Exited"

section \<open>Steps\<close>

text \<open>
  A send to the scheduler is given up only when the executor's context is done. The world \<open>w\<close> of a step
  says what is received, and what happens in the run of a job; a run that panics ends the process, and with
  it the relation. \<open>stop\<close> resets \<open>started\<close> just after it has handed over its result: here this is one step.
\<close>

definition keeps_up :: "limit_state \<Rightarrow> world \<Rightarrow> bool" where
  "keeps_up s w \<longleftrightarrow> lm_cancelled s \<or> (\<forall>ev. w_receives w ev)"

inductive limit_step :: "executor \<Rightarrow> LimitMode \<Rightarrow> nat \<Rightarrow> limit_state \<Rightarrow> limit_state \<Rightarrow> bool" for x mode limit where
  receive: "\<not> lm_cancelled s \<Longrightarrow> limit_step x mode limit s (limit_receive limit jIn s)"
| acquire: "mode = LimitModeReschedule \<Longrightarrow> receiving s = add_mset jIn R \<Longrightarrow> tokens s < limit \<Longrightarrow>
    limit_step x mode limit s (s\<lparr>receiving := R, sending := add_mset jIn (sending s), tokens := Suc (tokens s)\<rparr>)"
| refuse: "mode = LimitModeReschedule \<Longrightarrow> receiving s = add_mset jIn R \<Longrightarrow> tokens s = limit \<Longrightarrow> keeps_up s w \<Longrightarrow>
    limit_step x mode limit s (s\<lparr>receiving := R, lm_out := lm_out s @ fst (limit_dispatch w x mode False answer jIn)\<rparr>)"
| hand_over: "mode = LimitModeWait \<Longrightarrow> receiving s = add_mset jIn R \<Longrightarrow> keeps_up s w \<Longrightarrow>
    limit_dispatch w x mode False answer jIn = (es, Some (LimitQueue jIn')) \<Longrightarrow>
    limit_step x mode limit s (s\<lparr>receiving := R, sending := add_mset jIn' (sending s), lm_out := lm_out s @ es\<rparr>)"
| enqueue: "sending s = add_mset jIn R \<Longrightarrow> length (lm_queue s) < queue_buffer \<Longrightarrow>
    limit_step x mode limit s (s\<lparr>sending := R, lm_queue := lm_queue s @ [jIn]\<rparr>)"
| take: "runners s = add_mset Idle R \<Longrightarrow> lm_queue s = jIn # q \<Longrightarrow>
    limit_step x mode limit s (s\<lparr>runners := add_mset (Taken jIn) R, lm_queue := q\<rparr>)"
| leave_taken: "runners s = add_mset (Taken jIn) R \<Longrightarrow> lm_cancelled s \<Longrightarrow>
    limit_step x mode limit s (s\<lparr>runners := add_mset Exited R\<rparr>)"
| no_answer: "runners s = add_mset (Taken jIn) R \<Longrightarrow> limit_step x mode limit s (s\<lparr>runners := add_mset Releasing R\<rparr>)"
| already_running: "runners s = add_mset (Taken jIn) R \<Longrightarrow> runs_singleton (Some j) \<Longrightarrow> in_id jIn \<in> singletonJobs s \<Longrightarrow>
    limit_step x mode limit s (s\<lparr>runners := add_mset Releasing R, lm_out := lm_out s @ fst (limit_run w x True (Some (Some j)) jIn)\<rparr>)"
| run: "runners s = add_mset (Taken jIn) R \<Longrightarrow> \<not> (runs_singleton job \<and> in_id jIn \<in> singletonJobs s) \<Longrightarrow>
    limit_step x mode limit s (s\<lparr>runners := add_mset (Running jIn job) R,
      singletonJobs := (if runs_singleton job then insert (in_id jIn) (singletonJobs s) else singletonJobs s)\<rparr>)"
| finish: "runners s = add_mset (Running jIn job) R \<Longrightarrow> snd (runJob w x job jIn) = Some () \<Longrightarrow>
    limit_step x mode limit s (s\<lparr>runners := add_mset Releasing R, lm_out := lm_out s @ fst (runJob w x job jIn),
      singletonJobs := (if runs_singleton job then singletonJobs s - {in_id jIn} else singletonJobs s)\<rparr>)"
| release: "runners s = add_mset Releasing R \<Longrightarrow> mode = LimitModeReschedule \<Longrightarrow> 0 < tokens s \<Longrightarrow>
    limit_step x mode limit s (s\<lparr>runners := add_mset Idle R, tokens := tokens s - 1\<rparr>)"
| next_round: "runners s = add_mset Releasing R \<Longrightarrow> mode = LimitModeWait \<Longrightarrow>
    limit_step x mode limit s (s\<lparr>runners := add_mset Idle R\<rparr>)"
| leave: "runners s = add_mset Idle R \<Longrightarrow> lm_cancelled s \<Longrightarrow>
    limit_step x mode limit s (s\<lparr>runners := add_mset Exited R\<rparr>)"
| stop: "limit_step x mode limit s (s\<lparr>lm_cancelled := True\<rparr>)"
| stop_returns: "lm_cancelled s \<Longrightarrow>
    limit_step x mode limit s (s\<lparr>lm_running := False, lm_late := (lm_late s \<or> (\<exists>r. r \<in># runners s \<and> is_alive r))\<rparr>)"
| start: "lm_cancelled s \<Longrightarrow> \<not> lm_running s \<Longrightarrow> limit_step x mode limit s (s\<lparr>lm_cancelled := False\<rparr>)"

inductive limit_reachable :: "executor \<Rightarrow> LimitMode \<Rightarrow> nat \<Rightarrow> limit_state \<Rightarrow> bool" for x mode limit where
  created: "limit_reachable x mode limit limit_init"
| stepped: "limit_reachable x mode limit s \<Longrightarrow> limit_step x mode limit s s' \<Longrightarrow> limit_reachable x mode limit s'"

section \<open>Counting\<close>

text \<open>The runners that hold a place of the limiter, those that run a job, and those that are alive.\<close>

definition holding :: "runner \<Rightarrow> bool" where
  "holding r = (case r of Taken _ \<Rightarrow> True | Running _ _ \<Rightarrow> True | Releasing \<Rightarrow> True | _ \<Rightarrow> False)"

definition is_running :: "runner \<Rightarrow> bool" where
  "is_running r = (case r of Running _ _ \<Rightarrow> True | _ \<Rightarrow> False)"

lemma runner_simps [simp]:
  "\<not> holding Idle" "holding (Taken jIn)" "holding (Running jIn job)" "holding Releasing" "\<not> holding Exited"
  "\<not> is_running Idle" "\<not> is_running (Taken jIn)" "is_running (Running jIn job)" "\<not> is_running Releasing" "\<not> is_running Exited"
  "is_alive Idle" "is_alive (Taken jIn)" "is_alive (Running jIn job)" "is_alive Releasing" "\<not> is_alive Exited"
  by (simp_all add: holding_def is_running_def is_alive_def)

definition how_many :: "(runner \<Rightarrow> bool) \<Rightarrow> limit_state \<Rightarrow> nat" where
  "how_many P s = size (filter_mset P (runners s))"

lemma how_many_mono:
  assumes "\<And>r. P r \<Longrightarrow> Q r"
  shows "how_many P s \<le> how_many Q s"
proof -
  have "size (filter_mset P R) \<le> size (filter_mset Q R)" for R by (induction R) (use assms in auto)
  then show ?thesis by (simp add: how_many_def)
qed

lemma filter_replicate_Idle: "filter_mset P (replicate_mset n Idle) = (if P Idle then replicate_mset n Idle else {#})"
  by (induction n) auto

text \<open>In rescheduling mode every job on its way holds a place, and there are no more places than the limit.\<close>

definition limiter_inv :: "nat \<Rightarrow> limit_state \<Rightarrow> bool" where
  "limiter_inv limit s \<longleftrightarrow> size (sending s) + length (lm_queue s) + how_many holding s \<le> tokens s \<and> tokens s \<le> limit"

lemma limiter_inv_step:
  "limit_step x LimitModeReschedule limit s s' \<Longrightarrow> limiter_inv limit s \<Longrightarrow> limiter_inv limit s'"
  by (induction rule: limit_step.induct)
    (auto simp: limiter_inv_def how_many_def limit_receive_def start_runners_def filter_replicate_Idle)

lemma limiter_inv_reachable: "limit_reachable x LimitModeReschedule limit s \<Longrightarrow> limiter_inv limit s"
proof (induction rule: limit_reachable.induct)
  case created
  then show ?case by (simp add: limiter_inv_def how_many_def limit_init_def)
qed (rule limiter_inv_step)

text \<open>In waiting mode the runners themselves are the bound, as long as every stop waited for them.\<close>

definition crew_inv :: "nat \<Rightarrow> limit_state \<Rightarrow> bool" where
  "crew_inv limit s \<longleftrightarrow> lm_late s \<or> how_many is_alive s \<le> (if lm_running s then limit else 0)"

lemma nobody_alive: "(\<exists>r. r \<in># R \<and> is_alive r) \<or> size (filter_mset is_alive R) = 0"
  by auto

lemma crew_inv_step: "limit_step x mode limit s s' \<Longrightarrow> crew_inv limit s \<Longrightarrow> crew_inv limit s'"
proof (induction rule: limit_step.induct)
  case (stop_returns s)
  then show ?case using nobody_alive [of "runners s"] by (auto simp: crew_inv_def how_many_def)
qed (auto simp: crew_inv_def how_many_def limit_receive_def start_runners_def filter_replicate_Idle split: if_splits)

lemma crew_inv_reachable: "limit_reachable x mode limit s \<Longrightarrow> crew_inv limit s"
proof (induction rule: limit_reachable.induct)
  case created
  then show ?case by (simp add: crew_inv_def how_many_def limit_init_def)
qed (rule crew_inv_step)

text \<open>The identifiers of the singleton jobs that are running are just those in \<open>singletonJobs\<close>, once each.\<close>

fun singleton_id :: "runner \<Rightarrow> uuid multiset" where
  "singleton_id (Running jIn job) = (if runs_singleton job then {#in_id jIn#} else {#})"
| "singleton_id r = {#}"

definition singletons :: "limit_state \<Rightarrow> uuid multiset" where
  "singletons s = sum_mset (image_mset singleton_id (runners s))"

definition singleton_inv :: "limit_state \<Rightarrow> bool" where
  "singleton_inv s \<longleftrightarrow> finite (singletonJobs s) \<and> singletons s = mset_set (singletonJobs s)"

lemma sum_replicate_Idle: "sum_mset (image_mset singleton_id (replicate_mset n Idle)) = {#}"
  by (induction n) auto

lemma singleton_inv_step: "limit_step x mode limit s s' \<Longrightarrow> singleton_inv s \<Longrightarrow> singleton_inv s'"
proof (induction rule: limit_step.induct)
  case (finish s jIn job R w)
  show ?case
  proof (cases "runs_singleton job")
    case True
    then have "mset_set (singletonJobs s) = add_mset (in_id jIn) (sum_mset (image_mset singleton_id R))"
      using finish by (simp add: singleton_inv_def singletons_def)
    moreover from this have "in_id jIn \<in> singletonJobs s"
      using finish.prems by (metis elem_mset_set singleton_inv_def union_single_eq_member)
    then have "mset_set (singletonJobs s) = add_mset (in_id jIn) (mset_set (singletonJobs s - {in_id jIn}))"
      using finish.prems by (intro mset_set.remove) (simp_all add: singleton_inv_def)
    ultimately have "mset_set (singletonJobs s - {in_id jIn}) = sum_mset (image_mset singleton_id R)" by simp
    then show ?thesis using finish True by (simp add: singleton_inv_def singletons_def)
  qed (use finish in \<open>simp add: singleton_inv_def singletons_def\<close>)
qed (auto simp: singleton_inv_def singletons_def limit_receive_def start_runners_def sum_replicate_Idle)

lemma singleton_inv_reachable: "limit_reachable x mode limit s \<Longrightarrow> singleton_inv s"
proof (induction rule: limit_reachable.induct)
  case created
  then show ?case by (simp add: singleton_inv_def singletons_def limit_init_def)
qed (rule singleton_inv_step)

section \<open>What the limit mode guarantees\<close>

text \<open>
  C20: With \<open>LimitModeReschedule\<close> never more than the limit of jobs run at once, across any number of stops and
  starts, and whether or not the stops waited for the runners.
\<close>

theorem limit_is_kept:
  assumes "limit_reachable x LimitModeReschedule limit s"
  shows "how_many is_running s \<le> limit"
proof -
  have "how_many is_running s \<le> how_many holding s" by (rule how_many_mono) (simp add: is_running_def split: runner.splits)
  then show ?thesis using limiter_inv_reachable [OF assms] by (simp add: limiter_inv_def)
qed

text \<open>
  With \<open>LimitModeWait\<close> never more than the limit of jobs run at once as long as no stop has timed out with a
  runner still alive.
\<close>

theorem waiting_limit_is_kept:
  assumes "limit_reachable x LimitModeWait limit s" "\<not> lm_late s"
  shows "how_many is_running s \<le> limit"
proof -
  have "how_many is_running s \<le> how_many is_alive s" by (rule how_many_mono) (simp add: is_running_def is_alive_def split: runner.splits)
  also have "\<dots> \<le> limit" using crew_inv_reachable [OF assms(1)] assms(2) by (auto simp: crew_inv_def split: if_splits)
  finally show ?thesis .
qed

text \<open>
  C21: In either mode two runners never run the same singleton job at once.
\<close>

theorem limit_singletons_run_alone:
  assumes "limit_reachable x mode limit s" "runs_singleton job" "runs_singleton job'"
    and "runners s = add_mset (Running jIn job) (add_mset (Running jIn' job') R)"
  shows "in_id jIn \<noteq> in_id jIn'"
proof
  assume same: "in_id jIn = in_id jIn'"
  have "count (singletons s) (in_id jIn) \<le> 1"
    using singleton_inv_reachable [OF assms(1)] by (simp add: singleton_inv_def count_mset_set')
  then show False using assms(2-4) same by (simp add: singletons_def)
qed

section \<open>Concrete runs\<close>

text \<open>A job that reaches a runner of a scheduler with limit one, and what may follow.\<close>

definition request :: "uuid \<Rightarrow> jobIn" where
  "request uid = \<lparr>in_id = uid, shouldSendOut = False\<rparr>"

definition one_taken :: "nat \<Rightarrow> limit_state" where
  "one_taken t = limit_init\<lparr>lm_running := True, tokens := t, runners := {#Taken (request 1)#}\<rparr>"

definition kept_up :: world where
  "kept_up = \<lparr>w_cancelled = False, w_now = \<lambda>_. zero_time, w_receives = \<lambda>_. True, w_leader = None, w_lock = None,
     w_listener = \<lambda>_. Some None, w_call = \<lambda>_ _. None, w_recovered = []\<rparr>"

lemma request_dispatch: "w_receives kept_up ev" "limit_dispatch kept_up x LimitModeWait place answer (request uid) = ([], Some (LimitQueue (request uid)))"
  by (simp_all add: kept_up_def limit_dispatch_def request_def sendOutForRescheduling_def run_bind_def run_return_def)

lemma one_taken_reachable:
  assumes "mode = LimitModeReschedule \<and> t = 1 \<or> mode = LimitModeWait \<and> t = 0"
  shows "limit_reachable x mode 1 (one_taken t)"
proof -
  let ?a = "request 1"
  let ?s1 = "limit_init\<lparr>lm_running := True, runners := {#Idle#}, receiving := {#?a#}\<rparr>"
  let ?s2 = "limit_init\<lparr>lm_running := True, runners := {#Idle#}, sending := {#?a#}, tokens := t\<rparr>"
  let ?s3 = "limit_init\<lparr>lm_running := True, runners := {#Idle#}, lm_queue := [?a], tokens := t\<rparr>"
  have "limit_step x mode 1 limit_init ?s1"
    using limit_step.receive [of limit_init x mode 1 ?a] by (simp add: limit_receive_def start_runners_def limit_init_def)
  moreover have "limit_step x mode 1 ?s1 ?s2"
    using assms limit_step.acquire [of mode ?s1 ?a "{#}" 1 x] limit_step.hand_over [where s = ?s1 and jIn = ?a and R = "{#}" and w = kept_up and es = "[]" and jIn' = ?a]
    by (auto simp: limit_init_def keeps_up_def request_dispatch)
  moreover have "limit_step x mode 1 ?s2 ?s3"
    using limit_step.enqueue [of ?s2 ?a "{#}" x mode 1] by (simp add: limit_init_def queue_buffer_def)
  moreover have "limit_step x mode 1 ?s3 (one_taken t)"
    using limit_step.take [of ?s3 "{#}" ?a "[]" x mode 1] by (simp add: limit_init_def one_taken_def)
  ultimately show ?thesis using limit_reachable.created limit_reachable.stepped by metis
qed

theorem limit_is_kept_witness: "how_many is_running (one_taken 1) \<le> 1"
  using limit_is_kept [OF one_taken_reachable [of LimitModeReschedule 1]] by simp

theorem waiting_limit_is_kept_witness: "how_many is_running (one_taken 0) \<le> 1"
  using waiting_limit_is_kept [OF one_taken_reachable [of LimitModeWait 0]] by (simp add: one_taken_def limit_init_def)

text \<open>A scheduler that was stopped between the two: the runner has left, its place has not been given back.\<close>

definition leaked :: limit_state where
  "leaked = limit_init\<lparr>tokens := 1, runners := {#Exited#}\<rparr>"

lemma leaked_reachable: "limit_reachable x LimitModeReschedule 1 leaked"
proof -
  let ?s1 = "one_taken 1\<lparr>lm_cancelled := True\<rparr>"
  let ?s2 = "?s1\<lparr>runners := {#Exited#}\<rparr>"
  have "limit_step x LimitModeReschedule 1 (one_taken 1) ?s1" by (rule limit_step.stop)
  moreover have "limit_step x LimitModeReschedule 1 ?s1 ?s2"
    using limit_step.leave_taken [of ?s1 "request 1" "{#}"] by (simp add: one_taken_def)
  moreover have "limit_step x LimitModeReschedule 1 ?s2 (?s2\<lparr>lm_running := False\<rparr>)"
    using limit_step.stop_returns [of ?s2 x LimitModeReschedule 1] by (simp add: one_taken_def limit_init_def)
  moreover have "limit_step x LimitModeReschedule 1 (?s2\<lparr>lm_running := False\<rparr>) leaked"
    using limit_step.start [of "?s2\<lparr>lm_running := False\<rparr>" x LimitModeReschedule 1]
    by (simp add: one_taken_def limit_init_def leaked_def)
  ultimately show ?thesis using one_taken_reachable [of LimitModeReschedule 1] limit_reachable.stepped by metis
qed

definition stuck :: "nat \<Rightarrow> limit_state \<Rightarrow> bool" where
  "stuck limit s \<longleftrightarrow> tokens s = limit \<and> sending s = {#} \<and> lm_queue s = [] \<and> how_many holding s = 0"

lemma stuck_step: "limit_step x LimitModeReschedule limit s s' \<Longrightarrow> stuck limit s \<Longrightarrow> stuck limit s'"
  by (induction rule: limit_step.induct)
    (auto simp: stuck_def how_many_def limit_receive_def start_runners_def filter_replicate_Idle)

text \<open>
  C37: A runner that has taken a job from the queue when the executor stops leaves without giving its place back.
  After a stop that did not time out and another start, a scheduler with limit one can so be in a state from
  which no job ever runs again.
\<close>

theorem stop_can_leak_the_limiter:
  "limit_reachable x LimitModeReschedule 1 leaked \<and> \<not> lm_late leaked \<and> \<not> lm_cancelled leaked \<and>
   {s. (limit_step x LimitModeReschedule 1)\<^sup>*\<^sup>* leaked s} \<subseteq> {s. how_many is_running s = 0}"
proof -
  have "stuck 1 s" if "(limit_step x LimitModeReschedule 1)\<^sup>*\<^sup>* leaked s" for s
    using that
  proof (induction rule: rtranclp_induct)
    case base
    show ?case by (simp add: stuck_def leaked_def limit_init_def how_many_def)
  qed (rule stuck_step)
  moreover have "stuck 1 s \<Longrightarrow> how_many is_running s = 0" for s
    using how_many_mono [of is_running holding s] by (auto simp: stuck_def is_running_def split: runner.splits)
  ultimately show ?thesis using leaked_reachable by (auto simp: leaked_def limit_init_def)
qed

text \<open>In waiting mode a job that arrives while a runner is idle can be brought to that runner.\<close>

lemma queued_job_reaches_runner:
  assumes "s = \<lparr>lm_running = True, lm_cancelled = False, receiving = {#request uid#}, sending = {#}, lm_queue = [],
      tokens = t, singletonJobs = J, runners = add_mset Idle R, lm_late = late, lm_out = out\<rparr>"
    and "limit_reachable x LimitModeWait limit s" "\<not> (runs_singleton job \<and> uid \<in> J)"
  shows "limit_reachable x LimitModeWait limit (s\<lparr>receiving := {#}, runners := add_mset (Running (request uid) job) R,
    singletonJobs := (if runs_singleton job then insert uid J else J)\<rparr>)" (is "limit_reachable _ _ _ ?s5")
proof -
  let ?a = "request uid" and ?b = "s\<lparr>receiving := {#}\<rparr>"
  let ?s2 = "?b\<lparr>sending := {#?a#}\<rparr>"
  let ?s3 = "?b\<lparr>lm_queue := [?a]\<rparr>"
  let ?s4 = "?b\<lparr>runners := add_mset (Taken ?a) R\<rparr>"
  have "limit_step x LimitModeWait limit s ?s2"
    using limit_step.hand_over [where s = s and jIn = ?a and R = "{#}" and w = kept_up and es = "[]" and jIn' = ?a] assms(1)
    by (simp add: keeps_up_def request_dispatch)
  moreover have "limit_step x LimitModeWait limit ?s2 ?s3"
    using limit_step.enqueue [of ?s2 ?a "{#}" x LimitModeWait limit] assms(1) by (simp add: queue_buffer_def)
  moreover have "limit_step x LimitModeWait limit ?s3 ?s4"
    using limit_step.take [of ?s3 R ?a "[]" x LimitModeWait limit] assms(1) by simp
  moreover have "limit_step x LimitModeWait limit ?s4 ?s5"
    using limit_step.run [of ?s4 ?a R job x LimitModeWait limit] assms(1,3)
    by (cases "runs_singleton job") (simp_all add: request_def)
  ultimately show ?thesis using assms(2) limit_reachable.stepped by metis
qed

lemma job_reaches_runner:
  assumes "limit_reachable x LimitModeWait limit s" "\<not> lm_cancelled s"
    and "receiving s = {#}" "sending s = {#}" "lm_queue s = []" "runners (start_runners limit s) = add_mset Idle R"
    and "\<not> (runs_singleton job \<and> uid \<in> singletonJobs s)"
  shows "limit_reachable x LimitModeWait limit (s\<lparr>lm_running := True, runners := add_mset (Running (request uid) job) R,
    singletonJobs := (if runs_singleton job then insert uid (singletonJobs s) else singletonJobs s)\<rparr>)"
proof -
  let ?r = "limit_receive limit (request uid) s"
  have "?r = \<lparr>lm_running = True, lm_cancelled = False, receiving = {#request uid#}, sending = {#}, lm_queue = [],
      tokens = tokens s, singletonJobs = singletonJobs s, runners = add_mset Idle R, lm_late = lm_late s, lm_out = lm_out s\<rparr>"
    using assms(2-6) by (cases s) (auto simp: limit_receive_def start_runners_def split: if_splits)
  moreover have "limit_reachable x LimitModeWait limit ?r"
    using limit_step.receive [of s x LimitModeWait limit] assms(1,2) limit_reachable.stepped by metis
  ultimately have "limit_reachable x LimitModeWait limit (?r\<lparr>receiving := {#}, runners := add_mset (Running (request uid) job) R,
      singletonJobs := (if runs_singleton job then insert uid (singletonJobs s) else singletonJobs s)\<rparr>)"
    using assms(7) by (rule queued_job_reaches_runner)
  then show ?thesis using assms(2-6) by (cases s) (auto simp: limit_receive_def start_runners_def split: if_splits)
qed

definition one_running :: "internalJob option \<Rightarrow> limit_state" where
  "one_running job = limit_init\<lparr>lm_running := True, runners := {#Running (request 1) job#},
     singletonJobs := (if runs_singleton job then {1} else {})\<rparr>"

lemma one_running_reachable: "limit_reachable x LimitModeWait 1 (one_running job)"
  using job_reaches_runner [OF limit_reachable.created [of x LimitModeWait 1], of "{#}" job 1]
  by (cases "runs_singleton job") (simp_all add: limit_init_def start_runners_def one_running_def)

text \<open>
  The bound of \<open>LimitModeWait\<close> does not survive a stop that times out. The runner that was not waited for goes on
  under the context of the next start, beside the new ones: with limit one, two jobs run at once.
\<close>

theorem timed_out_stop_breaks_waiting_limit:
  "\<exists>s. limit_reachable x LimitModeWait 1 s \<and> lm_late s \<and> \<not> lm_cancelled s \<and> how_many is_running s = 2"
proof -
  let ?s0 = "one_running None"
  let ?s1 = "?s0\<lparr>lm_cancelled := True\<rparr>"
  let ?s2 = "?s1\<lparr>lm_running := False, lm_late := True\<rparr>"
  let ?s3 = "?s2\<lparr>lm_cancelled := False\<rparr>"
  have "limit_step x LimitModeWait 1 ?s0 ?s1" by (rule limit_step.stop)
  moreover have "limit_step x LimitModeWait 1 ?s1 ?s2"
    using limit_step.stop_returns [of ?s1 x LimitModeWait 1] by (simp add: one_running_def)
  moreover have "limit_step x LimitModeWait 1 ?s2 ?s3" by (rule limit_step.start) simp_all
  ultimately have "limit_reachable x LimitModeWait 1 ?s3"
    using one_running_reachable limit_reachable.stepped by metis
  then have "limit_reachable x LimitModeWait 1
      (?s3\<lparr>lm_running := True, runners := add_mset (Running (request 2) None) {#Running (request 1) None#}\<rparr>)" (is "limit_reachable _ _ _ ?s4")
    using job_reaches_runner [of x 1 ?s3 "{#Running (request 1) None#}" None 2]
    by (simp add: one_running_def limit_init_def start_runners_def runs_singleton_def add_mset_commute)
  then show ?thesis by (intro exI [of _ ?s4]) (simp add: how_many_def)
qed

definition singleton_job :: "internalJob option" where
  "singleton_job = Some (zero_job\<lparr>singletonMode := True\<rparr>)"

theorem limit_singletons_run_alone_witness:
  "\<exists>x s. limit_reachable x LimitModeWait 2 s \<and> how_many is_running s = 2 \<and> in_id (request 1) \<noteq> in_id (request 2)"
proof -
  fix x
  have 1: "runs_singleton singleton_job" by (simp add: singleton_job_def runs_singleton_def)
  let ?s1 = "limit_init\<lparr>lm_running := True, runners := {#Running (request 1) singleton_job, Idle#}, singletonJobs := {1}\<rparr>"
  let ?s2 = "?s1\<lparr>runners := {#Running (request 1) singleton_job, Running (request 2) singleton_job#}, singletonJobs := {1, 2}\<rparr>"
  have "limit_reachable x LimitModeWait 2 ?s1"
    using job_reaches_runner [OF limit_reachable.created [of x LimitModeWait 2], of "{#Idle#}" singleton_job 1] 1
    by (simp add: limit_init_def start_runners_def numeral_2_eq_2)
  then have *: "limit_reachable x LimitModeWait 2 ?s2"
    using job_reaches_runner [of x 2 ?s1 "{#Running (request 1) singleton_job#}" singleton_job 2] 1
    by (simp add: limit_init_def start_runners_def add_mset_commute insert_commute)
  have "in_id (request 1) \<noteq> in_id (request 2)"
    by (rule limit_singletons_run_alone [OF * 1 1, of _ _ "{#}"]) (simp add: request_def)
  then show ?thesis using * by (intro exI [of _ x] exI [of _ ?s2]) (simp add: how_many_def)
qed

end
