(* ===== verification/SingletonRunners.thy ===== *)
theory SingletonRunners
  imports LimitRunners
begin

text \<open>
  Singleton mode without a limit: the goroutines that \<open>start\<close> spins off for the runs of one singleton job,
  the entry of that job in the map of runners, and the runners, as a step relation. Jobs share nothing here
  but the executor's context, so one job is enough. What the scheduler knows of the job may change between two runs,
  by \<open>Update\<close>.
\<close>

section \<open>State\<close>

text \<open>A runner with its queue; its limiter exists in rescheduling mode alone, and holds one place.\<close>

record singletonRunner =
  sr_mode :: LimitMode
  sr_queue :: "jobIn list"
  sr_tokens :: nat

text \<open>How far the goroutine of a run has come.\<close>

datatype dispatch =
    Arrived internalJob jobIn
  | Loaded internalJob jobIn "nat option"
  | Found internalJob jobIn nat
  | Sending internalJob jobIn nat
  | Sent internalJob jobIn

text \<open>
  \<open>sm_entry\<close> is what the map holds for the job. \<open>sm_raced\<close> records that a runner was stored over another one, \<open>sm_late\<close>
  that a stop returned before everything had ended, \<open>sm_starts\<close> counts the starts.
\<close>

record singleton_state =
  sm_cancelled :: bool
  sm_stopped :: bool
  sm_entry :: "nat option"
  sm_fresh :: nat
  sm_runners :: "nat \<Rightarrow> singletonRunner option"
  sm_dispatches :: "dispatch multiset"
  sm_crew :: "(nat \<times> runner) multiset"
  sm_raced :: bool
  sm_late :: bool
  sm_starts :: nat
  sm_out :: "event list"

definition singleton_init :: singleton_state where
  "singleton_init = \<lparr>sm_cancelled = False, sm_stopped = False, sm_entry = None, sm_fresh = 0, sm_runners = Map.empty,
     sm_dispatches = {#}, sm_crew = {#}, sm_raced = False, sm_late = False, sm_starts = 0, sm_out = []\<rparr>"

section \<open>Steps\<close>

definition singleton_buffer :: nat where
  "singleton_buffer = 1000"

text \<open>A runner that is not in the map is built and started.\<close>

definition store_runner :: "internalJob \<Rightarrow> singleton_state \<Rightarrow> singleton_state" where
  "store_runner j s = s\<lparr>
     sm_runners := (sm_runners s)(sm_fresh s \<mapsto> \<lparr>sr_mode = singletonLimitMode j, sr_queue = [], sr_tokens = 0\<rparr>),
     sm_entry := Some (sm_fresh s), sm_fresh := Suc (sm_fresh s), sm_crew := add_mset (sm_fresh s, Idle) (sm_crew s),
     sm_raced := (sm_raced s \<or> sm_entry s \<noteq> None)\<rparr>"

text \<open>The place in the limiter can be had; a runner without a limiter has none to give.\<close>

definition has_place :: "singletonRunner \<Rightarrow> bool" where
  "has_place r \<longleftrightarrow> sr_mode r = LimitModeReschedule \<and> sr_tokens r < 1"

definition sm_keeps_up :: "singleton_state \<Rightarrow> world \<Rightarrow> bool" where
  "sm_keeps_up s w \<longleftrightarrow> sm_cancelled s \<or> (\<forall>ev. w_receives w ev)"

inductive singleton_step :: "executor \<Rightarrow> internalJob set \<Rightarrow> singleton_state \<Rightarrow> singleton_state \<Rightarrow> bool" for x known where
  receive: "\<not> sm_cancelled s \<Longrightarrow> j \<in> known \<Longrightarrow>
    singleton_step x known s (s\<lparr>sm_dispatches := add_mset (Arrived j jIn) (sm_dispatches s)\<rparr>)"
| load: "sm_dispatches s = add_mset (Arrived j jIn) D \<Longrightarrow>
    singleton_step x known s (s\<lparr>sm_dispatches := add_mset (Loaded j jIn (sm_entry s)) D\<rparr>)"
| store: "sm_dispatches s = add_mset (Loaded j jIn None) D \<Longrightarrow>
    singleton_step x known s ((store_runner j s)\<lparr>sm_dispatches := add_mset (Found j jIn (sm_fresh s)) D\<rparr>)"
| found: "sm_dispatches s = add_mset (Loaded j jIn (Some n)) D \<Longrightarrow>
    singleton_step x known s (s\<lparr>sm_dispatches := add_mset (Found j jIn n) D\<rparr>)"
| acquire: "sm_dispatches s = add_mset (Found j jIn n) D \<Longrightarrow> singletonLimitMode j = LimitModeReschedule \<Longrightarrow>
    sm_runners s n = Some r \<Longrightarrow> has_place r \<Longrightarrow>
    singleton_step x known s (s\<lparr>sm_dispatches := add_mset (Sending j jIn n) D,
      sm_runners := (sm_runners s)(n \<mapsto> r\<lparr>sr_tokens := Suc (sr_tokens r)\<rparr>)\<rparr>)"
| refuse: "sm_dispatches s = add_mset (Found j jIn n) D \<Longrightarrow> singletonLimitMode j = LimitModeReschedule \<Longrightarrow>
    sm_runners s n = Some r \<Longrightarrow> \<not> has_place r \<Longrightarrow> sm_keeps_up s w \<Longrightarrow>
    singleton_step x known s (s\<lparr>sm_dispatches := D, sm_out := sm_out s @ fst (singleton_dispatch w x j False jIn)\<rparr>)"
| pass: "sm_dispatches s = add_mset (Found j jIn n) D \<Longrightarrow> singletonLimitMode j = LimitModeWait \<Longrightarrow>
    singleton_step x known s (s\<lparr>sm_dispatches := add_mset (Sending j jIn n) D\<rparr>)"
| enqueue: "sm_dispatches s = add_mset (Sending j jIn n) D \<Longrightarrow> sm_runners s n = Some r \<Longrightarrow> length (sr_queue r) < singleton_buffer \<Longrightarrow>
    singleton_step x known s (s\<lparr>sm_dispatches := add_mset (Sent j jIn) D,
      sm_runners := (sm_runners s)(n \<mapsto> r\<lparr>sr_queue := sr_queue r @ [jIn]\<rparr>)\<rparr>)"
| tell: "sm_dispatches s = add_mset (Sent j jIn) D \<Longrightarrow> sm_keeps_up s w \<Longrightarrow>
    singleton_step x known s (s\<lparr>sm_dispatches := D, sm_out := sm_out s @ fst (singleton_dispatch w x j True jIn)\<rparr>)"
| take: "sm_crew s = add_mset (n, Idle) C \<Longrightarrow> sm_runners s n = Some r \<Longrightarrow> sr_queue r = jIn # q \<Longrightarrow>
    singleton_step x known s (s\<lparr>sm_runners := (sm_runners s)(n \<mapsto> r\<lparr>sr_queue := q\<rparr>), sm_crew := add_mset (n, Taken jIn) C\<rparr>)"
| leave_taken: "sm_crew s = add_mset (n, Taken jIn) C \<Longrightarrow> sm_cancelled s \<Longrightarrow>
    singleton_step x known s (s\<lparr>sm_crew := add_mset (n, Exited) C\<rparr>)"
| no_answer: "sm_crew s = add_mset (n, Taken jIn) C \<Longrightarrow> singleton_step x known s (s\<lparr>sm_crew := add_mset (n, Releasing) C\<rparr>)"
| run: "sm_crew s = add_mset (n, Taken jIn) C \<Longrightarrow> j \<in> known \<Longrightarrow>
    singleton_step x known s (s\<lparr>sm_crew := add_mset (n, Running (runner_request j jIn) (Some j)) C\<rparr>)"
| finish: "sm_crew s = add_mset (n, Running jIn job) C \<Longrightarrow> snd (runJob w x job jIn) = Some () \<Longrightarrow>
    singleton_step x known s (s\<lparr>sm_crew := add_mset (n, Releasing) C, sm_out := sm_out s @ fst (runJob w x job jIn)\<rparr>)"
| release: "sm_crew s = add_mset (n, Releasing) C \<Longrightarrow> sm_runners s n = Some r \<Longrightarrow> sr_mode r = LimitModeReschedule \<Longrightarrow> 0 < sr_tokens r \<Longrightarrow>
    singleton_step x known s (s\<lparr>sm_crew := add_mset (n, Idle) C, sm_runners := (sm_runners s)(n \<mapsto> r\<lparr>sr_tokens := sr_tokens r - 1\<rparr>)\<rparr>)"
| next_round: "sm_crew s = add_mset (n, Releasing) C \<Longrightarrow> sm_runners s n = Some r \<Longrightarrow> sr_mode r = LimitModeWait \<Longrightarrow>
    singleton_step x known s (s\<lparr>sm_crew := add_mset (n, Idle) C\<rparr>)"
| leave: "sm_crew s = add_mset (n, Idle) C \<Longrightarrow> sm_cancelled s \<Longrightarrow>
    singleton_step x known s (s\<lparr>sm_crew := add_mset (n, Exited) C\<rparr>)"
| stop: "singleton_step x known s (s\<lparr>sm_cancelled := True\<rparr>)"
| stop_returns: "sm_cancelled s \<Longrightarrow>
    singleton_step x known s (s\<lparr>sm_stopped := True,
      sm_late := (sm_late s \<or> sm_dispatches s \<noteq> {#} \<or> (\<exists>m. m \<in># sm_crew s \<and> is_alive (snd m)))\<rparr>)"
| start: "sm_stopped s \<Longrightarrow>
    singleton_step x known s (s\<lparr>sm_cancelled := False, sm_stopped := False, sm_entry := None, sm_starts := Suc (sm_starts s)\<rparr>)"

definition singleton_reachable :: "executor \<Rightarrow> internalJob set \<Rightarrow> singleton_state \<Rightarrow> bool" where
  "singleton_reachable x known s \<longleftrightarrow> (singleton_step x known)\<^sup>*\<^sup>* singleton_init s"

section \<open>A singleton job runs alone\<close>

definition alive :: "singleton_state \<Rightarrow> nat" where
  "alive s = size (filter_mset (\<lambda>m. is_alive (snd m)) (sm_crew s))"

definition running :: "singleton_state \<Rightarrow> nat" where
  "running s = size (filter_mset (\<lambda>m. is_running (snd m)) (sm_crew s))"

lemma running_le_alive: "running s \<le> alive s"
proof -
  have "size (filter_mset (\<lambda>m. is_running (snd m)) C) \<le> size (filter_mset (\<lambda>m. is_alive (snd m)) C)" for C :: "(nat \<times> runner) multiset"
    by (induction C) (auto simp: is_running_def split: runner.splits)
  then show ?thesis by (simp add: running_def alive_def)
qed

definition alone_inv :: "singleton_state \<Rightarrow> bool" where
  "alone_inv s \<longleftrightarrow> sm_raced s \<or> sm_late s \<or>
     alive s \<le> (if sm_entry s = None then 0 else 1) \<and> (sm_stopped s \<longrightarrow> alive s = 0 \<and> sm_dispatches s = {#} \<and> sm_cancelled s)"

lemma nobody_left: "(\<exists>m. m \<in># C \<and> is_alive (snd m)) \<or> size (filter_mset (\<lambda>m. is_alive (snd m)) C) = 0"
  by auto

lemma filter_alive_empty: "\<forall>n r. (n, r) \<in># C \<longrightarrow> \<not> is_alive r \<Longrightarrow> {#m \<in># C. is_alive (snd m)#} = {#}"
  by (induction C) auto

lemma alone_inv_step: "singleton_step x known s s' \<Longrightarrow> alone_inv s \<Longrightarrow> alone_inv s'"
proof (induction rule: singleton_step.induct)
  case (stop_returns s)
  then show ?case using nobody_left [of "sm_crew s"] by (auto simp: alone_inv_def alive_def)
qed (auto simp: alone_inv_def alive_def store_runner_def filter_alive_empty split: if_splits)

lemma alone_inv_reachable: "singleton_reachable x known s \<Longrightarrow> alone_inv s"
  unfolding singleton_reachable_def
proof (induction rule: rtranclp_induct)
  case base
  then show ?case by (simp add: alone_inv_def alive_def singleton_init_def)
qed (rule alone_inv_step)

text \<open>
  C22: A singleton job never runs twice at once as long as no two goroutines both find no runner for it, and no stop
  returned with something of the job still under way.
\<close>

theorem singleton_runs_alone:
  assumes "singleton_reachable x known s" "\<not> sm_raced s" "\<not> sm_late s"
  shows "running s \<le> 1"
  using alone_inv_reachable [OF assms(1)] running_le_alive [of s] assms(2,3) by (auto simp: alone_inv_def split: if_splits)

section \<open>Where it does not\<close>

text \<open>The run of a goroutine that has found an idle runner of the mode of its job.\<close>

lemma found_job_runs:
  assumes "singleton_reachable x known s" "sm_dispatches s = add_mset (Found j a n) D" "sm_crew s = add_mset (n, Idle) C"
    and "sm_runners s n = Some \<lparr>sr_mode = singletonLimitMode j, sr_queue = [], sr_tokens = 0\<rparr>" "j \<in> known"
  obtains t where "singleton_reachable x known (s\<lparr>sm_dispatches := add_mset (Sent j a) D,
    sm_runners := (sm_runners s)(n \<mapsto> \<lparr>sr_mode = singletonLimitMode j, sr_queue = [], sr_tokens = t\<rparr>),
    sm_crew := add_mset (n, Running (runner_request j a) (Some j)) C\<rparr>)"
proof -
  define t :: nat where "t = (if singletonLimitMode j = LimitModeReschedule then 1 else 0)"
  let ?r = "\<lparr>sr_mode = singletonLimitMode j, sr_queue = [], sr_tokens = t\<rparr>"
  let ?s1 = "s\<lparr>sm_dispatches := add_mset (Sending j a n) D, sm_runners := (sm_runners s)(n \<mapsto> ?r)\<rparr>"
  let ?s2 = "s\<lparr>sm_dispatches := add_mset (Sent j a) D, sm_runners := (sm_runners s)(n \<mapsto> ?r\<lparr>sr_queue := [a]\<rparr>)\<rparr>"
  let ?s3 = "s\<lparr>sm_dispatches := add_mset (Sent j a) D, sm_runners := (sm_runners s)(n \<mapsto> ?r), sm_crew := add_mset (n, Taken a) C\<rparr>"
  let ?s4 = "?s3\<lparr>sm_crew := add_mset (n, Running (runner_request j a) (Some j)) C\<rparr>"
  have "singleton_step x known s ?s1"
  proof (cases "singletonLimitMode j")
    case LimitModeReschedule
    then show ?thesis
      using singleton_step.acquire [of s j a n D "\<lparr>sr_mode = singletonLimitMode j, sr_queue = [], sr_tokens = 0\<rparr>" x known] assms(2,4)
      by (simp add: has_place_def t_def)
  next
    case LimitModeWait
    then have "(sm_runners s)(n \<mapsto> ?r) = sm_runners s" using assms(4) by (simp add: t_def fun_upd_idem)
    then show ?thesis using LimitModeWait singleton_step.pass [of s j a n D x known] assms(2) by simp
  qed
  moreover have "singleton_step x known ?s1 ?s2"
    using singleton_step.enqueue [of ?s1 j a n D ?r x known] by (simp add: singleton_buffer_def)
  moreover have "singleton_step x known ?s2 ?s3"
    using singleton_step.take [of ?s2 n C "?r\<lparr>sr_queue := [a]\<rparr>" a "[]" x known] assms(3) by simp
  moreover have "singleton_step x known ?s3 ?s4"
    using singleton_step.run [of ?s3 n a C j known x] assms(5) by simp
  ultimately have "singleton_reachable x known ?s4"
    using assms(1) unfolding singleton_reachable_def by (meson rtranclp.rtrancl_into_rtrancl)
  then show thesis using that by simp
qed

text \<open>Two runs of the job arrive; both goroutines look for a runner before either has stored one.\<close>

definition both_stored :: "internalJob \<Rightarrow> jobIn \<Rightarrow> jobIn \<Rightarrow> singleton_state" where
  "both_stored j a b = singleton_init\<lparr>sm_entry := Some 1, sm_fresh := 2,
     sm_runners := [0 \<mapsto> \<lparr>sr_mode = singletonLimitMode j, sr_queue = [], sr_tokens = 0\<rparr>,
                    1 \<mapsto> \<lparr>sr_mode = singletonLimitMode j, sr_queue = [], sr_tokens = 0\<rparr>],
     sm_dispatches := {#Found j a 0, Found j b 1#}, sm_crew := {#(0, Idle), (1, Idle)#}, sm_raced := True\<rparr>"

lemma both_stored_reachable: "singleton_reachable x {j} (both_stored j a b)"
proof -
  let ?i = singleton_init and ?r = "\<lparr>sr_mode = singletonLimitMode j, sr_queue = [], sr_tokens = 0\<rparr>"
  let ?d = "\<lambda>D. ?i\<lparr>sm_dispatches := D\<rparr>"
  let ?s1 = "?i\<lparr>sm_entry := Some 0, sm_fresh := 1, sm_runners := [0 \<mapsto> ?r], sm_dispatches := {#Found j a 0, Loaded j b None#},
    sm_crew := {#(0, Idle)#}\<rparr>"
  note init = singleton_init_def
  have "singleton_step x {j} ?i (?d {#Arrived j a#})" using singleton_step.receive [of ?i j "{j}" x a] by (simp add: init)
  moreover have "singleton_step x {j} (?d {#Arrived j a#}) (?d {#Arrived j a, Arrived j b#})"
    using singleton_step.receive [of "?d {#Arrived j a#}" j "{j}" x b] by (simp add: init add_mset_commute)
  moreover have "singleton_step x {j} (?d {#Arrived j a, Arrived j b#}) (?d {#Loaded j a None, Arrived j b#})"
    using singleton_step.load [of "?d {#Arrived j a, Arrived j b#}" j a "{#Arrived j b#}" x "{j}"] by (simp add: init)
  moreover have "singleton_step x {j} (?d {#Loaded j a None, Arrived j b#}) (?d {#Loaded j a None, Loaded j b None#})"
    using singleton_step.load [of "?d {#Loaded j a None, Arrived j b#}" j b "{#Loaded j a None#}" x "{j}"]
    by (simp add: init add_mset_commute)
  moreover have "singleton_step x {j} (?d {#Loaded j a None, Loaded j b None#}) ?s1"
    using singleton_step.store [of "?d {#Loaded j a None, Loaded j b None#}" j a "{#Loaded j b None#}" x "{j}"]
    by (simp add: init store_runner_def)
  moreover have "singleton_step x {j} ?s1 (both_stored j a b)"
    using singleton_step.store [of ?s1 j b "{#Found j a 0#}" x "{j}"]
    by (simp add: init store_runner_def both_stored_def add_mset_commute numeral_2_eq_2 fun_upd_def)
  ultimately show ?thesis unfolding singleton_reachable_def by (meson converse_rtranclp_into_rtranclp rtranclp.rtrancl_refl)
qed

text \<open>
  C38: The executor looks up and stores the runner of a singleton job in two steps. Two runs that arrive
  together, say one of the timer and one of \<open>RunNow\<close> before the job's first run, each start a runner, and the
  singleton job runs twice at once - in either mode, and with no stop involved.
\<close>

theorem singleton_job_can_run_twice:
  "\<exists>s. singleton_reachable x {j} s \<and> sm_starts s = 0 \<and> \<not> sm_late s \<and> running s = 2"
proof -
  let ?a = "\<lparr>in_id = j_id j, shouldSendOut = True\<rparr>" and ?b = "\<lparr>in_id = j_id j, shouldSendOut = False\<rparr>"
  let ?s = "both_stored j ?a ?b" and ?r = "\<lambda>t. \<lparr>sr_mode = singletonLimitMode j, sr_queue = [], sr_tokens = t\<rparr>"
  let ?run = "\<lambda>a. Running (runner_request j a) (Some j)"
  let ?s1 = "\<lambda>t. ?s\<lparr>sm_dispatches := {#Sent j ?a, Found j ?b 1#},
    sm_runners := (sm_runners ?s)(0 \<mapsto> ?r t), sm_crew := {#(0, ?run ?a), (1, Idle)#}\<rparr>"
  obtain t where t: "singleton_reachable x {j} (?s1 t)"
    by (rule found_job_runs [OF both_stored_reachable, of j ?a ?b j ?a 0 "{#Found j ?b 1#}" "{#(1, Idle)#}"])
      (simp_all add: both_stored_def)
  obtain u where "singleton_reachable x {j} ((?s1 t)\<lparr>sm_dispatches := {#Sent j ?b, Sent j ?a#},
      sm_runners := (sm_runners (?s1 t))(1 \<mapsto> ?r u), sm_crew := {#(1, ?run ?b), (0, ?run ?a)#}\<rparr>)" (is "singleton_reachable x _ ?s2")
    by (rule found_job_runs [OF t, of j ?b 1 "{#Sent j ?a#}" "{#(0, ?run ?a)#}"]) (simp_all add: both_stored_def add_mset_commute)
  moreover have "sm_starts ?s2 = 0 \<and> \<not> sm_late ?s2 \<and> running ?s2 = 2"
    by (simp add: running_def both_stored_def singleton_init_def)
  ultimately show ?thesis by blast
qed

section \<open>A change of the mode\<close>

text \<open>The goroutines of a job in mode \<open>m\<close> that are bound for the runner \<open>n\<close>.\<close>

fun bound_for :: "LimitMode \<Rightarrow> nat \<Rightarrow> dispatch \<Rightarrow> bool" where
  "bound_for m n (Arrived j jIn) \<longleftrightarrow> singletonLimitMode j = m"
| "bound_for m n (Loaded j jIn e) \<longleftrightarrow> singletonLimitMode j = m \<and> e = Some n"
| "bound_for m n (Found j jIn i) \<longleftrightarrow> singletonLimitMode j = m \<and> i = n"
| "bound_for m n (Sending j jIn i) \<longleftrightarrow> singletonLimitMode j = m \<and> i = n \<and> m = LimitModeWait"
| "bound_for m n (Sent j jIn) \<longleftrightarrow> m = LimitModeWait"

definition bound_dispatches :: "LimitMode \<Rightarrow> nat \<Rightarrow> singleton_state \<Rightarrow> bool" where
  "bound_dispatches m n s \<longleftrightarrow> sm_entry s = Some n \<and> (\<forall>d. d \<in># sm_dispatches s \<longrightarrow> bound_for m n d)"

definition starved :: "nat \<Rightarrow> nat \<Rightarrow> singleton_state \<Rightarrow> bool" where
  "starved k n s \<longleftrightarrow> k < sm_starts s \<or> sm_starts s = k \<and> bound_dispatches LimitModeReschedule n s \<and>
     (\<exists>r. sm_runners s n = Some r \<and> sr_mode r = LimitModeWait \<and> sr_queue r = []) \<and>
     (\<forall>i r. (i, r) \<in># sm_crew s \<longrightarrow> i = n \<and> r \<in> {Idle, Exited})"

lemma starved_step:
  "singleton_step x known s s' \<Longrightarrow> \<forall>j\<in>known. singletonLimitMode j = LimitModeReschedule \<Longrightarrow> starved k n s \<Longrightarrow> starved k n s'"
  by (induction rule: singleton_step.induct) (auto simp: starved_def bound_dispatches_def has_place_def store_runner_def)

text \<open>
  When \<open>Update\<close> changes the singleton mode of a job that has run from waiting to rescheduling, the job never runs
  again until the scheduler is stopped and started: its runner has no limiter, which counts as a busy runner.
\<close>

theorem mode_change_starves_job:
  assumes "sm_entry s = Some n" "sm_dispatches s = {#}" "sm_crew s = {#(n, Idle)#}"
    and "sm_runners s n = Some r" "sr_mode r = LimitModeWait" "sr_queue r = []"
    and "\<forall>j\<in>known. singletonLimitMode j = LimitModeReschedule"
    and "(singleton_step x known)\<^sup>*\<^sup>* s s'" "sm_starts s' = sm_starts s"
  shows "running s' = 0"
proof -
  have "starved (sm_starts s) n s'"
    using assms(8)
  proof (induction rule: rtranclp_induct)
    case base
    show ?case using assms(1-6) by (simp add: starved_def bound_dispatches_def)
  qed (rule starved_step [OF _ assms(7)])
  then have "(i, q) \<in># sm_crew s' \<Longrightarrow> \<not> is_running q" for i q using assms(9) by (fastforce simp: starved_def)
  then show ?thesis by (auto simp: running_def)
qed

definition held_up :: "nat \<Rightarrow> nat \<Rightarrow> jobIn \<Rightarrow> internalJob option \<Rightarrow> singleton_state \<Rightarrow> bool" where
  "held_up k n jIn job s \<longleftrightarrow> k < sm_starts s \<or> sm_starts s = k \<and> bound_dispatches LimitModeWait n s \<and>
     (\<exists>r. sm_runners s n = Some r \<and> sr_mode r = LimitModeReschedule \<and> sr_tokens r = 0) \<and>
     (sm_crew s = {#(n, Running jIn job)#} \<or> sm_crew s = {#(n, Releasing)#})"

lemma held_up_step:
  "singleton_step x known s s' \<Longrightarrow> \<forall>j\<in>known. singletonLimitMode j = LimitModeWait \<Longrightarrow> held_up k n jIn job s \<Longrightarrow> held_up k n jIn job s'"
  by (induction rule: singleton_step.induct) (auto simp: held_up_def bound_dispatches_def store_runner_def)

text \<open>
  When the mode changes from rescheduling to waiting, the next run of the job is its last: its runner then waits
  for good for a place in its limiter that nobody took, and no stop can wait for that runner.
\<close>

theorem mode_change_holds_runner:
  assumes "sm_entry s = Some n" "sm_dispatches s = {#}" "sm_crew s = {#(n, Running jIn job)#}"
    and "sm_runners s n = Some r" "sr_mode r = LimitModeReschedule" "sr_tokens r = 0"
    and "\<forall>j\<in>known. singletonLimitMode j = LimitModeWait"
    and "(singleton_step x known)\<^sup>*\<^sup>* s s'" "sm_starts s' = sm_starts s"
  shows "sm_crew s' \<in> {{#(n, Running jIn job)#}, {#(n, Releasing)#}} \<and> alive s' = 1"
proof -
  have "held_up (sm_starts s) n jIn job s'"
    using assms(8)
  proof (induction rule: rtranclp_induct)
    case base
    show ?case using assms(1-6) by (simp add: held_up_def bound_dispatches_def)
  qed (rule held_up_step [OF _ assms(7)])
  then show ?thesis using assms(9) by (auto simp: held_up_def alive_def)
qed

section \<open>Concrete runs\<close>

text \<open>The first run of a singleton job, and what is left of it when it has ended.\<close>

definition first_stored :: "internalJob \<Rightarrow> jobIn \<Rightarrow> singleton_state" where
  "first_stored j a = singleton_init\<lparr>sm_entry := Some 0, sm_fresh := 1,
     sm_runners := [0 \<mapsto> \<lparr>sr_mode = singletonLimitMode j, sr_queue = [], sr_tokens = 0\<rparr>],
     sm_dispatches := {#Found j a 0#}, sm_crew := {#(0, Idle)#}\<rparr>"

lemma first_stored_reachable:
  assumes "j \<in> known"
  shows "singleton_reachable x known (first_stored j a)"
proof -
  let ?i = singleton_init and ?d = "\<lambda>D. singleton_init\<lparr>sm_dispatches := D\<rparr>"
  note init = singleton_init_def
  have "singleton_step x known ?i (?d {#Arrived j a#})"
    using singleton_step.receive [of ?i j known x a] assms by (simp add: init)
  moreover have "singleton_step x known (?d {#Arrived j a#}) (?d {#Loaded j a None#})"
    using singleton_step.load [of "?d {#Arrived j a#}" j a "{#}" x known] by (simp add: init)
  moreover have "singleton_step x known (?d {#Loaded j a None#}) (first_stored j a)"
    using singleton_step.store [of "?d {#Loaded j a None#}" j a "{#}" x known] by (simp add: init store_runner_def first_stored_def)
  ultimately show ?thesis unfolding singleton_reachable_def by (meson converse_rtranclp_into_rtranclp rtranclp.rtrancl_refl)
qed

lemma first_run:
  assumes "j \<in> known"
  obtains t where "singleton_reachable x known (singleton_init\<lparr>sm_entry := Some 0, sm_fresh := 1, sm_dispatches := {#Sent j a#},
    sm_runners := [0 \<mapsto> \<lparr>sr_mode = singletonLimitMode j, sr_queue = [], sr_tokens = t\<rparr>],
    sm_crew := {#(0, Running (runner_request j a) (Some j))#}\<rparr>)"
  by (rule found_job_runs [OF first_stored_reachable [OF assms, of x a], where n = 0 and D = "{#}" and C = "{#}" and j = j and a = a])
    (simp_all add: first_stored_def singleton_init_def assms)

theorem singleton_runs_alone_witness:
  "\<exists>x s. singleton_reachable x {the singleton_job} s \<and> running s = 1 \<and> running s \<le> 1"
proof -
  fix x
  let ?j = "the singleton_job" and ?a = "request 1"
  obtain t where t: "singleton_reachable x {?j} (singleton_init\<lparr>sm_entry := Some 0, sm_fresh := 1, sm_dispatches := {#Sent ?j ?a#},
      sm_runners := [0 \<mapsto> \<lparr>sr_mode = singletonLimitMode ?j, sr_queue = [], sr_tokens = t\<rparr>],
      sm_crew := {#(0, Running (runner_request ?j ?a) (Some ?j))#}\<rparr>)" (is "singleton_reachable x _ ?s")
    by (rule first_run [of ?j "{?j}" x ?a]) simp
  have "running ?s \<le> 1" by (rule singleton_runs_alone [OF t]) (simp_all add: singleton_init_def)
  moreover have "running ?s = 1" by (simp add: running_def)
  ultimately show ?thesis using t by blast
qed

text \<open>The runner of a job after its mode was changed to \<open>m'\<close>.\<close>

definition after_update :: "LimitMode \<Rightarrow> runner \<Rightarrow> singleton_state" where
  "after_update m r = singleton_init\<lparr>sm_entry := Some 0, sm_fresh := 1, sm_crew := {#(0, r)#},
     sm_runners := [0 \<mapsto> \<lparr>sr_mode = m, sr_queue = [], sr_tokens = 0\<rparr>]\<rparr>"

definition in_mode :: "LimitMode \<Rightarrow> internalJob" where
  "in_mode m = zero_job\<lparr>singletonMode := True, singletonLimitMode := m\<rparr>"

lemma receive_after_update:
  "(singleton_step x {in_mode m'})\<^sup>*\<^sup>* (after_update m r)
    ((after_update m r)\<lparr>sm_dispatches := {#Arrived (in_mode m') (request 1)#}\<rparr>)"
  using singleton_step.receive [of "after_update m r" "in_mode m'" "{in_mode m'}" x "request 1"]
  by (auto simp: after_update_def singleton_init_def)

theorem mode_change_starves_job_witness:
  "running ((after_update LimitModeWait Idle)\<lparr>sm_dispatches := {#Arrived (in_mode LimitModeReschedule) (request 1)#}\<rparr>) = 0"
  by (rule mode_change_starves_job [OF _ _ _ _ _ _ _ receive_after_update,
      where n = 0 and r = "\<lparr>sr_mode = LimitModeWait, sr_queue = [], sr_tokens = 0\<rparr>"])
    (simp_all add: after_update_def singleton_init_def in_mode_def)

theorem mode_change_holds_runner_witness:
  "alive ((after_update LimitModeReschedule (Running (request 1) singleton_job))
    \<lparr>sm_dispatches := {#Arrived (in_mode LimitModeWait) (request 1)#}\<rparr>) = 1"
  using mode_change_holds_runner [OF _ _ _ _ _ _ _ receive_after_update [of _ LimitModeWait LimitModeReschedule "Running (request 1) singleton_job"],
    of 0 "request 1" singleton_job]
  by (simp add: after_update_def singleton_init_def in_mode_def)

end
