(* ===== verification/SchedulerOptions.thy ===== *)
theory SchedulerOptions
  imports JobOptions Scheduler
begin

text \<open>
  The options of \<open>NewScheduler\<close>: the configuration they write, the errors for missing or zero
  values, and the limit-mode configuration of the executor. A nil interface value is \<open>None\<close>.
\<close>

record limitModeConfig =
  lm_started :: bool
  lm_mode :: LimitMode
  lm_limit :: "64 word"
  lm_has_limiter :: bool

record scheduler_config =
  cfg_clock :: handle
  cfg_elector :: "handle option"
  cfg_locker :: "handle option"
  cfg_globalJobOptions :: "JobOption list"
  cfg_limitMode :: "limitModeConfig option"
  cfg_location :: location
  cfg_logger :: handle
  cfg_stopTimeout :: int
  cfg_monitor :: "handle option"
  cfg_monitorStatus :: "handle option"
  cfg_schedulerMonitor :: "handle option"

text \<open>The defaults: the real clock, the no-op logger, the local time zone, ten seconds.\<close>

definition default_config :: "location \<Rightarrow> scheduler_config" where
  "default_config local =
     \<lparr>cfg_clock = 0, cfg_elector = None, cfg_locker = None, cfg_globalJobOptions = [], cfg_limitMode = None,
      cfg_location = local, cfg_logger = 0, cfg_stopTimeout = 10 * nanos, cfg_monitor = None,
      cfg_monitorStatus = None, cfg_schedulerMonitor = None\<rparr>"

datatype SchedulerOption =
    WithClock "handle option"
  | WithDistributedElector "handle option"
  | WithDistributedLocker "handle option"
  | WithGlobalJobOptions "JobOption list"
  | WithLimitConcurrentJobs "64 word" LimitMode
  | WithLocation "location option"
  | WithLogger "handle option"
  | WithStopTimeout int
  | WithMonitor "handle option"
  | WithMonitorStatus "handle option"
  | WithSchedulerMonitor "handle option"

definition apply_WithClock :: "handle option \<Rightarrow> scheduler_config \<Rightarrow> scheduler_config result" where
  "apply_WithClock c s =
     (case c of None \<Rightarrow> Inl ErrWithClockNil | Some h \<Rightarrow> Inr (s\<lparr>cfg_clock := h\<rparr>))"

definition apply_WithDistributedElector :: "handle option \<Rightarrow> scheduler_config \<Rightarrow> scheduler_config result" where
  "apply_WithDistributedElector e s =
     (if e = None then Inl ErrWithDistributedElectorNil else Inr (s\<lparr>cfg_elector := e\<rparr>))"

definition apply_WithDistributedLocker :: "handle option \<Rightarrow> scheduler_config \<Rightarrow> scheduler_config result" where
  "apply_WithDistributedLocker lk s =
     (if lk = None then Inl ErrWithDistributedLockerNil else Inr (s\<lparr>cfg_locker := lk\<rparr>))"

definition apply_WithGlobalJobOptions :: "JobOption list \<Rightarrow> scheduler_config \<Rightarrow> scheduler_config result" where
  "apply_WithGlobalJobOptions opts s =
     Inr (s\<lparr>cfg_globalJobOptions := cfg_globalJobOptions s @ opts\<rparr>)"

definition apply_WithLimitConcurrentJobs :: "64 word \<Rightarrow> LimitMode \<Rightarrow> scheduler_config \<Rightarrow> scheduler_config result" where
  "apply_WithLimitConcurrentJobs n mode s =
     (if n = 0 then Inl ErrWithLimitConcurrentJobsZero
      else Inr (s\<lparr>cfg_limitMode := Some \<lparr>lm_started = False, lm_mode = mode, lm_limit = n,
             lm_has_limiter = (mode = LimitModeReschedule)\<rparr>\<rparr>))"

definition apply_WithLocation :: "location option \<Rightarrow> scheduler_config \<Rightarrow> scheduler_config result" where
  "apply_WithLocation l s =
     (case l of None \<Rightarrow> Inl ErrWithLocationNil | Some loc \<Rightarrow> Inr (s\<lparr>cfg_location := loc\<rparr>))"

definition apply_WithLogger :: "handle option \<Rightarrow> scheduler_config \<Rightarrow> scheduler_config result" where
  "apply_WithLogger l s =
     (case l of None \<Rightarrow> Inl ErrWithLoggerNil | Some h \<Rightarrow> Inr (s\<lparr>cfg_logger := h\<rparr>))"

definition apply_WithStopTimeout :: "int \<Rightarrow> scheduler_config \<Rightarrow> scheduler_config result" where
  "apply_WithStopTimeout t s =
     (if t \<le> 0 then Inl ErrWithStopTimeoutZeroOrNegative else Inr (s\<lparr>cfg_stopTimeout := t\<rparr>))"

definition apply_WithMonitor :: "handle option \<Rightarrow> scheduler_config \<Rightarrow> scheduler_config result" where
  "apply_WithMonitor m s =
     (if m = None then Inl ErrWithMonitorNil else Inr (s\<lparr>cfg_monitor := m\<rparr>))"

definition apply_WithMonitorStatus :: "handle option \<Rightarrow> scheduler_config \<Rightarrow> scheduler_config result" where
  "apply_WithMonitorStatus m s =
     (if m = None then Inl ErrWithMonitorNil else Inr (s\<lparr>cfg_monitorStatus := m\<rparr>))"

definition apply_WithSchedulerMonitor :: "handle option \<Rightarrow> scheduler_config \<Rightarrow> scheduler_config result" where
  "apply_WithSchedulerMonitor m s =
     (if m = None then Inl ErrSchedulerMonitorNil else Inr (s\<lparr>cfg_schedulerMonitor := m\<rparr>))"

text \<open>The interface: which option a value is.\<close>

fun apply_scheduler_option :: "SchedulerOption \<Rightarrow> scheduler_config \<Rightarrow> scheduler_config result" where
  "apply_scheduler_option (WithClock c) s = apply_WithClock c s"
| "apply_scheduler_option (WithDistributedElector e) s = apply_WithDistributedElector e s"
| "apply_scheduler_option (WithDistributedLocker lk) s = apply_WithDistributedLocker lk s"
| "apply_scheduler_option (WithGlobalJobOptions opts) s = apply_WithGlobalJobOptions opts s"
| "apply_scheduler_option (WithLimitConcurrentJobs n mode) s = apply_WithLimitConcurrentJobs n mode s"
| "apply_scheduler_option (WithLocation l) s = apply_WithLocation l s"
| "apply_scheduler_option (WithLogger l) s = apply_WithLogger l s"
| "apply_scheduler_option (WithStopTimeout t) s = apply_WithStopTimeout t s"
| "apply_scheduler_option (WithMonitor m) s = apply_WithMonitor m s"
| "apply_scheduler_option (WithMonitorStatus m) s = apply_WithMonitorStatus m s"
| "apply_scheduler_option (WithSchedulerMonitor m) s = apply_WithSchedulerMonitor m s"

lemmas scheduler_option_defs =
  apply_WithClock_def apply_WithDistributedElector_def apply_WithDistributedLocker_def
  apply_WithGlobalJobOptions_def apply_WithLimitConcurrentJobs_def apply_WithLocation_def
  apply_WithLogger_def apply_WithStopTimeout_def apply_WithMonitor_def
  apply_WithMonitorStatus_def apply_WithSchedulerMonitor_def

fun apply_scheduler_options :: "SchedulerOption list \<Rightarrow> scheduler_config \<Rightarrow> scheduler_config result" where
  "apply_scheduler_options [] s = Inr s"
| "apply_scheduler_options (opt # opts) s =
     (case apply_scheduler_option opt s of Inl e \<Rightarrow> Inl e | Inr s \<Rightarrow> apply_scheduler_options opts s)"

text \<open>\<open>NewScheduler\<close>: the first failing option's error, or the configuration with a fresh state.\<close>

definition NewScheduler :: "location \<Rightarrow> SchedulerOption list \<Rightarrow> (scheduler_config \<times> scheduler) result" where
  "NewScheduler local opts =
     map_sum id (\<lambda>c. (c, NewScheduler_state (cfg_location c) (cfg_schedulerMonitor c \<noteq> None)))
       (apply_scheduler_options opts (default_config local))"

section \<open>Facts\<close>

text \<open>A configuration that was accepted: a positive timeout and a limit with a limiter just where
  runs are rescheduled.\<close>

definition config_ok :: "scheduler_config \<Rightarrow> bool" where
  "config_ok c \<longleftrightarrow> 0 < cfg_stopTimeout c \<and>
     (\<forall>lm. cfg_limitMode c = Some lm \<longrightarrow>
        lm_limit lm \<noteq> 0 \<and> \<not> lm_started lm \<and> lm_has_limiter lm = (lm_mode lm = LimitModeReschedule))"

lemma scheduler_option_ok: "apply_scheduler_option opt c = Inr c' \<Longrightarrow> config_ok c \<Longrightarrow> config_ok c'"
  by (cases opt) (auto simp: scheduler_option_defs config_ok_def split: if_splits option.splits)

lemma scheduler_options_ok: "apply_scheduler_options opts c = Inr c' \<Longrightarrow> config_ok c \<Longrightarrow> config_ok c'"
  by (induction opts arbitrary: c) (auto intro: scheduler_option_ok split: sum.splits)

lemma default_config_ok: "config_ok (default_config local)"
  by (simp add: config_ok_def default_config_def)

text \<open>Global job options accumulate in the order in which they are given.\<close>

definition global_options :: "SchedulerOption list \<Rightarrow> JobOption list" where
  "global_options opts = concat (map (\<lambda>opt. case opt of WithGlobalJobOptions os \<Rightarrow> os | _ \<Rightarrow> []) opts)"

lemma global_options_accumulate:
  "apply_scheduler_options opts c = Inr c' \<Longrightarrow> cfg_globalJobOptions c' = cfg_globalJobOptions c @ global_options opts"
proof (induction opts arbitrary: c)
  case (Cons opt opts)
  then obtain c1 where c1: "apply_scheduler_option opt c = Inr c1" "apply_scheduler_options opts c1 = Inr c'"
    by (auto split: sum.splits)
  then show ?case using Cons.IH [OF c1(2)]
    by (cases opt) (auto simp: scheduler_option_defs global_options_def split: if_splits option.splits)
qed (simp add: global_options_def)

end
