(* ===== verification/Logger.thy ===== *)
theory Logger
  imports Prelude
begin

text \<open>
  The level filter and the argument formatting of logger.go. A line is its prefix and its text;
  writing it is left to the log package. An argument is the text that fmt gives it.
\<close>

datatype LogLevel = LogLevelError | LogLevelWarn | LogLevelInfo | LogLevelDebug

text \<open>The constants are numbered by iota.\<close>

fun level_number :: "LogLevel \<Rightarrow> int" where
  "level_number LogLevelError = 0"
| "level_number LogLevelWarn = 1"
| "level_number LogLevelInfo = 2"
| "level_number LogLevelDebug = 3"

instantiation LogLevel :: linorder
begin

definition less_eq_LogLevel :: "LogLevel \<Rightarrow> LogLevel \<Rightarrow> bool" where
  "less_eq_LogLevel a b \<longleftrightarrow> level_number a \<le> level_number b"

definition less_LogLevel :: "LogLevel \<Rightarrow> LogLevel \<Rightarrow> bool" where
  "less_LogLevel a b \<longleftrightarrow> level_number a < level_number b"

instance
proof
  fix a b c :: LogLevel
  show "a < b \<longleftrightarrow> a \<le> b \<and> \<not> b \<le> a" by (auto simp: less_eq_LogLevel_def less_LogLevel_def)
  show "a \<le> a" by (simp add: less_eq_LogLevel_def)
  show "a \<le> b \<Longrightarrow> b \<le> c \<Longrightarrow> a \<le> c" by (simp add: less_eq_LogLevel_def)
  show "a \<le> b \<Longrightarrow> b \<le> a \<Longrightarrow> a = b" by (cases a; cases b) (simp_all add: less_eq_LogLevel_def)
  show "a \<le> b \<or> b \<le> a" by (auto simp: less_eq_LogLevel_def)
qed

end

section \<open>Formatting\<close>

text \<open>Key and value pairs; the Go loop steps by two over a list of even length.\<close>

fun format_pairs :: "string list \<Rightarrow> string list" where
  "format_pairs (k # v # rest) = (k @ ''='' @ v) # format_pairs rest"
| "format_pairs _ = []"

fun strings_Join :: "string list \<Rightarrow> string \<Rightarrow> string" where
  "strings_Join [] sep = []"
| "strings_Join [s] sep = s"
| "strings_Join (s # t # ss) sep = s @ sep @ strings_Join (t # ss) sep"

text \<open>\<open>sprint\<close> is \<open>fmt.Sprint\<close> of the arguments, which is used for a list of odd length.\<close>

definition logFormatArgs :: "(string list \<Rightarrow> string) \<Rightarrow> string list \<Rightarrow> string" where
  "logFormatArgs sprint args =
     (if length args = 0 then []
      else if length args mod 2 \<noteq> 0 then '', '' @ sprint args
      else '', '' @ strings_Join (format_pairs args) '', '')"

section \<open>The logger\<close>

datatype log_method = Log_Debug | Log_Error | Log_Info | Log_Warn

text \<open>What a call writes on a logger of the given level; \<open>None\<close> where it writes nothing.\<close>

definition logger_Debug :: "(string list \<Rightarrow> string) \<Rightarrow> LogLevel \<Rightarrow> string \<Rightarrow> string list \<Rightarrow> string option" where
  "logger_Debug sprint level msg args =
     (if level < LogLevelDebug then None else Some (''DEBUG: '' @ msg @ logFormatArgs sprint args @ ''\<newline>''))"

definition logger_Error :: "(string list \<Rightarrow> string) \<Rightarrow> LogLevel \<Rightarrow> string \<Rightarrow> string list \<Rightarrow> string option" where
  "logger_Error sprint level msg args =
     (if level < LogLevelError then None else Some (''ERROR: '' @ msg @ logFormatArgs sprint args @ ''\<newline>''))"

definition logger_Info :: "(string list \<Rightarrow> string) \<Rightarrow> LogLevel \<Rightarrow> string \<Rightarrow> string list \<Rightarrow> string option" where
  "logger_Info sprint level msg args =
     (if level < LogLevelInfo then None else Some (''INFO: '' @ msg @ logFormatArgs sprint args @ ''\<newline>''))"

definition logger_Warn :: "(string list \<Rightarrow> string) \<Rightarrow> LogLevel \<Rightarrow> string \<Rightarrow> string list \<Rightarrow> string option" where
  "logger_Warn sprint level msg args =
     (if level < LogLevelWarn then None else Some (''WARN: '' @ msg @ logFormatArgs sprint args @ ''\<newline>''))"

fun log_line :: "(string list \<Rightarrow> string) \<Rightarrow> LogLevel \<Rightarrow> log_method \<Rightarrow> string \<Rightarrow> string list \<Rightarrow> string option" where
  "log_line sprint level Log_Debug = logger_Debug sprint level"
| "log_line sprint level Log_Error = logger_Error sprint level"
| "log_line sprint level Log_Info = logger_Info sprint level"
| "log_line sprint level Log_Warn = logger_Warn sprint level"

text \<open>The two implementations of the interface: one that writes nothing, and one of a level.\<close>

datatype Logger_impl = noOpLogger | LeveledLogger LogLevel

definition NewLogger :: "LogLevel \<Rightarrow> Logger_impl" where
  "NewLogger level = LeveledLogger level"

fun Logger_line :: "(string list \<Rightarrow> string) \<Rightarrow> Logger_impl \<Rightarrow> log_method \<Rightarrow> string \<Rightarrow> string list \<Rightarrow> string option" where
  "Logger_line sprint noOpLogger m msg args = None"
| "Logger_line sprint (LeveledLogger level) m msg args = log_line sprint level m msg args"

lemmas logger_defs = logger_Debug_def logger_Error_def logger_Info_def logger_Warn_def

text \<open>The severity a method logs at.\<close>

fun method_level :: "log_method \<Rightarrow> LogLevel" where
  "method_level Log_Debug = LogLevelDebug"
| "method_level Log_Error = LogLevelError"
| "method_level Log_Info = LogLevelInfo"
| "method_level Log_Warn = LogLevelWarn"

lemma log_line_None: "log_line sprint level m msg args = None \<longleftrightarrow> level < method_level m"
  by (cases m) (simp_all add: logger_defs)

lemma length_format_pairs: "length (format_pairs args) = length args div 2"
  by (induction args rule: format_pairs.induct) simp_all

lemma nth_format_pairs:
  "i < length args div 2 \<Longrightarrow> format_pairs args ! i = args ! (2 * i) @ ''='' @ args ! (2 * i + 1)"
  by (induction args arbitrary: i rule: format_pairs.induct) (auto simp: nth_Cons split: nat.split)

end
