(* ===== verification/JobTheorems.thy ===== *)
theory JobTheorems
  imports SchedulerTheorems SchedulerOptions Logger
begin

text \<open>
  What holds of the jobs that callers create and look at: definitions and options, the checks of a
  task, the accessors, and the options of the scheduler and its logger.
\<close>

section \<open>Definitions and options\<close>

lemma modern_UTC: "modern UTC"
  by (simp add: modern_def UTC_def)

text \<open>
  A list of at-times is accepted just when it is not nil and every entry is a time of day. In a location
  without early transitions the stored times ascend by clock reading and show just the readings asked for.
\<close>

theorem at_times_accepted:
  assumes "modern l"
  shows "case convertAtTimesToDateTime ats l of
      Inr ts \<Rightarrow> (\<exists>as. ats = Some as \<and> list_all valid_at as) \<and> sorted (map clock_of ts) \<and>
        set (map clock_of ts) = {at_clock a |a. Some a \<in> set (the ats)}
    | Inl e \<Rightarrow> \<not> (\<exists>as. ats = Some as \<and> list_all valid_at as)"
proof (cases "convertAtTimesToDateTime ats l")
  case (Inl e)
  then have "\<nexists>ts. convertAtTimesToDateTime ats l = Inr ts" by simp
  then show ?thesis using Inl unfolding convertAtTimes_ok by (auto simp: list_all_iff)
next
  case (Inr ts)
  then obtain as where "ats = Some as" "list_all valid_at as" by (auto simp: convertAtTimes_ok list_all_iff)
  then show ?thesis using convertAtTimes_sorted(1,2) [OF assms Inr] unfolding Inr by simp
qed

theorem at_times_accepted_witness:
  "\<not> is_error (convertAtTimesToDateTime (Some [Some \<lparr>at_hours = 23, at_minutes = 0, at_seconds = 0\<rparr>]) UTC) \<and>
   is_error (convertAtTimesToDateTime (Some [Some \<lparr>at_hours = 24, at_minutes = 0, at_seconds = 0\<rparr>]) UTC)"
  using at_times_accepted [OF modern_UTC, of "Some [Some \<lparr>at_hours = 23, at_minutes = 0, at_seconds = 0\<rparr>]"]
    at_times_accepted [OF modern_UTC, of "Some [Some \<lparr>at_hours = 24, at_minutes = 0, at_seconds = 0\<rparr>]"]
  by (auto simp: valid_at_def split: sum.splits)

text \<open>
  The runs of a job that \<open>NewJob\<close> accepted move forward: the next run is zero or later. For a cron job
  the implementation has to keep its contract; for a monthly job the location has no transitions and the
  interval does not wrap as an int.
\<close>

theorem accepted_jobs_move_forward:
  assumes "definition_setup parse def j l now = Inr j'" "modern l" "draws_ok rnd"
    and "\<And>c. j_schedule j' = Some (Cron c) \<Longrightarrow> cron_advances (c_schedule c)"
    and "\<And>m. j_schedule j' = Some (Monthly m) \<Longrightarrow> m_atTimes m \<noteq> [] \<and> 0 < sint (m_interval m) \<and>
      fixed_zone (tloc t) \<and> 0 < inst (first_of (tloc t) (month_index t))"
    and "job_next rnd j' t = Some n"
  shows "IsZero n \<or> After n t"
proof -
  obtain s where s: "j_schedule j' = Some s" "sched_next rnd s t = Some n"
    using assms(6) by (auto simp: job_next_def split: option.splits)
  have "progress_ok s t" by (rule setup_progress [OF assms(1) s(1)]) (use assms(2,4,5) s(1) in auto)
  then show ?thesis using sched_next_progress(1) [OF assms(3) _ s(2)] by blast
qed

theorem accepted_jobs_move_forward_witness:
  "\<exists>j' n. definition_setup (\<lambda>_ _. Inl ErrCronJobParse) (durationRandomJobDefinition 3 8) zero_job UTC zero_time = Inr j' \<and>
     job_next (\<lambda>_ _. 0) j' (time_at UTC 5) = Some n \<and> (IsZero n \<or> After n (time_at UTC 5))"
proof -
  obtain j' n where j': "definition_setup (\<lambda>_ _. Inl ErrCronJobParse) (durationRandomJobDefinition 3 8) zero_job UTC zero_time = Inr j'"
    and s: "j_schedule j' = Some (DurationRandom \<lparr>min_duration = 3, max_duration = 8\<rparr>)"
    and n: "job_next (\<lambda>_ _. 0) j' (time_at UTC 5) = Some n"
    by (simp add: durationRandom_setup_def job_next_def)
  have "draws_ok (\<lambda>_ _. 0)" by (simp add: draws_ok_def)
  from accepted_jobs_move_forward [OF j' modern_UTC this _ _ n] s j' n show ?thesis by simp
qed

text \<open>
  A one-time job is stored with just the requested times after now, strictly ascending, and starts at the
  first of them.
\<close>

theorem oneTime_jobs_keep_future:
  assumes "oneTime_setup startAt j now = Inr j'"
  shows "\<exists>ts. j_schedule j' = Some (OneTime \<lparr>sortedTimes = ts\<rparr>) \<and> strict_by inst ts \<and>
    inst ` set ts = {inst t |t. t \<in> set (fst (OneTime_startAt startAt j)) \<and> After t now} \<and>
    (startImmediately j' \<or> ts \<noteq> []) \<and> (ts \<noteq> [] \<longrightarrow> startTime j' = hd ts)"
proof -
  obtain ts where ts: "j_schedule j' = Some (OneTime \<lparr>sortedTimes = ts\<rparr>)" "strict_by inst ts"
    "inst ` set ts = {inst t |t. t \<in> set (fst (OneTime_startAt startAt j)) \<and> After t now}"
    by (rule oneTime_setup_ok [OF assms])
  have "(startImmediately j' \<or> ts \<noteq> []) \<and> (ts \<noteq> [] \<longrightarrow> startTime j' = hd ts)"
    using assms ts(1) by (auto simp: oneTime_setup_def Let_def split: prod.splits if_splits list.splits)
  then show ?thesis using ts by blast
qed

theorem oneTime_jobs_keep_future_witness:
  "\<exists>j' ts. oneTime_setup (OneTimeJobStartDateTimes [\<lparr>inst = 9, tloc = UTC\<rparr>, \<lparr>inst = 3, tloc = UTC\<rparr>]) zero_job
      \<lparr>inst = 5, tloc = UTC\<rparr> = Inr j' \<and> j_schedule j' = Some (OneTime \<lparr>sortedTimes = ts\<rparr>) \<and> inst ` set ts = {9}"
proof -
  let ?d = "OneTimeJobStartDateTimes [\<lparr>inst = 9, tloc = UTC\<rparr>, \<lparr>inst = 3, tloc = UTC\<rparr>]"
  have "\<not> is_error (oneTime_setup ?d zero_job \<lparr>inst = 5, tloc = UTC\<rparr>)"
    by (simp add: oneTime_setup_def future_times_strict dedup_strict Let_def SortStableTimes_def
      removeSliceDuplicatesTimeOnSortedSlice_def Equal_def After_def)
  then obtain j' where j': "oneTime_setup ?d zero_job \<lparr>inst = 5, tloc = UTC\<rparr> = Inr j'"
    by (cases "oneTime_setup ?d zero_job \<lparr>inst = 5, tloc = UTC\<rparr>") simp_all
  have "{inst t |t. t \<in> set (fst (OneTime_startAt ?d zero_job)) \<and> After t \<lparr>inst = 5, tloc = UTC\<rparr>} = {9}"
    by (auto simp: After_def intro!: exI [of _ "\<lparr>inst = 9, tloc = UTC\<rparr>"])
  then show ?thesis using oneTime_jobs_keep_future [OF j'] j' by auto
qed

lemma definition_setup_frame:
  assumes "definition_setup parse def j l now = Inr j'"
  shows "j_schedule j' \<noteq> None \<and> j_id j' = j_id j \<and> nextScheduled j' = nextScheduled j \<and> j_timer j' = j_timer j \<and>
    j_limitRunsTo j' = j_limitRunsTo j \<and> j_ctx j' = j_ctx j \<and> j_parentCtx j' = j_parentCtx j \<and>
    stopTime j' = stopTime j \<and> j_parameters j' = j_parameters j \<and> j_function j' = j_function j"
proof (cases "def")
  case (oneTimeJobDefinition startAt)
  then show ?thesis using assms
    by (cases startAt) (auto simp: oneTime_setup_def Let_def split: if_splits list.splits)
qed (use assms in \<open>auto simp: cron_setup_def duration_setup_def durationRandom_setup_def daily_setup_def weekly_setup_def
  monthly_setup_def Let_def split: if_splits option.splits sum.splits prod.splits\<close>)

lemma zero_job_inv: "uid \<noteq> 0 \<Longrightarrow> options_inv (zero_job\<lparr>j_id := uid, j_name := n, j_function := f, j_parameters := ps\<rparr>)"
  by (simp add: options_inv_def zero_job_def)

lemma built_job:
  assumes "build_job je e uid def tsk opts s = Some (Inr j, s')" "je_new_uuid je \<noteq> 0"
  shows "j_schedule j \<noteq> None \<and> j_id j \<noteq> 0 \<and> nextScheduled j = [] \<and> j_timer j = None \<and>
    (\<forall>l. j_limitRunsTo j = Some l \<longrightarrow> run_limit l \<noteq> 0 \<and> runCount l = 0) \<and>
    (\<exists>p. j_parentCtx j = Some p \<and> j_ctx j = Derived (fresh_ctx s) p) \<and> s' = s\<lparr>fresh_ctx := Suc (fresh_ctx s)\<rparr>"
proof -
  obtain t where t: "tsk = Some t" using assms(1) by (cases tsk) (simp_all add: build_job_def Let_def)
  let ?uid = "if uid = 0 then je_new_uuid je else uid"
  let ?j0 = "zero_job\<lparr>j_id := ?uid, j_name := je_func_name je (t_function t), j_function := t_function t,
    j_parameters := t_parameters t\<rparr>"
  obtain ins variadic n where f: "task_function (t_function t) = Some (ins, variadic, n)"
    using assms(1) by (auto simp: build_job_def Let_def t split: option.splits)
  obtain j1 where j1: "apply_options (je_globalJobOptions je @ opts) ?j0 (s_now e s) = Inr j1"
    using assms(1) by (auto simp: build_job_def Let_def t f split: sum.splits)
  define p where "p = (case j_parentCtx j1 of None \<Rightarrow> shutdownCtx | Some p \<Rightarrow> p)"
  let ?c = "Derived (fresh_ctx s) p"
  define j2 where "j2 = j1\<lparr>j_parentCtx := Some p, j_ctx := ?c,
    j_parameters := add_context (je_implements je) ins n ?c (t_parameters t)\<rparr>"
  have built: "build_job je e uid def tsk opts s =
      (case verifyParameterType (je_implements je) ins variadic (j_parameters j2) of
         Panics \<Rightarrow> None | Fails err \<Rightarrow> Some (Inl err, cancel ?c (s\<lparr>fresh_ctx := Suc (fresh_ctx s)\<rparr>))
       | Passes \<Rightarrow> (case definition_setup (je_parse je) def j2 (s_location s) (e_clock e) of
           Inl err \<Rightarrow> Some (Inl err, cancel ?c (s\<lparr>fresh_ctx := Suc (fresh_ctx s)\<rparr>))
         | Inr j \<Rightarrow> Some (Inr j, s\<lparr>fresh_ctx := Suc (fresh_ctx s)\<rparr>)))"
    unfolding j2_def p_def by (simp add: build_job_def Let_def t f j1 WithCancel_def cong: check.case_cong)
  then have stored: "definition_setup (je_parse je) def j2 (s_location s) (e_clock e) = Inr j"
    and s': "s' = s\<lparr>fresh_ctx := Suc (fresh_ctx s)\<rparr>"
    using assms(1) by (auto split: check.splits sum.splits)
  have "options_inv j1" using options_keep_inv [OF j1] zero_job_inv assms(2) by simp
  then show ?thesis using definition_setup_frame [OF stored] s' by (auto simp: options_inv_def j2_def)
qed

text \<open>
  C25: A job that \<open>NewJob\<close> and \<open>Update\<close> build is complete and fresh: it has a schedule and a nonzero
  identifier, no run has been scheduled or counted, and its context is new and derived from its parent.
\<close>

theorem built_jobs_are_fresh:
  assumes "build_job je e uid def tsk opts s = Some (Inr j, s')" "je_new_uuid je \<noteq> 0"
  shows "j_schedule j \<noteq> None \<and> j_id j \<noteq> 0 \<and> nextScheduled j = [] \<and> j_timer j = None \<and>
    (\<forall>l. j_limitRunsTo j = Some l \<longrightarrow> run_limit l \<noteq> 0 \<and> runCount l = 0) \<and>
    (\<exists>p. j_parentCtx j = Some p \<and> j_ctx j = Derived (fresh_ctx s) p) \<and> s' = s\<lparr>fresh_ctx := Suc (fresh_ctx s)\<rparr>"
  by (rule built_job [OF assms])

lemma zero_job_simps [simp]:
  "j_parentCtx zero_job = None" "nextScheduled zero_job = []" "j_timer zero_job = None" "startImmediately zero_job = False"
  "startTime zero_job = zero_time" "stopTime zero_job = zero_time" "j_limitRunsTo zero_job = None" "j_schedule zero_job = None"
  by (simp_all add: zero_job_def)

text \<open>A task without parameters and the surroundings in which it is scheduled every 10 nanoseconds.\<close>

definition plain_env :: "uuid \<Rightarrow> job_env" where
  "plain_env uid = \<lparr>je_parse = \<lambda>_ _. Inl ErrCronJobParse, je_implements = \<lambda>_ _. False, je_func_name = \<lambda>_. ''main.f'',
     je_new_uuid = uid, je_globalJobOptions = [], je_shut_down = False\<rparr>"

definition plain_task :: task where
  "plain_task = \<lparr>t_function = Value (FuncT [] False) 1, t_parameters = []\<rparr>"

definition plain_job :: "uuid \<Rightarrow> nat \<Rightarrow> internalJob" where
  "plain_job uid n = every 10 uid\<lparr>j_name := ''main.f'', j_function := Value (FuncT [] False) 1,
     j_parentCtx := Some shutdownCtx, j_ctx := Derived n shutdownCtx\<rparr>"

lemma plain_built:
  "build_job (plain_env uid) e 0 (durationJobDefinition 10) (Some plain_task) [] s =
     Some (Inr (plain_job uid (fresh_ctx s)), s\<lparr>fresh_ctx := Suc (fresh_ctx s)\<rparr>)"
  by (simp add: build_job_def plain_env_def plain_task_def plain_job_def every_def Let_def WithCancel_def add_context_def
    verifyParameterType_def verifyNonVariadic_def duration_setup_def zero_job_def cong: check.case_cong)

theorem built_jobs_are_fresh_witness:
  "j_ctx (plain_job 7 1) = Derived 1 shutdownCtx \<and> nextScheduled (plain_job 7 1) = [] \<and> j_schedule (plain_job 7 1) \<noteq> None"
  using built_jobs_are_fresh [OF plain_built [of 7 "clock_at 5 []" fresh]]
  by (simp add: plain_env_def plain_job_def fresh_def NewScheduler_state_def)

lemma reachable_WithCancel: "reachable s \<Longrightarrow> reachable (s\<lparr>fresh_ctx := Suc (fresh_ctx s)\<rparr>)"
  using reachable.stepped [OF _ select_step.with_cancel] by (simp add: WithCancel_def)

lemmas reachable_cancel = reachable.stepped [OF _ select_step.cancel_ctx]

lemma build_job_reachable:
  assumes "reachable s" "build_job je e uid def tsk opts s = Some (r, s')"
  shows "reachable s' \<and> jobs s' = jobs s"
proof -
  have "s' = s \<or> s' = s\<lparr>fresh_ctx := Suc (fresh_ctx s)\<rparr> \<or> (\<exists>c. s' = cancel c (s\<lparr>fresh_ctx := Suc (fresh_ctx s)\<rparr>))"
    using assms(2) by (auto simp: build_job_def Let_def WithCancel_def split: option.splits sum.splits check.splits)
  then show ?thesis using assms(1) reachable_WithCancel reachable_cancel by auto
qed

text \<open>
  Creating or updating a job takes the scheduler from one state that its select loop reaches to another,
  so that everything that holds of reachable states holds after it, as long as the new job's identifier
  is that of the updated job or not in use.
\<close>

theorem new_jobs_keep_reachable:
  assumes "reachable s" "addOrUpdateJob je e uid def tsk opts s = Some (r, s')" "je_new_uuid je \<noteq> 0"
    and "\<And>j s1. build_job je e uid def tsk opts s = Some (Inr j, s1) \<Longrightarrow> j_id j = uid \<or> jobs s (j_id j) = None"
  shows "reachable s'"
proof -
  obtain b s1 where b: "build_job je e uid def tsk opts s = Some (b, s1)"
    using assms(2) by (auto simp: addOrUpdateJob_def split: option.splits)
  note s1 = build_job_reachable [OF assms(1) b]
  show ?thesis
  proof (cases b)
    case (Inl err)
    then show ?thesis using assms(2) b s1 by (simp add: addOrUpdateJob_def)
  next
    case (Inr j)
    note new = built_job [OF b [unfolded Inr] assms(3)] and unused = assms(4) [OF b [unfolded Inr]]
    note result = assms(2) [unfolded addOrUpdateJob_def b Inr option.case prod.case sum.case Let_def]
    define found where "found = (uid \<noteq> 0 \<and> (case jobs s1 uid of None \<Rightarrow> False | Some old \<Rightarrow> j_id old \<noteq> 0))"
    define s2 where "s2 = (if found then selectRemoveJob uid s1 else s1)"
    have registered: "reachable t \<Longrightarrow> reachable (notifyJobRegistered u t)" for t u
      using reachable.stepped [OF _ select_step.registered] .
    have s2: "reachable s2" using s1 reachable.stepped [OF _ select_step.remove] by (simp add: s2_def)
    have "jobs s2 (j_id j) = None"
    proof (cases "j_id j = uid")
      case True
      then have "found \<longleftrightarrow> jobs s uid \<noteq> None"
        using new core_inv_job [of s uid] reachable_inv [OF assms(1)] s1
        by (auto simp: found_def scheduler_inv_def job_inv_def split: option.splits)
      then show ?thesis using True s1 by (auto simp: s2_def selectRemoveJob_frame)
    next
      case False
      then show ?thesis using unused s1 by (simp add: s2_def selectRemoveJob_frame)
    qed
    then have "new_job s2 j" using new by (simp add: new_job_def)
    then have "selectNewJob e j s2 = Some t \<Longrightarrow> reachable t" for t
      using s2 reachable.stepped select_step.new by blast
    then show ?thesis
      using result s1 registered reachable_cancel
      unfolding found_def [symmetric] s2_def [symmetric] by (auto split: if_splits)
  qed
qed

theorem new_jobs_keep_reachable_witness:
  "\<exists>s'. NewJob (plain_env 7) (clock_at 5 []) (durationJobDefinition 10) (Some plain_task) [] fresh =
      Some (Inr (Some (plain_job 7 1)), s') \<and> reachable s'"
proof -
  have s: "reachable fresh" unfolding fresh_def by (rule reachable.created)
  have "addOrUpdateJob (plain_env 7) (clock_at 5 []) 0 (durationJobDefinition 10) (Some plain_task) [] fresh =
      Some (Inr (Some (plain_job 7 1)), send (NewJobDone 7) (store 7 (plain_job 7 1) (fresh\<lparr>fresh_ctx := 2\<rparr>)))"
    by (simp add: addOrUpdateJob_def plain_built fresh_def NewScheduler_state_def is_shutdown_def shutdownCtx_def
      selectNewJob_def notifyJobRegistered_def send_def store_def plain_job_def every_def)
  moreover have "reachable (send (NewJobDone 7) (store 7 (plain_job 7 1) (fresh\<lparr>fresh_ctx := 2\<rparr>)))"
    by (rule new_jobs_keep_reachable [OF s calculation])
      (simp_all add: plain_env_def fresh_def NewScheduler_state_def)
  ultimately show ?thesis by (simp add: NewJob_def)
qed

section \<open>Tasks\<close>

lemma verify_non_variadic_length:
  "verifyParameterType impl ins False params = Passes \<Longrightarrow> length params = length ins"
  by (simp add: verifyParameterType_def split: if_splits)

text \<open>
  A task that is not variadic and whose parameters \<open>NewJob\<close> accepts is never refused at run time for the
  number of its parameters: the call returns the first error of the function's results.
\<close>

theorem accepted_tasks_are_called:
  assumes "verifyParameterType impl ins False params = Passes" "n \<noteq> 0" "call (Value (FuncT ins False) n) params = Some results"
  shows "callJobFuncWithParams call (Value (FuncT ins False) n) params = Some (first_error results)"
  using assms verify_non_variadic_length [OF assms(1)] by (simp add: callJobFuncWithParams_def)

theorem accepted_tasks_are_called_witness:
  "callJobFuncWithParams (\<lambda>_ _. Some [None, Some (External ''io'')]) (Value (FuncT [Plain ''int''] False) 1) [Value (Plain ''int'') 5] =
     Some (Some (External ''io''))"
  by (subst accepted_tasks_are_called [where impl = "\<lambda>_ _. False" and results = "[None, Some (External ''io'')]"])
    (simp_all add: verifyParameterType_def verifyNonVariadic_def argument_kind_def parameter_kind_def)


section \<open>Accessors\<close>

text \<open>
  While the scheduler runs, an accessor of a job returns what the scheduler stores for it, and
  \<open>ErrJobNotFound\<close> once the job is gone.
\<close>

theorem accessors_read_the_job:
  assumes "reachable s" "\<not> is_shutdown s" "uid \<noteq> 0" "r = reply_of (selectJobOutRequest e uid s)"
  shows "(case jobs s uid of
      None \<Rightarrow> LastRun r = Inl ErrJobNotFound \<and> NextRun r = Inl ErrJobNotFound \<and> IsRunning r = Inl ErrJobNotFound
    | Some j \<Rightarrow> LastRun r = Inr (j_lastRun j) \<and>
        NextRun r = Inr (if nextScheduled j = [] then zero_time else hd (nextScheduled j)) \<and>
        IsRunning r = Inr (\<not> IsZero (lastRunStartedAt j) \<and> After (lastRunStartedAt j) (lastRunCompletedAt j)))"
proof (cases "jobs s uid")
  case None
  then show ?thesis
    by (simp add: assms(4) selectJobOutRequest_def reply_of_def LastRun_def NextRun_def IsRunning_def with_job_def requestJob_def)
next
  case (Some j)
  then have "j_id j = uid" using core_inv_job [of s uid j] reachable_inv [OF assms(1)]
    by (simp add: scheduler_inv_def job_inv_def)
  then show ?thesis using Some assms(2,3)
    by (cases "nextScheduled j")
      (auto simp: assms(4) selectJobOutRequest_def reply_of_def LastRun_def NextRun_def IsRunning_def with_job_def requestJob_def)
qed

theorem accessors_read_the_job_witness:
  "NextRun (reply_of (selectJobOutRequest (clock_at 9 []) 1 one_timer)) = Inr \<lparr>inst = 15, tloc = UTC\<rparr>"
  using accessors_read_the_job [OF timer_reachable _ _ refl, of 1 "clock_at 9 []"] by simp

text \<open>
  \<open>NextRuns\<close> returns at most the number asked for, strictly ascending: the scheduled runs first and then
  runs of the schedule after them and before the stop time.
\<close>

theorem next_runs_ascend:
  assumes "job_ok rnd j (last (nextScheduled j))" "strict_by inst (nextScheduled j)" "next_runs rnd j n = Some ts"
  shows "int (length ts) \<le> max n 0 \<and> strict_by inst ts \<and>
    (nextScheduled j \<noteq> [] \<longrightarrow> 0 < n \<longrightarrow> take 1 ts = take 1 (nextScheduled j)) \<and>
    (\<forall>t\<in>set ts. t \<in> set (nextScheduled j) \<or>
      run_from (job_next rnd j) (last (nextScheduled j)) t \<and> (IsZero (stopTime j) \<or> Before t (stopTime j)))"
  by (rule next_runs_sound [OF assms])

theorem next_runs_ascend_witness:
  "\<exists>ts. next_runs (\<lambda>_ _. 0) armed_job 3 = Some ts \<and> length ts \<le> 3 \<and> take 1 ts = [\<lparr>inst = 15, tloc = UTC\<rparr>]"
proof -
  have nxt: "job_next (\<lambda>_ _. 0) armed_job t = Some (Add t 10)" for t by (simp add: job_next_def duration_next_def)
  have ok: "job_ok (\<lambda>_ _. 0) armed_job t" for t by (simp add: job_ok_def draws_ok_def)
  obtain ts where "next_runs (\<lambda>_ _. 0) armed_job 3 = Some ts"
    by (simp add: next_runs_def nxt Add_def IsZero_def numeral_2_eq_2)
  with next_runs_ascend [OF ok _ this] show ?thesis by simp
qed

section \<open>Options of the scheduler and its logger\<close>

text \<open>
  A scheduler that \<open>NewScheduler\<close> returns has a positive stop timeout and, if concurrency is limited, a
  nonzero limit with a limiter just for the rescheduling mode; its global options are those given, in order, and
  its state is one that the select loop reaches.
\<close>

theorem new_scheduler_is_valid:
  assumes "NewScheduler local opts = Inr (c, s)"
  shows "config_ok c \<and> cfg_globalJobOptions c = global_options opts \<and> reachable s \<and> jobs s = Map.empty"
proof -
  have c: "apply_scheduler_options opts (default_config local) = Inr c"
    and s: "s = NewScheduler_state (cfg_location c) (cfg_schedulerMonitor c \<noteq> None)"
    using assms by (cases "apply_scheduler_options opts (default_config local)"; simp add: NewScheduler_def)+
  show ?thesis
    using scheduler_options_ok [OF c default_config_ok] global_options_accumulate [OF c] reachable.created
    by (simp add: s default_config_def NewScheduler_state_def)
qed

theorem new_scheduler_is_valid_witness:
  "\<exists>c s. NewScheduler UTC [WithLimitConcurrentJobs 3 LimitModeWait, WithStopTimeout 5] = Inr (c, s) \<and> config_ok c"
proof -
  obtain c s where cs: "NewScheduler UTC [WithLimitConcurrentJobs 3 LimitModeWait, WithStopTimeout 5] = Inr (c, s)"
    by (simp add: NewScheduler_def scheduler_option_defs)
  from new_scheduler_is_valid [OF cs] cs show ?thesis by blast
qed

text \<open>
  A logger writes nothing just for messages below its level, and key and value pairs come out in order as
  \<open>key=value\<close>.
\<close>

theorem logger_filters_by_level:
  "(log_line sprint level m msg args = None) = (level < method_level m) \<and>
   map (\<lambda>i. format_pairs args ! i) [0..<length args div 2] =
     map (\<lambda>i. args ! (2 * i) @ ''='' @ args ! (2 * i + 1)) [0..<length args div 2]"
  using log_line_None nth_format_pairs by simp

end
