(* ===== verification/RoundTrips.thy ===== *)
theory RoundTrips
  imports JobTheorems
begin

text \<open>
  From a job definition to the stored schedule and back: the schedule that a job shows its caller says what
  the definition asked for.
\<close>

section \<open>What a schedule says\<close>

text \<open>The at-times of a schedule: the readings asked for, each as often as asked for, in ascending order.\<close>

definition shows_at_times :: "atTimes \<Rightarrow> gtime list \<Rightarrow> bool" where
  "shows_at_times ats ts \<longleftrightarrow>
     (\<exists>as. ats = Some (map Some as) \<and> sorted (map clock_of ts) \<and> mset (map clock_of ts) = mset (map at_clock as))"

fun describes :: "gtime \<Rightarrow> JobSchedule \<Rightarrow> jobDefinition \<Rightarrow> bool" where
  "describes now (CronJobSchedule tab) (cronJobDefinition tab' c) \<longleftrightarrow> tab = tab'"
| "describes now (DurationJobSchedule d) (durationJobDefinition d') \<longleftrightarrow> d = d' \<and> 0 < d"
| "describes now (DurationRandomJobSchedule mn mx) (durationRandomJobDefinition mn' mx') \<longleftrightarrow>
     mn = mn' \<and> mx = mx' \<and> 0 < mn \<and> mn < mx"
| "describes now (DailyJobSchedule i ts) (dailyJobDefinition i' ats) \<longleftrightarrow> i = i' \<and> i \<noteq> 0 \<and> shows_at_times ats ts"
| "describes now (WeeklyJobSchedule i wds ts) (weeklyJobDefinition i' wds' ats) \<longleftrightarrow>
     i = i' \<and> i \<noteq> 0 \<and> (\<exists>ws. wds' = Some ws \<and> sorted wds \<and> mset wds = mset ws) \<and> shows_at_times ats ts"
| "describes now (MonthlyJobSchedule i ds es ts) (monthlyJobDefinition i' ds' ats) \<longleftrightarrow>
     i = i' \<and> i \<noteq> 0 \<and> (\<exists>us. ds' = Some us \<and> set ds = {d \<in> set us. 0 < d} \<and> set es = {d \<in> set us. d < 0} \<and>
       set us \<subseteq> {-31..31} - {0}) \<and> shows_at_times ats ts"
| "describes now (OneTimeJobSchedule ts) (oneTimeJobDefinition OneTimeJobStartImmediately) \<longleftrightarrow> ts = []"
| "describes now (OneTimeJobSchedule ts) (oneTimeJobDefinition (OneTimeJobStartDateTimes us)) \<longleftrightarrow>
     strict_by inst ts \<and> inst ` set ts = {inst t |t. t \<in> set us \<and> After t now}"
| "describes now _ _ \<longleftrightarrow> False"

lemma converted_at_times:
  assumes "modern l" "convertAtTimesToDateTime ats l = Inr ts"
  shows "shows_at_times ats ts"
proof -
  obtain as where as: "ats = Some as" "\<forall>a\<in>set as. valid_at a" "ts = SortStableTimes (map (\<lambda>a. atTime_time (the a) l) as)"
    using assms(2) unfolding convertAtTimes_ok by blast
  have some: "as = map Some (map the as)"
    using as(2) by (induction as) (auto dest: valid_at_Some)
  have "map (\<lambda>a. clock_of (atTime_time (the a) l)) as = map (\<lambda>a. at_clock (the a)) as"
    using as(2) valid_at_Some atTime_time_early(3) [OF assms(1)] by (metis (lifting) list.map_cong0)
  then have "mset (map (\<lambda>a. clock_of (atTime_time (the a) l)) as) = mset (map (\<lambda>a. at_clock (the a)) as)"
    by (rule arg_cong)
  then have "image_mset clock_of (mset ts) = image_mset at_clock (image_mset the (mset as))"
    by (simp add: as(3) SortStableTimes_def image_mset.compositionality o_def)
  then have "mset (map clock_of ts) = mset (map at_clock (map the as))" by (simp only: mset_map)
  moreover have "ats = Some (map Some (map the as))" using as(1) some by (rule back_subst [of "\<lambda>x. ats = Some x"])
  ultimately show ?thesis using convertAtTimes_sorted(1) [OF assms] unfolding shows_at_times_def by blast
qed

lemma monthly_read_back:
  assumes "monthly_setup i ds ats j l = Inr j'" "modern l"
  shows "\<exists>sch. job_Schedule (jobFromInternalJob j') = Some sch \<and> describes now sch (monthlyJobDefinition i ds ats)"
proof -
  obtain us ts where us: "i \<noteq> 0" "ds = Some us" "\<forall>d\<in>set us. d \<noteq> 0 \<and> -31 \<le> d \<and> d \<le> 31"
    and ts: "convertAtTimesToDateTime ats l = Inr ts"
    and j': "j_schedule j' = Some (Monthly \<lparr>m_interval = i, m_days = removeSliceDuplicatesInt (filter (\<lambda>d. 0 < d) us),
      m_daysFromEnd = removeSliceDuplicatesInt (filter (\<lambda>d. d < 0) us), m_atTimes = ts, m_policy = j_policy j\<rparr>)"
    using assms(1) by (auto simp: monthly_setup_def split_days_ok atTimes_switch_ok split: if_splits option.splits)
  then show ?thesis using converted_at_times [OF assms(2) ts]
    by (auto simp: jobFromInternalJob_def set_removeSliceDuplicatesInt)
qed

lemma daily_read_back:
  assumes "daily_setup i ats j l = Inr j'" "modern l"
  shows "\<exists>sch. job_Schedule (jobFromInternalJob j') = Some sch \<and> describes now sch (dailyJobDefinition i ats)"
proof -
  obtain ts where "i \<noteq> 0" and ts: "convertAtTimesToDateTime ats l = Inr ts"
    and "j_schedule j' = Some (Daily \<lparr>d_interval = i, d_atTimes = ts, d_policy = j_policy j\<rparr>)"
    using assms(1) by (auto simp: daily_setup_def atTimes_switch_ok split: if_splits)
  then show ?thesis using converted_at_times [OF assms(2) ts] by (simp add: jobFromInternalJob_def)
qed

lemma weekly_read_back:
  assumes "weekly_setup i wds ats j l = Inr j'" "modern l"
  shows "\<exists>sch. job_Schedule (jobFromInternalJob j') = Some sch \<and> describes now sch (weeklyJobDefinition i wds ats)"
proof -
  obtain ws ts where "i \<noteq> 0" "wds = Some ws" and ts: "convertAtTimesToDateTime ats l = Inr ts"
    and "j_schedule j' = Some (Weekly \<lparr>w_interval = i, w_daysOfWeek = slices_Sort ws, w_atTimes = ts, w_policy = j_policy j\<rparr>)"
    using assms(1) by (auto simp: weekly_setup_def atTimes_switch_ok split: if_splits option.splits)
  then show ?thesis using converted_at_times [OF assms(2) ts] by (simp add: jobFromInternalJob_def slices_Sort_def)
qed

lemma oneTime_read_back:
  assumes "oneTime_setup startAt j now = Inr j'"
  shows "\<exists>sch. job_Schedule (jobFromInternalJob j') = Some sch \<and> describes now sch (oneTimeJobDefinition startAt)"
proof (rule oneTime_setup_ok [OF assms])
  fix ts
  assume ts: "j_schedule j' = Some (OneTime \<lparr>sortedTimes = ts\<rparr>)" "strict_by inst ts"
    "inst ` set ts = {inst t |t. t \<in> set (fst (OneTime_startAt startAt j)) \<and> After t now}"
  show ?thesis
  proof (cases startAt)
    case OneTimeJobStartImmediately
    then show ?thesis using ts by (simp add: jobFromInternalJob_def)
  next
    case (OneTimeJobStartDateTimes us)
    then show ?thesis using ts by (simp add: jobFromInternalJob_def)
  qed
qed

text \<open>
  C23: The schedule that the handle of a job shows is what its definition asked for: crontab, interval, bounds and
  days are unchanged, the at-times are the requested clock readings in ascending order, and the times of a
  one-time job are the requested ones that are still to come.
\<close>

theorem schedules_read_back:
  assumes "definition_setup parse def j l now = Inr j'" "modern l"
  shows "\<exists>sch. job_Schedule (jobFromInternalJob j') = Some sch \<and> describes now sch def"
proof (cases "def")
  case (cronJobDefinition tab c)
  then show ?thesis using assms(1) by (auto simp: cron_setup_def Let_def jobFromInternalJob_def split: sum.splits)
next
  case (durationJobDefinition d)
  then show ?thesis using assms(1) by (auto simp: duration_setup_def jobFromInternalJob_def split: if_splits)
next
  case (durationRandomJobDefinition mn mx)
  then show ?thesis using assms(1) by (auto simp: durationRandom_setup_def jobFromInternalJob_def split: if_splits)
qed (use assms oneTime_read_back daily_read_back weekly_read_back monthly_read_back in simp_all)

text \<open>Twice a day, asked for in the wrong order.\<close>

definition at_reading :: "64 word \<Rightarrow> atTime" where
  "at_reading h = \<lparr>at_hours = h, at_minutes = 0, at_seconds = 0\<rparr>"

theorem schedules_read_back_witness:
  "\<exists>j' sch. daily_setup 2 (Some [Some (at_reading 18), Some (at_reading 6)]) zero_job UTC = Inr j' \<and>
    job_Schedule (jobFromInternalJob j') = Some sch \<and>
    describes zero_time sch (dailyJobDefinition 2 (Some [Some (at_reading 18), Some (at_reading 6)]))"
proof -
  let ?ats = "Some [Some (at_reading 18), Some (at_reading 6)]"
  obtain ts where "convertAtTimesToDateTime ?ats UTC = Inr ts"
    by (simp add: convertAtTimesToDateTime_def at_reading_def)
  then obtain j' where j': "daily_setup 2 ?ats zero_job UTC = Inr j'"
    by (simp add: daily_setup_def atTimes_switch_def)
  then have "definition_setup (\<lambda>_ _. Inl ErrCronJobParse) (dailyJobDefinition 2 ?ats) zero_job UTC zero_time = Inr j'" by simp
  from schedules_read_back [OF this modern_UTC] show ?thesis using j' by blast
qed

end
