(* ===== verification/Endless.thy ===== *)
theory Endless
  imports Advance
begin

text \<open>
  Schedules that never run out: from any time in a region that the schedule does not leave, \<open>next\<close> returns a later
  time. The loops that step through such a schedule find a run. Every kind of job but the one-time job has such
  schedules: \<open>endless\<close> says which and from where.
\<close>

section \<open>The contract\<close>

locale endless_schedule = job_schedule +
  assumes finds: "ok s t \<Longrightarrow> \<exists>n. nxt s t = Some n \<and> \<not> IsZero n"
begin

lemma goes_on: "ok s t \<Longrightarrow> \<exists>n. nxt s t = Some n \<and> \<not> IsZero n \<and> After n t \<and> ok s n"
  using finds progress keeps_ok by blast

lemma advancePastNow_finds:
  "ok s next \<Longrightarrow> \<exists>t. advancePastNow (nxt s) now next = Some (Some t) \<and> ok s t \<and> \<not> Before t now"
proof (induction "nxt s" now "next" rule: advancePastNow.induct)
  case (1 now "next")
  obtain n where n: "nxt s next = Some n" "\<not> IsZero n" "After n next" "ok s n" using goes_on [OF 1(2)] by blast
  then show ?case using 1 by (subst advancePastNow.simps) auto
qed

lemma advanceNextPastDuplicates_finds:
  "ok s next \<Longrightarrow> \<exists>t. advanceNextPastDuplicates (nxt s) ts next = Some (Some t) \<and> ok s t \<and> inst next \<le> inst t"
proof (induction "nxt s" ts "next" rule: advanceNextPastDuplicates.induct)
  case (1 ts "next")
  obtain n where n: "nxt s next = Some n" "\<not> IsZero n" "After n next" "ok s n" using goes_on [OF 1(2)] by blast
  then show ?case using 1 by (subst advanceNextPastDuplicates.simps) (force simp: After_def)
qed

text \<open>\<open>NextRuns\<close> gets as many runs as it asks for.\<close>

lemma extend_runs_finds:
  "ok s from \<Longrightarrow> IsZero stop \<Longrightarrow> \<exists>ns. extend_runs (nxt s) stop k from = Some ns \<and> length ns = k \<and> list_all (ok s) ns"
proof (induction k arbitrary: "from")
  case (Suc k)
  obtain n where n: "nxt s from = Some n" "\<not> IsZero n" "ok s n" using goes_on [OF Suc.prems(1)] by blast
  then show ?case using Suc.IH [OF n(3) Suc.prems(2)] Suc.prems(2) by auto
qed simp

end

section \<open>The endless schedules of the repository\<close>

definition in_history :: "gtime \<Rightarrow> bool" where
  "in_history t \<longleftrightarrow> inst zero_time < inst t"

lemma After_in_history: "After n t \<Longrightarrow> in_history t \<Longrightarrow> in_history n \<and> \<not> IsZero n"
  by (auto simp: After_def in_history_def IsZero_def)

text \<open>Where a search over days or weeks finds a time: always with the skip policy, else in zones without transitions.\<close>

definition searchable :: "DaylightSavingsTimePolicy \<Rightarrow> gtime list \<Rightarrow> gtime \<Rightarrow> bool" where
  "searchable pol ats t \<longleftrightarrow> ats \<noteq> [] \<and> in_history t \<and>
     (pol = DaylightSavingsTimeSkip \<or> fixed_zone (tloc t) \<and> sorted (map clock_of ats))"

definition gaps_end :: "Cron \<Rightarrow> bool" where
  "gaps_end c = (case c of
     Default d \<Rightarrow> (case parsed d of
        Some (SpecSchedule spec) \<Rightarrow> \<not> is_Local (spec_Location spec) \<and> day_safe (spec_Location spec)
      | _ \<Rightarrow> True)
   | Custom _ _ \<Rightarrow> True)"

text \<open>
  A monthly job names a day that every month has. Of the cron library it is assumed that the schedule never
  runs out, which holds for every crontab that names a date that exists.
\<close>

fun endless :: "jobSchedule \<Rightarrow> gtime \<Rightarrow> bool" where
  "endless (Cron j) t \<longleftrightarrow> in_history t \<and> cron_advances (c_schedule j) \<and> (\<forall>u. \<not> IsZero (Cron_Next (c_schedule j) u)) \<and> gaps_end (c_schedule j)"
| "endless (Duration j) t \<longleftrightarrow> in_history t \<and> 0 < duration j"
| "endless (DurationRandom j) t \<longleftrightarrow> in_history t \<and> 0 < min_duration j \<and> min_duration j < max_duration j"
| "endless (Daily d) t \<longleftrightarrow> 0 < sint (d_interval d) \<and> searchable (d_policy d) (d_atTimes d) t"
| "endless (Weekly w) t \<longleftrightarrow> 0 < uint (w_interval w) \<and> uint (w_interval w) * 7 < 2 ^ 63 \<and> w_daysOfWeek w \<noteq> [] \<and>
     sorted (w_daysOfWeek w) \<and> (\<forall>wd\<in>set (w_daysOfWeek w). 0 \<le> wd) \<and> searchable (w_policy w) (w_atTimes w) t"
| "endless (Monthly m) t \<longleftrightarrow> monthly_ok m t \<and> (\<exists>d\<in>set (m_days m) \<union> uminus ` set (m_daysFromEnd m). d \<le> 28)"
| "endless (OneTime j) t \<longleftrightarrow> False"

lemma cron_gap_days: "gaps_end c \<Longrightarrow> c = Default d \<Longrightarrow> parsed d = Some (SpecSchedule spec) \<Longrightarrow>
    day_safe (if is_Local (spec_Location spec) then l else spec_Location spec)"
  by (simp add: gaps_end_def)

lemma cron_endless:
  assumes "endless (Cron j) t"
  shows "\<exists>n. cron_next j t = Some n \<and> \<not> IsZero n \<and> endless (Cron j) n"
proof -
  obtain n where n: "cron_next j t = Some n" using cron_next_returns [of j t] cron_gap_days assms by fastforce
  from n have "\<not> IsZero n"
  proof (cases rule: cron_next_cases)
    case gap
    then show ?thesis using assms After_in_history by simp
  qed (use assms in simp_all)
  moreover from this have "in_history n" using cron_next_after [OF _ n] After_in_history assms by simp
  ultimately show ?thesis using n assms by simp
qed

text \<open>A search that finds a time stays in its zone where that has no transitions.\<close>

lemma later_reading:
  assumes "fixed_zone (tloc t)" "in_history t" "wall t < w"
  shows "\<not> IsZero (time_at (tloc t) w)"
  using assms After_time_at_fixed [OF assms(1)] After_in_history by blast

lemma searchable_next: "searchable pol ats t \<Longrightarrow> After n t \<Longrightarrow> pol \<noteq> DaylightSavingsTimeSkip \<Longrightarrow> tloc n = tloc t \<Longrightarrow> searchable pol ats n"
  and searchable_skip: "searchable pol ats t \<Longrightarrow> After n t \<Longrightarrow> pol = DaylightSavingsTimeSkip \<Longrightarrow> searchable pol ats n"
  using After_in_history by (auto simp: searchable_def)

lemma daily_endless:
  assumes "endless (Daily d) t"
  shows "\<exists>n. daily_next d t = Some n \<and> \<not> IsZero n \<and> endless (Daily d) n"
proof -
  let ?s = "sint (d_interval d)"
  have here: "0 < ?s" "searchable (d_policy d) (d_atTimes d) t" using assms by simp_all
  then have ats: "d_atTimes d \<noteq> []" "0 \<le> inst t" "in_history t" by (simp_all add: searchable_def in_history_def)
  show ?thesis
  proof (cases "d_policy d = DaylightSavingsTimeSkip")
    case True
    then obtain n where n: "daily_next d t = Some n" "\<not> IsZero n" using daily_next_total [OF ats(1) here(1) ats(2)] by blast
    then show ?thesis using searchable_skip [OF here(2) daily_next_later [OF n] True] here(1) by simp
  next
    case False
    then have zone: "fixed_zone (tloc t)" "sorted (map clock_of (d_atTimes d))" using here(2) by (auto simp: searchable_def)
    define w where "w = (case earliest_after (wall t) (day_walls (day_of t) (d_atTimes d)) of
       Some w \<Rightarrow> w | None \<Rightarrow> (day_of t + ?s) * 86400 + clock_of (hd (d_atTimes d)))"
    have n: "daily_next d t = Some (time_at (tloc t) w)"
      unfolding w_def by (rule daily_next_fixed_zone [OF zone(1) ats(2) zone(2) ats(1) here(1)])
    have "wall t < (day_of t + ?s) * 86400 + clock_of at" for at
      using here(1) clock_of_range [of t] clock_of_range [of at] wall_split [of t] by (simp add: distrib_right)
    then have nz: "\<not> IsZero (time_at (tloc t) w)"
      using earliest_after_SomeD(2) by (intro later_reading [OF zone(1) ats(3)]) (simp add: w_def split: option.split)
    then show ?thesis using n searchable_next [OF here(2) daily_next_later [OF n nz] False] here(1) by simp
  qed
qed

lemma weekly_endless:
  assumes "endless (Weekly d) t"
  shows "\<exists>n. weekly_next d t = Some n \<and> \<not> IsZero n \<and> endless (Weekly d) n"
proof -
  let ?s = "7 * uint (w_interval d)"
  have here: "0 < uint (w_interval d)" "uint (w_interval d) * 7 < 2 ^ 63" "w_daysOfWeek d \<noteq> []" "sorted (w_daysOfWeek d)"
    "\<forall>wd\<in>set (w_daysOfWeek d). 0 \<le> wd" "searchable (w_policy d) (w_atTimes d) t"
    using assms by simp_all
  then have ats: "w_atTimes d \<noteq> []" "0 \<le> inst t" "in_history t" by (simp_all add: searchable_def in_history_def)
  have first: "hd (w_daysOfWeek d) \<in> set (w_daysOfWeek d)" "0 \<le> hd (w_daysOfWeek d)" using here(3,5) by simp_all
  show ?thesis
  proof (cases "w_policy d = DaylightSavingsTimeSkip")
    case True
    then obtain n where n: "weekly_next d t = Some n" "\<not> IsZero n"
      using weekly_next_total [OF first ats(1) here(1,2) ats(2)] by blast
    then show ?thesis using searchable_skip [OF here(6) weekly_next_later [OF n] True] here by simp
  next
    case False
    then have zone: "fixed_zone (tloc t)" "sorted (map clock_of (w_atTimes d))" using here(6) by (auto simp: searchable_def)
    define w where "w = (case earliest_after (wall t) (week_walls (sunday_of t) (w_daysOfWeek d) (w_atTimes d)) of
       Some w \<Rightarrow> w | None \<Rightarrow> (sunday_of t + ?s + hd (w_daysOfWeek d)) * 86400 + clock_of (hd (w_atTimes d)))"
    have n: "weekly_next d t = Some (time_at (tloc t) w)"
      unfolding w_def by (rule weekly_next_fixed_zone [OF zone(1) ats(2) here(4,3,5) zone(2) ats(1) here(1,2)])
    have "day_of t + 1 \<le> sunday_of t + ?s + hd (w_daysOfWeek d)"
      using here(1) first(2) Weekday_range [of t] by (simp add: sunday_of_def)
    then have "(day_of t + 1) * 86400 \<le> (sunday_of t + ?s + hd (w_daysOfWeek d)) * 86400" by (rule mult_right_mono) simp
    then have "wall t < (sunday_of t + ?s + hd (w_daysOfWeek d)) * 86400 + clock_of at" for at
      using clock_of_range [of t] clock_of_range [of at] wall_split [of t] by simp
    then have nz: "\<not> IsZero (time_at (tloc t) w)"
      using earliest_after_SomeD(2) by (intro later_reading [OF zone(1) ats(3)]) (simp add: w_def split: option.split)
    then show ?thesis using n searchable_next [OF here(6) weekly_next_later [OF n nz] False] here by simp
  qed
qed

lemma monthly_endless:
  assumes "endless (Monthly m) t"
  shows "\<not> IsZero (monthly_next m t) \<and> endless (Monthly m) (monthly_next m t)"
proof -
  obtain d where d: "d \<in> set (m_days m) \<union> uminus ` set (m_daysFromEnd m)" "d \<le> 28" using assms by auto
  have ok: "monthly_ok m t" using assms by simp
  have "28 \<le> month_length k" for k
    using days_in_month_bounds [of "k mod 12 + 1" "k div 12"] month_mod_range [of k] by (simp add: month_length_def)
  then have "days_named m k \<noteq> {}" for k using days_named_length [of m k] d ok order_trans unfolding monthly_ok_def by blast
  then have "\<not> IsZero (monthly_next m t)" using monthly_gives_up_iff [of t m] ok by (simp add: monthly_ok_def)
  then show ?thesis using monthly_ok_next(2) [OF ok] d by auto
qed

text \<open>\<open>next\<close> of an endless schedule finds a run, for draws in their range.\<close>

definition goes_on :: "draws \<Rightarrow> internalJob \<Rightarrow> gtime \<Rightarrow> bool" where
  "goes_on rnd j t \<longleftrightarrow> draws_ok rnd \<and> (\<exists>s. j_schedule j = Some s \<and> endless s t)"

lemma endless_progress: "endless s t \<Longrightarrow> progress_ok s t"
  by (cases s) simp_all

lemma endless_next:
  assumes "draws_ok rnd" "endless s t"
  shows "\<exists>n. sched_next rnd s t = Some n \<and> \<not> IsZero n \<and> After n t \<and> endless s n"
proof -
  note endless_progress [OF assms(2)]
  moreover have "\<exists>n. sched_next rnd s t = Some n \<and> \<not> IsZero n \<and> endless s n"
  proof (cases s)
    case (Duration j)
    then have "After (duration_next j t) t" using assms(2) by (simp add: duration_next_def After_def)
    then show ?thesis using Duration assms(2) After_in_history by auto
  next
    case (DurationRandom j)
    then have "0 \<le> rnd t (max_duration j - min_duration j)" using assms by (simp add: draws_ok_def)
    then have "After (durationRandom_next (rnd t) j t) t" using DurationRandom assms(2) by (simp add: durationRandom_next_def Let_def After_def)
    then show ?thesis using DurationRandom assms(2) After_in_history by auto
  qed (use assms(2) cron_endless daily_endless weekly_endless monthly_endless in auto)
  ultimately show ?thesis using sched_next_progress(1) [OF assms(1)] by blast
qed

interpretation endless_jobs: endless_schedule "\<lambda>p. job_next (fst p) (snd p)" "\<lambda>p. goes_on (fst p) (snd p)"
proof unfold_locales
  have "\<exists>n. job_next (fst p) (snd p) t = Some n \<and> \<not> IsZero n \<and> After n t \<and> goes_on (fst p) (snd p) n"
    if "goes_on (fst p) (snd p) t" for p :: "draws \<times> internalJob" and t
    using that endless_next by (fastforce simp: goes_on_def job_next_def)
  note goes = this
  fix p :: "draws \<times> internalJob" and t n
  assume ok: "goes_on (fst p) (snd p) t"
  show "\<exists>n. job_next (fst p) (snd p) t = Some n \<and> \<not> IsZero n" using goes [OF ok] by blast
  assume "job_next (fst p) (snd p) t = Some n"
  then show "After n t" "goes_on (fst p) (snd p) n" using goes [OF ok] by auto
qed

lemmas job_goes_on = endless_jobs.goes_on [of "(rnd, j)" for rnd j, unfolded fst_conv snd_conv]
lemmas job_advancePastNow_finds = endless_jobs.advancePastNow_finds [of "(rnd, j)" for rnd j, unfolded fst_conv snd_conv]
lemmas job_extend_runs_finds = endless_jobs.extend_runs_finds [of "(rnd, j)" for rnd j, unfolded fst_conv snd_conv]
lemmas job_advanceNextPastDuplicates_finds =
  endless_jobs.advanceNextPastDuplicates_finds [of "(rnd, j)" for rnd j, unfolded fst_conv snd_conv]

end
