(* ===== verification/EndlessJobs.thy ===== *)
theory EndlessJobs
  imports JobTheorems ScheduleTheorems Endless
begin

text \<open>
  From the definition of a job to its schedule: which definitions, once \<open>NewJob\<close> accepts them, give schedules that
  never run out.
\<close>

text \<open>
  Intervals do not wrap as an int, there is an at-time, a weekly job names a weekday and a monthly job a day that
  every month has. Cron jobs depend on their library, and one-time jobs run out.
\<close>

fun sustained :: "jobDefinition \<Rightarrow> bool" where
  "sustained (durationJobDefinition d) = True"
| "sustained (durationRandomJobDefinition mn mx) = True"
| "sustained (dailyJobDefinition interval ats) = (0 < sint interval \<and> ats \<noteq> Some [])"
| "sustained (weeklyJobDefinition interval wds ats) =
     (uint interval * 7 < 2 ^ 63 \<and> ats \<noteq> Some [] \<and> wds \<noteq> Some [] \<and> list_all ((\<le>) 0) (the wds))"
| "sustained (monthlyJobDefinition interval ds ats) =
     (0 < sint interval \<and> ats \<noteq> Some [] \<and> list_ex (\<lambda>d. -28 \<le> d \<and> d \<le> 28) (the ds))"
| "sustained def = False"

lemma uint_positive: "w \<noteq> 0 \<Longrightarrow> 0 < uint w" for w :: "64 word"
  using uint_ge_0 [of w] uint_0_iff [of w] by linarith

lemma sort_Nil: "sort xs = [] \<longleftrightarrow> xs = []" for xs :: "int list"
  by (metis set_empty set_sort)

lemma converted_searchable:
  assumes "modern l" "convertAtTimesToDateTime ats l = Inr ts" "ats \<noteq> Some []" "fixed_zone (tloc t)" "in_history t"
  shows "searchable pol ts t"
  using convertAtTimes_sorted [OF assms(1,2)] assms(3-5) by (simp add: searchable_def)

lemma setup_endless:
  assumes "definition_setup parse def j l now = Inr j'" "modern l" "sustained def"
    and "fixed_zone (tloc t)" "in_history t" "0 < inst (first_of (tloc t) (month_index t))"
  shows "\<exists>s. j_schedule j' = Some s \<and> endless s t"
proof (cases "def")
  case (dailyJobDefinition interval ats)
  then show ?thesis using assms converted_searchable [OF assms(2) _ _ assms(4,5)]
    by (auto simp: daily_setup_def atTimes_switch_ok split: if_splits)
next
  case (weeklyJobDefinition interval wds ats)
  then show ?thesis using assms converted_searchable [OF assms(2) _ _ assms(4,5)]
    by (auto simp: weekly_setup_def atTimes_switch_ok slices_Sort_def list_all_iff uint_positive sort_Nil split: if_splits option.splits)
next
  case (monthlyJobDefinition interval ds ats)
  then obtain days xs ys ts where ok: "ds = Some days" "split_days days [] [] = Inr (xs, ys)" "convertAtTimesToDateTime ats l = Inr ts"
    and s: "j_schedule j' = Some (Monthly \<lparr>m_interval = interval, m_days = removeSliceDuplicatesInt xs,
      m_daysFromEnd = removeSliceDuplicatesInt ys, m_atTimes = ts, m_policy = j_policy j\<rparr>)" (is "_ = Some (Monthly ?m)")
    using assms(1) by (auto simp: monthly_setup_def atTimes_switch_ok split: if_splits option.splits)
  have "ts \<noteq> []" using convertAtTimes_sorted(3) [OF assms(2) ok(3)] assms(3) monthlyJobDefinition by simp
  then have "monthly_ok ?m t"
    using setup_progress [OF assms(1) s _ _ assms(2)] assms(3,4,6) monthlyJobDefinition by simp
  moreover have "\<exists>d\<in>set (m_days ?m) \<union> uminus ` set (m_daysFromEnd ?m). d \<le> 28"
  proof -
    obtain d where d: "d \<in> set days" "-28 \<le> d" "d \<le> 28"
      using assms(3) ok(1) monthlyJobDefinition by (auto simp: list_ex_iff)
    then have "0 < d \<or> d < 0" using ok(2) by (auto simp: split_days_ok)
    then have "d \<in> set xs \<or> d \<in> set ys" using ok(2) d(1) by (auto simp: split_days_ok)
    then have "d \<in> set (m_days ?m) \<or> - d \<in> uminus ` set (m_daysFromEnd ?m)" by (simp add: set_removeSliceDuplicatesInt) blast
    then show ?thesis
    proof
      assume "- d \<in> uminus ` set (m_daysFromEnd ?m)"
      then show ?thesis using d(2) by (intro bexI [of _ "- d"]) auto
    qed (use d(3) in blast)
  qed
  ultimately show ?thesis using s by simp
qed (use assms in \<open>auto simp: duration_setup_def durationRandom_setup_def split: if_splits\<close>)

text \<open>
  C26: A job that \<open>NewJob\<close> accepts from an interval, a random interval, or a daily, weekly or monthly definition that
  names a time in every period never runs out of runs: in a location without transitions its schedule is endless.
\<close>

theorem accepted_jobs_never_run_out:
  assumes "definition_setup parse def j l now = Inr j'" "modern l" "sustained def" "draws_ok rnd"
    and "fixed_zone (tloc t)" "in_history t" "0 < inst (first_of (tloc t) (month_index t))"
  shows "\<exists>ns. extend_runs (job_next rnd j') zero_time k t = Some ns \<and> length ns = k \<and> strict_by inst (t # ns)"
proof -
  have ok: "goes_on rnd j' t" using setup_endless [OF assms(1-3,5-7)] assms(4) by (auto simp: goes_on_def)
  then have "job_ok rnd j' t" by (auto simp: goes_on_def job_ok_def endless_progress)
  then show ?thesis using job_extend_runs_finds [OF ok, of zero_time k] job_extend_runs by (fastforce simp: IsZero_def)
qed

theorem accepted_jobs_never_run_out_witness:
  "\<exists>j' ns. definition_setup (\<lambda>_ _. Inl ErrCronJobParse)
      (monthlyJobDefinition 5 (Some [31, -3]) (Some [Some \<lparr>at_hours = 9, at_minutes = 30, at_seconds = 0\<rparr>])) zero_job UTC zero_time = Inr j' \<and>
    extend_runs (job_next (\<lambda>_ _. 0) j') zero_time 1000 (time_at UTC 2678400) = Some ns \<and> length ns = 1000"
proof -
  let ?t = "time_at UTC 2678400"
  have "fixed_zone (tloc ?t)" "in_history ?t" "0 < inst (first_of (tloc ?t) (month_index ?t))"
    by (simp_all add: UTC_fixed first_of_def february_1 in_history_def inst_time_at_fixed)
  moreover obtain j' where "definition_setup (\<lambda>_ _. Inl ErrCronJobParse)
      (monthlyJobDefinition 5 (Some [31, -3]) (Some [Some \<lparr>at_hours = 9, at_minutes = 30, at_seconds = 0\<rparr>])) zero_job UTC zero_time = Inr j'"
    by (auto simp: monthly_setup_def convertAtTimesToDateTime_def atTimes_switch_def)
  moreover have "draws_ok (\<lambda>_ _. 0)" by (simp add: draws_ok_def)
  ultimately show ?thesis
    using accepted_jobs_never_run_out [OF _ modern_UTC, of _ _ _ _ _ "\<lambda>_ _. 0" ?t 1000] by fastforce
qed

end
