(* ===== verification/Timetable.thy ===== *)
theory Timetable
  imports SchedulerTheorems
begin

text \<open>
  What the scheduler promises, without contexts, timers and queues: a timetable that says for each job when it is
  due, and the list of the runs that were handed to the executor. The select loop refines it.
\<close>

section \<open>The abstract scheduler\<close>

type_synonym timetable = "uuid \<Rightarrow> int option option"
type_synonym plan = "timetable \<times> (uuid \<times> bool) list"

text \<open>
  A known job is due at a time or waits (\<open>Some None\<close>). A run is handed over with \<open>True\<close> only when the job is
  due, when it is added, or when the scheduler starts; a request hands it over with \<open>False\<close> and leaves the timetable alone.
\<close>

inductive live_step :: "plan \<Rightarrow> plan \<Rightarrow> bool" where
  idle: "live_step (T, D) (T, D)"
| due: "T uid = Some (Some t) \<Longrightarrow> live_step (T, D) (T(uid \<mapsto> None), D @ [(uid, True)])"
| request: "T uid \<noteq> None \<Longrightarrow> live_step (T, D) (T, D @ [(uid, False)])"
| add: "T uid = None \<Longrightarrow> live_step (T, D) (T(uid \<mapsto> t), D)"
| add_now: "T uid = None \<Longrightarrow> live_step (T, D) (T(uid \<mapsto> None), D @ [(uid, True)])"
| remove: "live_step (T, D) (T |` (- U), D)"

text \<open>Besides these, the executor asks for the next run, and the scheduler stops, starts, and is shut down.\<close>

inductive plan_step :: "plan \<Rightarrow> plan \<Rightarrow> bool" where
  live: "live_step P P' \<Longrightarrow> plan_step P P'"
| schedule: "T uid \<noteq> None \<Longrightarrow> plan_step (T, D) (T(uid \<mapsto> Some t), D)"
| lapse: "T uid = Some (Some t) \<Longrightarrow> plan_step (T, D) (T(uid \<mapsto> None), D)"
| stop: "plan_step (T, D) (\<lambda>uid. map_option (\<lambda>_. None) (T uid), D)"
| start: "ran T \<subseteq> {None} \<Longrightarrow> dom T' \<subseteq> dom T \<Longrightarrow> distinct us \<Longrightarrow> set us \<subseteq> dom T \<Longrightarrow>
    plan_step (T, D) (T', D @ map (\<lambda>uid. (uid, True)) us)"

lemma plan_idle: "plan_step (T, D) (T, D)" and plan_removal: "plan_step (T, D) (T |` (- U), D)"
  by (rule plan_step.live, rule live_step.idle) (rule plan_step.live, rule live_step.remove)

section \<open>The abstraction\<close>

definition due_time :: "scheduler \<Rightarrow> internalJob \<Rightarrow> int option" where
  "due_time s j = (case j_timer j of None \<Rightarrow> None | Some n \<Rightarrow> map_option fires_at (timers s n))"

definition timetable :: "scheduler \<Rightarrow> timetable" where
  "timetable s uid = map_option (due_time s) (jobs s uid)"

definition handed_over :: "message list \<Rightarrow> (uuid \<times> bool) list" where
  "handed_over ms = List.map_filter (\<lambda>m. case m of JobsIn uid b \<Rightarrow> Some (uid, b) | _ \<Rightarrow> None) ms"

definition plan_of :: "scheduler \<Rightarrow> plan" where
  "plan_of s = (timetable s, handed_over (outbox s))"

lemma handed_over_simps [simp]:
  "handed_over [] = []" "handed_over (JobsIn uid b # ms) = (uid, b) # handed_over ms"
  "handed_over (ms @ ms') = handed_over ms @ handed_over ms'"
  by (simp_all add: handed_over_def map_filter_def)

lemma handed_over_none [simp]:
  "handed_over (RemoveJobLater uid # ms) = handed_over ms" "handed_over (NewJobDone uid # ms) = handed_over ms"
  "handed_over (ExecutorStart # ms) = handed_over ms" "handed_over (ExecutorStop # ms) = handed_over ms"
  "handed_over (SchedulerStartedSignal # ms) = handed_over ms" "handed_over (NotifyJobRegistered uid # ms) = handed_over ms"
  "handed_over (NotifyJobUnregistered uid # ms) = handed_over ms" "handed_over (NotifySchedulerStopped # ms) = handed_over ms"
  "handed_over (NotifySchedulerStarted # ms) = handed_over ms" "handed_over (NotifySchedulerShutdown # ms) = handed_over ms"
  by (simp_all add: handed_over_def map_filter_def)

lemma due_time_cong: "timers s' = timers s \<Longrightarrow> due_time s' = due_time s"
  by (simp add: due_time_def fun_eq_iff split: option.split)

text \<open>Handlers that touch neither timers nor the timer of a job change nothing that the plan shows.\<close>

lemma plan_of_cong:
  "jobs s' = jobs s \<Longrightarrow> timers s' = timers s \<Longrightarrow> handed_over (outbox s') = handed_over (outbox s) \<Longrightarrow> plan_of s' = plan_of s"
  using due_time_cong [of s' s] by (simp add: plan_of_def timetable_def [abs_def])

lemma due_time_same: "j_timer j' = j_timer j \<Longrightarrow> due_time s j' = due_time s j"
  by (simp add: due_time_def)

lemma plan_of_store: "jobs s uid = Some j \<Longrightarrow> j_timer j' = j_timer j \<Longrightarrow> plan_of (store uid j' s) = plan_of s"
  using due_time_cong [of "store uid j' s" s] due_time_same [of j' j s] by (auto simp: plan_of_def timetable_def [abs_def])

text \<open>A timer that belongs to one job is no other job's.\<close>

lemma other_timer:
  assumes "core_inv s" "jobs s uid = Some j" "jobs s u = Some k" "u \<noteq> uid"
    and "j_timer k = Some m"
  shows "j_timer j \<noteq> Some m" "m < fresh_timer s"
proof -
  have own: "owns s u m" using core_invD(4) [OF assms(1,3,5)] .
  then show "m < fresh_timer s" by (simp add: owns_def)
  show "j_timer j \<noteq> Some m" using ownsD [OF own assms(2)] assms(4) by blast
qed

lemma due_time_timer_Stop:
  assumes "core_inv s" "jobs s uid = Some j" "jobs s u = Some k" "u \<noteq> uid"
  shows "due_time (timer_Stop (j_timer j) s) k = due_time s k"
proof (cases "j_timer k")
  case (Some m)
  then show ?thesis using other_timer [OF assms Some] by (simp add: due_time_def timers_timer_Stop)
qed (simp add: due_time_def)

lemma timetable_remove:
  assumes "core_inv s"
  shows "timetable (selectRemoveJob uid s) = timetable s |` (- {uid})"
proof (cases "jobs s uid")
  case None
  then show ?thesis by (simp add: selectRemoveJob_def timetable_def [abs_def] restrict_map_def fun_eq_iff)
next
  case (Some j)
  have "due_time (selectRemoveJob uid s) = due_time (timer_Stop (j_timer j) s)"
    by (rule due_time_cong) (simp add: selectRemoveJob_def Some timer_Stop_def split: option.split)
  then have "timetable (selectRemoveJob uid s) u = (timetable s |` (- {uid})) u" for u
    using due_time_timer_Stop [OF assms Some, of u]
    by (cases "jobs s u") (simp_all add: timetable_def selectRemoveJob_frame restrict_map_def)
  then show ?thesis by (rule ext)
qed

lemma plan_remove:
  assumes "core_inv s"
  shows "plan_of (selectRemoveJob uid s) = (timetable s |` (- {uid}), handed_over (outbox s))"
  using timetable_remove [OF assms] by (auto simp: plan_of_def selectRemoveJob_def notifyJobUnregistered_def split: option.split)

lemma due_time_AfterFunc:
  assumes "AfterFunc e uid d s = (n, s1)" "core_inv s" "jobs s u = Some k"
  shows "due_time s1 k = due_time s k"
proof (cases "j_timer k")
  case (Some m)
  then have "m < fresh_timer s" using core_invD(4) [OF assms(2,3)] by (simp add: owns_def)
  then show ?thesis using assms(1) Some by (simp add: due_time_def AfterFunc_simps)
qed (simp add: due_time_def)

lemma plan_arm_next:
  assumes "core_inv s" "jobs s uid = Some j"
  shows "plan_of (arm_next e uid j n s) = ((timetable s)(uid \<mapsto> Some (inst n)), handed_over (outbox s))"
proof -
  let ?s = "timer_Stop (j_timer j) s"
  obtain t s1 where arm: "AfterFunc e (j_id j) (Sub n (s_now e s)) ?s = (t, s1)" by force
  have s1: "jobs s1 = jobs s" "outbox s1 = outbox s" using arm by (auto simp: AfterFunc_simps)
  have "due_time (store uid j' s1) = due_time s1" for j' by (rule due_time_cong) simp
  moreover have "due_time s1 k = due_time s k" if "jobs s u = Some k" "u \<noteq> uid" for u k
    using due_time_AfterFunc [OF arm core_inv_timer_Stop [OF assms(1)]] due_time_timer_Stop [OF assms that] that by simp
  moreover have "due_time s1 (j\<lparr>nextScheduled := ts, j_timer := Some t\<rparr>) = Some (inst n)" for ts
    using arm by (simp add: due_time_def AfterFunc_simps Sub_def s_now_def)
  ultimately have "timetable (arm_next e uid j n s) u = ((timetable s)(uid \<mapsto> Some (inst n))) u" for u
    using s1 by (cases "jobs s u") (auto simp: timetable_def arm_next_def arm)
  then show ?thesis using s1 by (simp add: plan_of_def fun_eq_iff arm_next_def arm)
qed

text \<open>The handing over of a first run.\<close>

lemma handed_over_dispatch:
  "handed_over (outbox (dispatchJobRun e uid s)) = handed_over (outbox s) @ [(uid, True)] \<or>
   handed_over (outbox (dispatchJobRun e uid s)) = handed_over (outbox s)"
  by (simp add: dispatchJobRun_def)

lemma handed_over_prepare:
  assumes "prepareFirstRun e j s = Some (j', dropped, s')"
  shows "handed_over (outbox s') = handed_over (outbox s) @ [(j_id j, True)] \<or> handed_over (outbox s') = handed_over (outbox s)"
  using assms by (cases rule: prepareFirstRun_cases) (auto simp: dispatchJobRun_def AfterFunc_simps)

lemma handed_over_removal [simp]: "handed_over (outbox (selectRemoveJob uid s)) = handed_over (outbox s)"
  by (auto simp: selectRemoveJob_def notifyJobUnregistered_def split: option.split)

lemma start_loop_hands_over:
  assumes "start_loop e uids s = Some s'" "distinct uids" "\<And>uid j. jobs s uid = Some j \<Longrightarrow> j_id j = uid"
  shows "dom (jobs s') \<subseteq> dom (jobs s) \<and> (\<exists>us. distinct us \<and> set us \<subseteq> set uids \<inter> dom (jobs s) \<and>
    handed_over (outbox s') = handed_over (outbox s) @ map (\<lambda>uid. (uid, True)) us)"
  using assms
proof (induction uids arbitrary: s)
  case (Cons uid uids)
  show ?case
  proof (cases "jobs s uid")
    case None
    then show ?thesis using Cons by fastforce
  next
    case (Some j)
    obtain j' dropped s1 where prep: "prepareFirstRun e (j\<lparr>nextScheduled := []\<rparr>) s = Some (j', dropped, s1)"
      and rest: "start_loop e uids (if dropped then selectRemoveJob uid s1 else store uid j' s1) = Some s'"
      using start_loop_round [OF Cons.prems(1) Some] .
    let ?s2 = "if dropped then selectRemoveJob uid s1 else store uid j' s1"
    have uid: "j_id j = uid" using Cons.prems(3) Some .
    note frame = prepareFirstRun_frame [OF prep]
    have ids: "j_id k = v" if "jobs ?s2 v = Some k" for v k
      using that frame(1,2) uid Cons.prems(3) by (auto simp: selectRemoveJob_frame split: if_splits)
    obtain us where us: "dom (jobs s') \<subseteq> dom (jobs ?s2)" "distinct us" "set us \<subseteq> set uids \<inter> dom (jobs ?s2)"
      "handed_over (outbox s') = handed_over (outbox ?s2) @ map (\<lambda>uid. (uid, True)) us"
      using Cons.IH [OF rest _ ids] Cons.prems(2) by auto
    have dom: "dom (jobs ?s2) \<subseteq> dom (jobs s)" using frame(1) Some by (auto simp: selectRemoveJob_frame)
    then have shrink: "dom (jobs s') \<subseteq> dom (jobs s)" "set us \<subseteq> set uids \<inter> dom (jobs s)" using us(1,3) by blast+
    have "handed_over (outbox ?s2) = handed_over (outbox s) @ [(uid, True)] \<or> handed_over (outbox ?s2) = handed_over (outbox s)"
      using handed_over_prepare [OF prep] uid by auto
    then show ?thesis
    proof
      assume "handed_over (outbox ?s2) = handed_over (outbox s) @ [(uid, True)]"
      then show ?thesis using us(2,4) shrink Some Cons.prems(2) by (intro conjI exI [of _ "uid # us"]) auto
    next
      assume "handed_over (outbox ?s2) = handed_over (outbox s)"
      then show ?thesis using us(2,4) shrink by (intro conjI exI [of _ us]) auto
    qed
  qed
qed simp

section \<open>The handlers refine the abstract steps\<close>

lemma plan_start:
  assumes "scheduler_inv s" "\<not> started s" "iterates e s" "selectStart e s = Some s'"
  shows "plan_step (plan_of s) (plan_of s')"
proof -
  let ?s = "(send ExecutorStart s)\<lparr>started := True\<rparr>"
  obtain s1 where s1: "start_loop e (e_iteration e) ?s = Some s1" "jobs s' = jobs s1"
    "handed_over (outbox s') = handed_over (outbox s1)"
    using assms(4) by (auto simp: selectStart_def split: if_splits)
  have inv: "core_inv s" "timers s = Map.empty" using assms(1,2) by (auto simp: scheduler_inv_def)
  have "jobs ?s uid = Some j \<Longrightarrow> j_id j = uid" for uid j using core_invD(1) [OF inv(1)] by (simp add: send_def)
  then obtain us where us: "dom (jobs s1) \<subseteq> dom (jobs s)" "distinct us" "set us \<subseteq> dom (jobs s)"
    "handed_over (outbox s1) = handed_over (outbox s) @ map (\<lambda>uid. (uid, True)) us"
    using start_loop_hands_over [OF s1(1)] assms(3) by (fastforce simp: iterates_def send_def)
  have "ran (timetable s) \<subseteq> {None}"
    using inv(2) by (auto simp: ran_def timetable_def due_time_def split: option.splits)
  moreover have "dom (timetable s0) = dom (jobs s0)" for s0 by (auto simp: timetable_def)
  ultimately show ?thesis using us s1(2,3) by (simp add: plan_of_def plan_step.start)
qed

lemma plan_stop:
  assumes "scheduler_inv s" "iterates e s" "stopScheduler e s = Some s'"
  shows "plan_step (plan_of s) (plan_of s')"
proof -
  have empty: "timers s' = Map.empty" using scheduler_inv_stop(2) [OF assms(1) _ assms(3)] assms(2) by (simp add: iterates_def)
  let ?s = "stop_loop (e_iteration e) (if started s then send ExecutorStop s else s)"
  have s': "jobs s' = jobs (refresh_loop (e_iteration e) ?s)"
    "handed_over (outbox s') = handed_over (outbox (refresh_loop (e_iteration e) ?s))"
    using assms(3) by (auto simp: stopScheduler_def Let_def notifySchedulerStopped_def split: option.splits if_splits)
  have "handed_over (outbox (refresh_loop uids s0)) = handed_over (outbox s0)" for uids s0
    by (induction uids s0 rule: refresh_loop.induct) (auto simp: refresh_context_eq split: option.split)
  moreover have "handed_over (outbox (stop_loop uids s0)) = handed_over (outbox s0)" for uids s0
    by (induction uids s0 rule: stop_loop.induct) (auto split: option.split)
  ultimately have out: "handed_over (outbox s') = handed_over (outbox s)" using s'(2) by simp
  have "distinct (e_iteration e)" using assms(2) by (simp add: iterates_def)
  have "timetable s' uid = map_option (\<lambda>_. None) (timetable s uid)" for uid
  proof (cases "jobs s uid")
    case None
    then have "jobs s' uid = None" by (simp add: s'(1) refresh_loop_None stop_loop_frame)
    then show ?thesis using None by (simp add: timetable_def)
  next
    case (Some j)
    then have "jobs ?s uid = Some j" by (simp add: stop_loop_frame)
    then have "jobs s' uid \<noteq> None"
      using refresh_loop_jobs [OF \<open>distinct (e_iteration e)\<close>] s'(1) by (cases "uid \<in> set (e_iteration e)") fastforce+
    then show ?thesis using Some empty by (auto simp: timetable_def due_time_def split: option.split)
  qed
  then have "timetable s' = (\<lambda>uid. map_option (\<lambda>_. None) (timetable s uid))" by (rule ext)
  then show ?thesis using out by (simp add: plan_of_def plan_step.stop)
qed

lemma plan_fire:
  assumes "core_inv s" "timers s n = Some t"
  shows "plan_step (plan_of s) (plan_of (timer_fires e n t s))"
    "\<not> is_shutdown s \<Longrightarrow> live_step (plan_of s) (plan_of (timer_fires e n t s))"
proof -
  obtain j where j: "jobs s (timer_job t) = Some j" "j_timer j = Some n"
    using core_invD(3) [OF assms] by (auto simp: timer_inv_def)
  let ?s = "timer_Stop (j_timer j) s"
  have due: "timetable s (timer_job t) = Some (Some (fires_at t))"
    using j assms(2) by (simp add: timetable_def due_time_def)
  have "due_time ?s k = due_time s k" if "jobs s u = Some k" "u \<noteq> timer_job t" for u k
    using due_time_timer_Stop [OF assms(1) j(1) that] .
  moreover have "due_time ?s j = None" by (simp add: due_time_def timers_timer_Stop j(2))
  ultimately have "timetable ?s u = ((timetable s)(timer_job t \<mapsto> None)) u" for u
    using j(1) by (cases "jobs s u") (auto simp: timetable_def)
  moreover have "timetable (timer_fires e n t s) = timetable ?s"
    using due_time_cong [of "timer_fires e n t s" ?s] by (simp add: timetable_def [abs_def] timer_fires_def j(2))
  ultimately have table: "timetable (timer_fires e n t s) = (timetable s)(timer_job t \<mapsto> None)" by (simp add: fun_eq_iff)
  note due_step = live_step.due [of "timetable s" "timer_job t", OF due] and lapse = plan_step.lapse [of "timetable s" "timer_job t", OF due]
  show "plan_step (plan_of s) (plan_of (timer_fires e n t s))"
    using handed_over_dispatch [of e "timer_job t" "timer_Stop (Some n) s"] due_step lapse table
    by (auto simp: plan_of_def timer_fires_def intro: plan_step.live)
  assume "\<not> is_shutdown s"
  then have "handed_over (outbox (timer_fires e n t s)) = handed_over (outbox s) @ [(timer_job t, True)]"
    by (simp add: timer_fires_def dispatchJobRun_def is_shutdown_def send_def)
  then show "live_step (plan_of s) (plan_of (timer_fires e n t s))" using due_step table by (simp add: plan_of_def)
qed

lemma removed_again: "T uid = None \<Longrightarrow> T(uid := x) |` (- {uid}) = T"
  by (rule ext) (simp add: restrict_map_def)

lemma plan_new:
  assumes "core_inv s" "new_job s j" "selectNewJob e j s = Some s'"
  shows "live_step (plan_of s) (plan_of s')"
proof -
  have new: "timetable s (j_id j) = None" "jobs s (j_id j) = None" "nextScheduled j = []" "j_timer j = None"
    using assms(2) by (simp_all add: new_job_def timetable_def)
  have stored: "timetable (send m (store (j_id j) k s1)) = (timetable s)(j_id j \<mapsto> due_time s1 k)"
    if "jobs s1 = jobs s" "\<And>u i. jobs s u = Some i \<Longrightarrow> due_time s1 i = due_time s i" for m k s1
  proof (rule ext)
    fix u
    have "due_time (send m (store (j_id j) k s1)) = due_time s1" by (rule due_time_cong) simp
    then show "timetable (send m (store (j_id j) k s1)) u = ((timetable s)(j_id j \<mapsto> due_time s1 k)) u"
      using that by (cases "jobs s u") (auto simp: timetable_def)
  qed
  have waits: "due_time s0 k = None" if "j_timer k = None" for s0 k using that by (simp add: due_time_def)
  note add = live_step.add [of "timetable s" "j_id j", OF new(1)]
  show ?thesis
  proof (cases "started s")
    case False
    then have "s' = send (NewJobDone (j_id j)) (store (j_id j) j s)" using assms(3) by (simp add: selectNewJob_def)
    then show ?thesis using add stored [OF refl] by (simp add: plan_of_def)
  next
    case True
    then obtain j' dropped s1 where prep: "prepareFirstRun e j s = Some (j', dropped, s1)"
      and s': "s' = (let s2 = send (NewJobDone (j_id j')) (store (j_id j') j' s1) in if dropped then selectRemoveJob (j_id j') s2 else s2)"
      using assms(3) by (auto simp: selectNewJob_def Let_def split: option.splits if_splits)
    from prep show ?thesis
    proof (cases rule: prepareFirstRun_cases)
      case dropped
      let ?s2 = "send (NewJobDone (j_id j)) (store (j_id j) j s)"
      have "timer_job t \<noteq> j_id j" if "timers s m = Some t" for m t
        using core_invD(3) [OF assms(1) that] new(2) by (auto simp: timer_inv_def)
      then have "core_inv (store (j_id j) j s)" using new(3,4) by (intro core_inv_store [OF assms(1) refl]) auto
      then have inv: "core_inv ?s2" by simp
      have "timetable ?s2 = (timetable s)(j_id j \<mapsto> due_time s j)" by (rule stored) simp_all
      moreover have "s' = selectRemoveJob (j_id j) ?s2" using dropped s' by (simp add: Let_def)
      ultimately have "plan_of s' = (timetable s, handed_over (outbox s))"
        using plan_remove [OF inv, of "j_id j"] removed_again [of "timetable s" "j_id j", OF new(1)] by simp
      then show ?thesis by (simp add: plan_of_def live_step.idle)
    next
      case dispatched
      have "timetable s' = (timetable s)(j_id j \<mapsto> None)"
        using stored [of s1] dispatched s' waits [of j'] new(4) due_time_cong [of s1 s] by simp
      then show ?thesis
        using handed_over_dispatch [of e "j_id j" s] add live_step.add_now [of "timetable s" "j_id j", OF new(1)] dispatched s'
        by (auto simp: plan_of_def)
    next
      case (armed "next" n)
      have "timetable s' = (timetable s)(j_id j \<mapsto> due_time s1 j')"
        using stored [of s1] armed s' due_time_AfterFunc [OF armed(3) assms(1)] by (simp add: AfterFunc_simps)
      moreover have "outbox s1 = outbox s" using armed(3) by (simp add: AfterFunc_simps)
      ultimately show ?thesis using add armed s' by (simp add: plan_of_def)
    qed
  qed
qed

lemma restrict_UNIV: "T |` UNIV = T"
  by (rule ext) (simp add: restrict_map_def)

lemma plan_untag:
  assumes "core_inv s"
  shows "\<exists>U. plan_of (removeByTags_loop tags uids s) = (timetable s |` (- U), handed_over (outbox s))"
  using assms
proof (induction tags uids s rule: removeByTags_loop.induct)
  case (1 tags s)
  then show ?case by (intro exI [of _ "{}"]) (simp add: plan_of_def restrict_UNIV)
next
  case (2 tags uid uids s)
  let ?s = "case jobs s uid of None \<Rightarrow> s
    | Some j \<Rightarrow> if list_ex (\<lambda>tag. tag \<in> set (j_tags j)) tags
        then delete_job (j_id j) (job_stop j (notifyJobUnregistered (j_id j) s)) else s"
  have "?s = s \<or> ?s = selectRemoveJob uid s"
    using core_invD(1) [OF 2(2)] by (auto simp: selectRemoveJob_def split: option.split)
  then obtain V where V: "core_inv ?s" "timetable ?s = timetable s |` (- V)" "handed_over (outbox ?s) = handed_over (outbox s)"
  proof
    assume "?s = s"
    then show thesis using 2(2) by (intro that [of "{}"]) (simp_all add: restrict_UNIV)
  next
    assume "?s = selectRemoveJob uid s"
    then show thesis using 2(2) timetable_remove by (intro that [of "{uid}"]) (simp_all add: core_inv_selectRemoveJob)
  qed
  obtain U where "plan_of (removeByTags_loop tags uids ?s) = (timetable ?s |` (- U), handed_over (outbox ?s))"
    using "2.IH" [OF V(1)] by blast
  then show ?case using V(2,3) by (intro exI [of _ "U \<union> V"]) (simp add: restrict_restrict Compl_Un Int_commute)
qed

lemma resched_shape:
  assumes "core_inv s" "jobs s uid = Some j" "selectExecJobsOutForRescheduling e uid s = Some s'"
  shows "s' = s \<or> s' = selectRemoveJob uid s \<or> (\<exists>n. s' = arm_next e uid j n s)"
proof -
  have same: "sorted_job j = j" using core_invD(2) [OF assms(1,2)] by (rule sorted_job_id)
  have "store uid j s = s" using assms(2) by (simp add: store_def fun_upd_idem)
  then show ?thesis
    using assms by (auto simp: selectExecJobsOutForRescheduling_def Let_def same split: if_splits option.splits)
qed

lemma plan_resched:
  assumes "core_inv s" "selectExecJobsOutForRescheduling e uid s = Some s'"
  shows "plan_step (plan_of s) (plan_of s')"
proof (cases "jobs s uid")
  case None
  then show ?thesis using assms by (auto simp: selectExecJobsOutForRescheduling_def plan_of_def plan_idle split: if_splits)
next
  case (Some j)
  then show ?thesis
    using resched_shape [OF assms(1) Some assms(2)] plan_remove [OF assms(1)] plan_arm_next [OF assms(1) Some]
      plan_step.schedule [of "timetable s" uid]
    by (auto simp: plan_of_def timetable_def intro: plan_idle plan_removal)
qed

lemma plan_timing: "plan_of (selectJobTimingUpdate uid a b s) = plan_of s"
proof (cases "jobs s uid")
  case (Some j)
  define j1 where "j1 = (if IsZero a then j else j\<lparr>lastRunStartedAt := a\<rparr>)"
  define k where "k = (if IsZero b then j1 else j1\<lparr>lastRunCompletedAt := b\<rparr>)"
  have k: "j_timer k = j_timer j" by (simp add: k_def j1_def)
  have stored: "selectJobTimingUpdate uid a b s = store uid k s \<or> selectJobTimingUpdate uid a b s = send (RemoveJobLater uid) (store uid k s)"
    unfolding selectJobTimingUpdate_def Some option.case Let_def j1_def [symmetric] k_def [symmetric] by (auto split: option.split)
  have "plan_of (send (RemoveJobLater uid) (store uid k s)) = plan_of (store uid k s)" by (rule plan_of_cong) simp_all
  then show ?thesis using plan_of_store [OF Some k] stored by auto
qed (simp add: selectJobTimingUpdate_def)

lemma plan_completed: "plan_of (selectExecJobsOutCompleted e uid skipped s) = plan_of s"
proof (cases "jobs s uid")
  case (Some j)
  show ?thesis
    unfolding selectExecJobsOutCompleted_def Some option.case Let_def
    by (auto split: option.split intro!: plan_of_store [OF Some])
qed (simp add: selectExecJobsOutCompleted_def)

lemma plan_update_next: "plan_of (updateNextScheduled e uid s) = plan_of s"
  by (auto simp: updateNextScheduled_def split: option.split intro!: plan_of_store)

lemma plan_run_now:
  assumes "selectRunJobRequest e uid s = Some (s', reply)" "core_inv s"
  shows "live_step (plan_of s) (plan_of s')"
proof -
  have "s' = s \<or> (\<exists>j. jobs s uid = Some j \<and> s' = send (JobsIn uid False) s)"
    using assms core_invD(1) by (auto simp: selectRunJobRequest_def split: option.splits if_splits)
  moreover have "plan_of (send (JobsIn uid False) s) = (timetable s, handed_over (outbox s) @ [(uid, False)])"
    using due_time_cong [of "send (JobsIn uid False) s" s] by (simp add: plan_of_def timetable_def [abs_def])
  ultimately show ?thesis
    using live_step.idle live_step.request [of "timetable s" uid] by (auto simp: plan_of_def timetable_def)
qed



end
