(* ===== verification/ExecutorTheorems.thy ===== *)
theory ExecutorTheorems
  imports Executor JobTheorems
begin

text \<open>
  What a run guarantees: the messages that the scheduler receives and their order, that a run that may
  not take place does not call the task, that locks are released, and what the scheduler makes of
  the messages of a run.
\<close>

section \<open>Sequencing\<close>

lemma run_simps [simp]:
  "run_bind ([], Some y) f = f y" "run_bind (es, None) f = (es, None)"
  "run_bind (run_return y) f = f y" "run_bind (emit es) g = (es @ fst (g ()), snd (g ()))"
  "fst (run_return y) = []" "snd (run_return y) = Some y" "emit es = (es, Some ())"
  by (simp_all add: run_bind_def run_return_def emit_def split: prod.split)

lemma run_bind_Some [simp]:
  "fst (run_bind (es, Some y) f) = es @ fst (f y)" "snd (run_bind (es, Some y) f) = snd (f y)"
  by (simp_all add: run_bind_def split: prod.split)

definition to_scheduler :: "event \<Rightarrow> bool" where
  "to_scheduler ev = (case ev of OutForRescheduling _ \<Rightarrow> True | OutForNextRunUpdate _ \<Rightarrow> True | OutCompleted _ _ \<Rightarrow> True
     | OutTiming _ _ _ \<Rightarrow> True | _ \<Rightarrow> False)"

definition messages :: "'a run \<Rightarrow> event list" where
  "messages m = filter to_scheduler (fst m)"

text \<open>A run whose messages are received and whose listeners do not panic.\<close>

definition smooth :: "world \<Rightarrow> bool" where
  "smooth w \<longleftrightarrow> (\<forall>ev. w_receives w ev) \<and> (\<forall>l. w_listener w l \<noteq> None)"

lemma messages_bind:
  "messages (run_bind m f) = messages m @ (case snd m of None \<Rightarrow> [] | Some y \<Rightarrow> messages (f y))"
  "snd (run_bind m f) = (case snd m of None \<Rightarrow> None | Some y \<Rightarrow> snd (f y))"
  by (cases m; auto simp: messages_def run_bind_def split: prod.split option.split)+

lemma messages_basic [simp]:
  "messages (run_return y) = []" "messages (es, r) = filter to_scheduler es"
  "snd (emit_if b es) = Some ()" "messages (emit_if b es) = (if b then filter to_scheduler es else [])"
  by (simp_all add: messages_def emit_if_def)

lemma to_scheduler_simps [simp]:
  "to_scheduler (OutForRescheduling u)" "to_scheduler (OutForNextRunUpdate u)" "to_scheduler (OutCompleted u b)"
  "to_scheduler (OutTiming u s t)" "\<not> to_scheduler AskLeader" "\<not> to_scheduler (TakeLock h n)" "\<not> to_scheduler (ReleaseLock h)"
  "\<not> to_scheduler (CallListener h l)" "\<not> to_scheduler CallTask" "\<not> to_scheduler (IncrementJob st)"
  "\<not> to_scheduler (RecordJobTiming s t)" "\<not> to_scheduler (RecordJobTimingWithStatus s t st err)" "\<not> to_scheduler JobStarted"
  "\<not> to_scheduler (JobSchedulingDelay due s)" "\<not> to_scheduler JobRunning" "\<not> to_scheduler (JobFailed e)" "\<not> to_scheduler JobCompleted"
  "\<not> to_scheduler (JobExecutionTime d)"
  by (simp_all add: to_scheduler_def)

lemma smooth_steps:
  assumes "smooth w"
  shows "messages (send_or_done w ev) = filter to_scheduler [ev]" "snd (send_or_done w ev) = Some ()"
    "messages (call_listener w f l) = []" "snd (call_listener w f l) \<noteq> None"
    "messages (sendOutForRescheduling w jIn) = (if shouldSendOut jIn then [OutForRescheduling (in_id jIn)] else [])"
    "snd (sendOutForRescheduling w jIn) = Some (jIn\<lparr>shouldSendOut := False\<rparr>)"
  using assms by (auto simp: smooth_def send_or_done_def call_listener_def sendOutForRescheduling_def split: option.split)

lemma smooth_listener:
  assumes "smooth w"
  obtains r where "snd (call_listener w f l) = Some r" "messages (call_listener w f l) = []"
  using smooth_steps(3,4) [OF assms, of f l] by blast

lemma monitor_steps [simp]:
  "messages (recordJobTiming x s t) = []" "snd (recordJobTiming x s t) = Some ()"
  "messages (incrementJobCounter x st) = []" "snd (incrementJobCounter x st) = Some ()"
  "messages (recordJobTimingWithStatus x s t st err) = []" "snd (recordJobTimingWithStatus x s t st err) = Some ()"
  by (simp_all add: recordJobTiming_def incrementJobCounter_def recordJobTimingWithStatus_def)

lemma messages_finish:
  assumes "smooth w"
  shows "messages (finish_run w x j start err) = [OutTiming (j_id j) zero_time (w_now w 4)] \<and>
    snd (finish_run w x j start err) = Some ()"
proof (cases err)
  case None
  obtain r where "snd (call_listener w (afterJobRuns j) OnAfter) = Some r"
    "messages (call_listener w (afterJobRuns j) OnAfter) = []" by (rule smooth_listener [OF assms])
  then show ?thesis by (simp add: None finish_run_def Let_def messages_bind smooth_steps(1,2) [OF assms])
next
  case (Some e)
  obtain r where "snd (call_listener w (afterJobRunsWithError j) (OnAfterError e)) = Some r"
    "messages (call_listener w (afterJobRunsWithError j) (OnAfterError e)) = []" by (rule smooth_listener [OF assms])
  then show ?thesis by (simp add: Some finish_run_def Let_def messages_bind smooth_steps(1,2) [OF assms])
qed

lemma messages_call_task: "smooth w \<Longrightarrow> messages (call_task w j) = []"
  using smooth_steps(3) [of w "afterJobRunsWithPanic j" OnPanic]
  by (auto simp: call_task_def callJobWithRecover_def messages_bind split: option.split)
   
text \<open>The messages of a run that reaches its task, in their order.\<close>

definition run_messages :: "world \<Rightarrow> internalJob \<Rightarrow> jobIn \<Rightarrow> event list" where
  "run_messages w j jIn =
     (let out = (if shouldSendOut jIn then [OutForRescheduling (in_id jIn)] else []);
          timing = [OutTiming (j_id j) (w_now w 2) zero_time, OutTiming (j_id j) zero_time (w_now w 4)]
      in if intervalFromCompletion j then timing @ [OutCompleted (j_id j) False] @ out
         else out @ [OutCompleted (j_id j) False] @ timing)"

lemma messages_body:
  assumes "smooth w" "snd (call_listener w (beforeJobRunsSkipIfBeforeFuncErrors j) OnBeforeSkip) = Some None"
    and "snd (call_task w j) = Some err"
  shows "messages (run_body w x j jIn) = run_messages w j jIn \<and> snd (run_body w x j jIn) = Some ()"
proof -
  obtain r where before: "snd (call_listener w (beforeJobRuns j) OnBefore) = Some r"
    "messages (call_listener w (beforeJobRuns j) OnBefore) = []" by (rule smooth_listener [OF assms(1)])
  show ?thesis
    using messages_finish [OF assms(1)] messages_call_task [OF assms(1)] assms(2,3)
      smooth_steps(3) [OF assms(1), of "beforeJobRunsSkipIfBeforeFuncErrors j" OnBeforeSkip]
    by (cases "intervalFromCompletion j")
      (simp_all add: run_body_def Let_def messages_bind before smooth_steps(1,2,5,6) [OF assms(1)] run_messages_def)
qed

section \<open>Concrete runs\<close>

text \<open>Surroundings in which everything succeeds, with the answer of the locker and the task's results.\<close>

definition calm :: "error option \<Rightarrow> error option list option \<Rightarrow> world" where
  "calm lock results = \<lparr>w_cancelled = False, w_now = \<lambda>n. \<lparr>inst = 100 + int n, tloc = UTC\<rparr>, w_receives = \<lambda>_. True, w_leader = None,
     w_lock = lock, w_listener = \<lambda>_. Some None, w_call = \<lambda>_ _. results, w_recovered = ''boom''\<rparr>"

definition bare :: executor where
  "bare = \<lparr>x_elector = False, x_locker = Some 5, x_monitor = False, x_monitorStatus = False, x_schedulerMonitor = False\<rparr>"

lemma calm_simps [simp]:
  "smooth (calm lock results)" "w_now (calm lock results) n = \<lparr>inst = 100 + int n, tloc = UTC\<rparr>"
  "snd (call_listener w None l) = Some None"
  by (simp_all add: smooth_def calm_def call_listener_def)

section \<open>The messages of a run\<close>

text \<open>Elector and lockers let the run through, and no context is done and no stop time reached.\<close>

definition may_start :: "world \<Rightarrow> internalJob \<Rightarrow> bool" where
  "may_start w j \<longleftrightarrow> \<not> w_cancelled w \<and> \<not> stopTimeReached j (w_now w 0)"

definition lock_of :: "executor \<Rightarrow> internalJob \<Rightarrow> handle option" where
  "lock_of x j = (if disabledLocker j then None else case j_locker j of Some h \<Rightarrow> Some h | None \<Rightarrow> x_locker x)"

definition is_admitted :: "world \<Rightarrow> executor \<Rightarrow> internalJob \<Rightarrow> bool" where
  "is_admitted w x j = (if x_elector x then w_leader w = None else lock_of x j = None \<or> w_lock w = None)"

lemma fst_deferring [simp]: "fst (deferring ev m) = fst m @ [ev]"
  by (simp add: deferring_def)

lemma runJob_cases:
  "runJob w x (Some j) jIn =
     (if \<not> may_start w j then run_return ()
      else if x_elector x then
        ([AskLeader] @ fst (if w_leader w \<noteq> None then skip_run w x jIn else run_body w x j jIn),
         snd (if w_leader w \<noteq> None then skip_run w x jIn else run_body w x j jIn))
      else case lock_of x j of Some h \<Rightarrow> locked_run w x h j jIn | None \<Rightarrow> run_body w x j jIn)"
  by (auto simp: runJob_def may_start_def lock_of_def run_bind_def split: option.split prod.split)

lemma messages_skip:
  "smooth w \<Longrightarrow> messages (skip_run w x jIn) = (if shouldSendOut jIn then [OutForRescheduling (in_id jIn)] else []) @
     [OutForNextRunUpdate (in_id jIn)]"
  by (simp add: skip_run_def sendOutForNextRunUpdate_def messages_bind smooth_steps(1,5,6))

lemma reported_messages:
  assumes "smooth w" "may_start w j" "is_admitted w x j"
    and "snd (call_listener w (beforeJobRunsSkipIfBeforeFuncErrors j) OnBeforeSkip) = Some None"
    and "snd (call_task w j) = Some err"
  shows "filter to_scheduler (fst (runJob w x (Some j) jIn)) = run_messages w j jIn"
proof -
  note body = messages_body [OF assms(1,4,5), of x jIn]
  show ?thesis
    using body assms(2,3) unfolding runJob_cases is_admitted_def locked_run_def
    by (cases "lock_of x j") (auto simp: messages_def)
qed

text \<open>What a run may tell the scheduler: it is skipped, it is vetoed by a listener, or the task runs.\<close>

definition requests :: "jobIn \<Rightarrow> event list" where
  "requests jIn = (if shouldSendOut jIn then [OutForRescheduling (in_id jIn)] else [])"

lemma body_outcomes:
  assumes "smooth w" "snd (run_body w x j jIn) \<noteq> None"
  shows "messages (run_body w x j jIn) \<in> {requests jIn @ [OutCompleted (j_id j) True], run_messages w j jIn}"
proof -
  obtain r where before: "snd (call_listener w (beforeJobRuns j) OnBefore) = Some r"
    "messages (call_listener w (beforeJobRuns j) OnBefore) = []" by (rule smooth_listener [OF assms(1)])
  obtain e where skip: "snd (call_listener w (beforeJobRunsSkipIfBeforeFuncErrors j) OnBeforeSkip) = Some e"
    "messages (call_listener w (beforeJobRunsSkipIfBeforeFuncErrors j) OnBeforeSkip) = []"
    by (rule smooth_listener [OF assms(1)])
  note steps = before skip smooth_steps(1,2,5,6) [OF assms(1)] messages_bind
  show ?thesis
  proof (cases e)
    case (Some err)
    then show ?thesis by (simp add: run_body_def Let_def steps requests_def)
  next
    case None
    then have "snd (call_task w j) \<noteq> None"
      using assms(2) by (auto simp: run_body_def Let_def steps split: option.splits)
    then show ?thesis using messages_body [OF assms(1)] None skip(1) by blast
  qed
qed

lemma run_outcomes:
  assumes "smooth w" "may_start w j" "snd (runJob w x (Some j) jIn) \<noteq> None"
  obtains (skipped) "filter to_scheduler (fst (runJob w x (Some j) jIn)) = requests jIn @ [OutForNextRunUpdate (in_id jIn)]"
    | (vetoed) "filter to_scheduler (fst (runJob w x (Some j) jIn)) = requests jIn @ [OutCompleted (j_id j) True]"
    | (ran) "filter to_scheduler (fst (runJob w x (Some j) jIn)) = run_messages w j jIn"
proof -
  note body = body_outcomes [OF assms(1), of x j jIn]
  have skip: "messages (skip_run w x jIn) = requests jIn @ [OutForNextRunUpdate (in_id jIn)]"
    by (simp add: messages_skip [OF assms(1)] requests_def)
  obtain r where refused: "snd (call_listener w (afterLockError j) (OnLockError (the (w_lock w)))) = Some r"
    "messages (call_listener w (afterLockError j) (OnLockError (the (w_lock w)))) = []"
    by (rule smooth_listener [OF assms(1)])
  have locked: "messages (run_bind (call_listener w (afterLockError j) (OnLockError e)) (\<lambda>_. skip_run w x jIn)) =
      requests jIn @ [OutForNextRunUpdate (in_id jIn)]" if "w_lock w = Some e" for e
    using refused skip that by (simp add: messages_bind)
  have "messages (runJob w x (Some j) jIn) \<in>
      {requests jIn @ [OutForNextRunUpdate (in_id jIn)], requests jIn @ [OutCompleted (j_id j) True], run_messages w j jIn}"
  proof (cases "x_elector x")
    case True
    then show ?thesis using assms(2,3) body skip by (auto simp: runJob_cases messages_def)
  next
    case False
    then show ?thesis using assms(2,3) body skip locked
      by (cases "lock_of x j"; cases "w_lock w") (auto simp: runJob_cases locked_run_def messages_def deferring_def)
  qed
  then show thesis using that by (auto simp: messages_def)
qed

text \<open>
  C15: A run that is admitted and whose task returns tells the scheduler, in this order, to reschedule the job,
  that the run was taken, when it started and when it completed; when the interval counts from the
  completion, the first two come last and in reverse. A run by \<open>RunNow\<close> does not reschedule.
\<close>

theorem run_reports_in_order:
  assumes "smooth w" "may_start w j" "is_admitted w x j"
    and "snd (call_listener w (beforeJobRunsSkipIfBeforeFuncErrors j) OnBeforeSkip) = Some None"
    and "snd (call_task w j) = Some err"
  shows "filter to_scheduler (fst (runJob w x (Some j) jIn)) = run_messages w j jIn"
  by (rule reported_messages [OF assms])

definition timed :: "uuid \<Rightarrow> internalJob" where
  "timed uid = plain_job uid 1"

lemma timed_simps [simp]:
  "j_id (timed uid) = uid" "stopTime (timed uid) = zero_time" "disabledLocker (timed uid) = False" "j_locker (timed uid) = None"
  "beforeJobRunsSkipIfBeforeFuncErrors (timed uid) = None" "intervalFromCompletion (timed uid) = False"
  "j_limitRunsTo (timed uid) = None" "afterJobRunsWithPanic (timed uid) = None" "j_name (timed uid) = ''main.f''"
  "j_function (timed uid) = Value (FuncT [] False) 1" "j_parameters (timed uid) = []"
  by (simp_all add: timed_def plain_job_def every_def zero_job_def)

lemma timed_runs [simp]:
  "may_start (calm lock results) (timed uid)" "lock_of bare (timed uid) = Some 5" "x_elector bare = False"
  "w_lock (calm lock results) = lock"
  "is_admitted (calm lock results) bare (timed uid) = (lock = None)"
  "snd (call_listener w (beforeJobRunsSkipIfBeforeFuncErrors (timed uid)) OnBeforeSkip) = Some None"
  "snd (call_task (calm lock (Some vals)) (timed uid)) = Some (first_error vals)"
  by (simp_all add: may_start_def calm_def stopTimeReached_def lock_of_def bare_def is_admitted_def call_listener_def
      call_task_def callJobFuncWithParams_def)

theorem run_reports_in_order_witness:
  "filter to_scheduler (fst (runJob (calm None (Some [])) bare (Some (timed 7)) \<lparr>in_id = 7, shouldSendOut = True\<rparr>)) =
     [OutForRescheduling 7, OutCompleted 7 False, OutTiming 7 \<lparr>inst = 102, tloc = UTC\<rparr> zero_time,
      OutTiming 7 zero_time \<lparr>inst = 104, tloc = UTC\<rparr>]"
  by (subst run_reports_in_order [where err = "first_error []"]) (simp_all add: run_messages_def)

text \<open>
  C16: A run that the elector or a locker refuses never calls the task. It is rescheduled, and the scheduler is
  told to prune the times of the job.
\<close>

theorem refused_run_is_skipped:
  assumes "smooth w" "may_start w j" "\<not> is_admitted w x j"
  shows "filter to_scheduler (fst (runJob w x (Some j) jIn)) =
      (if shouldSendOut jIn then [OutForRescheduling (in_id jIn)] else []) @ [OutForNextRunUpdate (in_id jIn)] \<and>
    CallTask \<notin> set (fst (runJob w x (Some j) jIn))"
proof -
  note skip = messages_skip [OF assms(1), of x jIn]
  have none: "CallTask \<notin> set (fst (skip_run w x jIn))"
    by (auto simp: skip_run_def run_bind_def sendOutForRescheduling_def incrementJobCounter_def sendOutForNextRunUpdate_def
      send_or_done_def emit_if_def run_return_def)
  show ?thesis
  proof (cases "x_elector x")
    case True
    then show ?thesis using assms(2,3) skip none by (auto simp: runJob_cases is_admitted_def messages_def)
  next
    case False
    then obtain h e where h: "lock_of x j = Some h" "w_lock w = Some e" using assms(3) by (auto simp: is_admitted_def)
    obtain r where l: "snd (call_listener w (afterLockError j) (OnLockError e)) = Some r"
      "messages (call_listener w (afterLockError j) (OnLockError e)) = []" by (rule smooth_listener [OF assms(1)])
    have "CallTask \<notin> set (fst (call_listener w (afterLockError j) (OnLockError e)))"
      by (auto simp: call_listener_def run_return_def split: option.split)
    then show ?thesis
      using l skip none assms(2) False h
      by (cases "call_listener w (afterLockError j) (OnLockError e)") (auto simp: runJob_cases locked_run_def messages_def)
  qed
qed

theorem refused_run_is_skipped_witness:
  "filter to_scheduler (fst (runJob (calm (Some (External ''taken'')) None) bare (Some (timed 7)) \<lparr>in_id = 7, shouldSendOut = True\<rparr>)) =
     [OutForRescheduling 7, OutForNextRunUpdate 7]"
  using refused_run_is_skipped [of "calm (Some (External ''taken'')) None" "timed 7" bare "\<lparr>in_id = 7, shouldSendOut = True\<rparr>"]
  by simp

section \<open>Calls and locks\<close>

definition calls :: "'a run \<Rightarrow> nat" where
  "calls m = count_list (fst m) CallTask"

lemma calls_bind: "calls (run_bind m f) = calls m + (case snd m of None \<Rightarrow> 0 | Some y \<Rightarrow> calls (f y))"
  by (cases m) (auto simp: calls_def run_bind_def split: option.split prod.split)

lemma calls_basic [simp]:
  "calls (run_return y) = 0" "calls (es, r) = count_list es CallTask"
  "calls (emit_if b es) = (if b then count_list es CallTask else 0)"
  "calls (call_listener w f l) = 0" "calls (deferring (ReleaseLock h) m) = calls m"
  by (simp_all add: calls_def emit_if_def call_listener_def run_return_def deferring_def split: option.split)

lemma calls_steps [simp]:
  "calls (sendOutForRescheduling w jIn) = 0" "calls (skip_run w x jIn) = 0" "calls (finish_run w x j s err) = 0"
  "calls (call_task w j) = 1"
  by (simp_all add: sendOutForRescheduling_def skip_run_def incrementJobCounter_def sendOutForNextRunUpdate_def
      send_or_done_def finish_run_def recordJobTiming_def recordJobTimingWithStatus_def call_task_def callJobWithRecover_def
      Let_def calls_bind split: option.split)

lemma calls_body: "calls (run_body w x j jIn) \<le> 1"
  "snd (call_listener w (beforeJobRunsSkipIfBeforeFuncErrors j) OnBeforeSkip) \<noteq> Some None \<Longrightarrow> calls (run_body w x j jIn) = 0"
  by (auto simp: run_body_def send_or_done_def Let_def calls_bind split: option.split)

text \<open>
  Whatever the surroundings do, a run calls its task at most once, and only when it may start, is admitted,
  and the listener that can veto it returned without an error.
\<close>

theorem task_called_at_most_once:
  "count_list (fst (runJob w x job jIn)) CallTask \<le> 
     (case job of Some j \<Rightarrow>
        if may_start w j \<and> is_admitted w x j \<and>
           snd (call_listener w (beforeJobRunsSkipIfBeforeFuncErrors j) OnBeforeSkip) = Some None then 1 else 0
      | None \<Rightarrow> 0)"
proof (cases job)
  case None
  then show ?thesis by (simp add: runJob_def)
next
  case (Some j)
  have "calls (runJob w x (Some j) jIn) \<le>
      (if may_start w j \<and> is_admitted w x j \<and>
          snd (call_listener w (beforeJobRunsSkipIfBeforeFuncErrors j) OnBeforeSkip) = Some None then 1 else 0)"
    using calls_body(1) [of w x j jIn] calls_body(2) [of w j x jIn]
    by (cases "lock_of x j") 
      (auto simp: runJob_cases is_admitted_def locked_run_def calls_bind calls_def [symmetric] split: option.split)
  then show ?thesis by (simp add: Some calls_def)
qed

text \<open>
  C17: A lock that a run obtains is released as the last thing the run does, also when a listener or the task
  panics; without a lock nothing is released.
\<close>

theorem locks_are_released:
  assumes "may_start w j" "\<not> x_elector x" "lock_of x j = Some h"
  shows "hd (fst (runJob w x (Some j) jIn)) = TakeLock h (j_name j) \<and>
    (if w_lock w = None then last (fst (runJob w x (Some j) jIn)) = ReleaseLock h
     else ReleaseLock h \<notin> set (fst (runJob w x (Some j) jIn)))"
proof -
  have "ReleaseLock h \<notin> set (fst (skip_run w x jIn))" "ReleaseLock h \<notin> set (fst (call_listener w f l))" for f l
    by (auto simp: skip_run_def run_bind_def sendOutForRescheduling_def incrementJobCounter_def sendOutForNextRunUpdate_def
      send_or_done_def emit_if_def run_return_def call_listener_def split: option.split)
  then show ?thesis
    using assms by (auto simp: runJob_cases locked_run_def deferring_def run_bind_def split: option.split prod.split)
      (metis UnE fst_conv set_append)+
qed

theorem locks_are_released_witness:
  "last (fst (runJob (calm None None) bare (Some (timed 7)) \<lparr>in_id = 7, shouldSendOut = True\<rparr>)) = ReleaseLock 5"
  using locks_are_released [of "calm None None" "timed 7" bare 5 "\<lparr>in_id = 7, shouldSendOut = True\<rparr>"] by simp

section \<open>Panics\<close>

text \<open>
  C19: A job with a listener for panics survives a panic of its task: as long as no listener panics the run
  ends normally, and the error it goes on with is \<open>ErrPanicRecovered\<close>.
\<close>

theorem panics_are_recovered:
  assumes "smooth w" "afterJobRunsWithPanic j \<noteq> None"
  shows "snd (runJob w x (Some j) jIn) = Some () \<and>
    (callJobFuncWithParams (w_call w) (j_function j) (j_parameters j) = None \<longrightarrow>
      (\<exists>e. snd (call_task w j) = Some (Some e) \<and> errors_Is e ErrPanicRecovered))"
proof -
  obtain r where panic: "snd (call_listener w (afterJobRunsWithPanic j) OnPanic) = Some r" by (rule smooth_listener [OF assms(1)])
  have "\<exists>err. snd (call_task w j) = Some err"
    using panic assms(2) by (cases "callJobFuncWithParams (w_call w) (j_function j) (j_parameters j)")
      (simp_all add: call_task_def callJobWithRecover_def messages_bind(2))
  then obtain err where task: "snd (call_task w j) = Some err" by blast
  obtain r2 where before: "snd (call_listener w (beforeJobRuns j) OnBefore) = Some r2" by (rule smooth_listener [OF assms(1)])
  obtain r3 where skip: "snd (call_listener w (beforeJobRunsSkipIfBeforeFuncErrors j) OnBeforeSkip) = Some r3"
    by (rule smooth_listener [OF assms(1)])
  note ends = before skip task smooth_steps(2,6) [OF assms(1)] messages_finish [OF assms(1)] messages_bind(2)
  have body: "snd (run_body w x j jIn) = Some ()"
    by (simp add: run_body_def Let_def ends split: option.split)
  have skipped: "snd (skip_run w x jIn) = Some ()" by (simp add: skip_run_def sendOutForNextRunUpdate_def ends)
  have locked: "snd (locked_run w x h j jIn) = Some ()" for h
    using smooth_steps(4) [OF assms(1), of "afterLockError j" "OnLockError (the (w_lock w))"]
    by (cases "w_lock w") (auto simp: locked_run_def body skipped deferring_def messages_bind(2))
  have "snd (runJob w x (Some j) jIn) = Some ()"
    using body skipped locked by (simp add: runJob_cases split: option.split)
  then show ?thesis using assms(2) panic by (auto simp: call_task_def callJobWithRecover_def messages_bind(2))
qed

theorem panics_are_recovered_witness:
  "snd (runJob (calm None None) bare (Some (timed 7\<lparr>afterJobRunsWithPanic := Some 3\<rparr>)) \<lparr>in_id = 7, shouldSendOut = True\<rparr>) = Some ()"
  using panics_are_recovered [of "calm None None" "timed 7\<lparr>afterJobRunsWithPanic := Some 3\<rparr>"] by simp

section \<open>What the scheduler makes of a run\<close>

lemma receive_reachable:
  assumes "reachable s" "started s" "receive e ev s = Some s'"
  shows "reachable s' \<and> started s'"
proof -
  have "(s' = s \<or> select_step s s') \<and> started s' = started s"
    using assms(2,3) started_resched [of e _ s s']
    by (cases ev) (auto intro: select_step.intros)
  then show ?thesis using assms(1,2) reachable.stepped by blast
qed

lemma receive_all_filter:
  "receive_all (map (Pair e) (filter to_scheduler evs)) s = receive_all (map (Pair e) evs) s"
proof (induction evs arbitrary: s)
  case (Cons ev evs)
  then show ?case by (cases ev) (auto split: option.split)
qed simp

text \<open>
  Whatever happens during a run, the messages it sends take a started scheduler from one reachable state
  to another.
\<close>

theorem runs_keep_reachable:
  assumes "reachable s" "started s" "map snd evs = fst (runJob w x job jIn)" "receive_all evs s = Some s'"
  shows "reachable s' \<and> started s'"
  using assms(1,2,4)
proof (induction evs s rule: receive_all.induct)
  case (2 e ev evs s)
  then obtain s1 where "receive e ev s = Some s1" "receive_all evs s1 = Some s'" by (auto split: option.splits)
  then show ?case using 2 receive_reachable by blast
qed simp

theorem runs_keep_reachable_witness:
  "\<exists>s'. receive_all (map (Pair (clock_at 20 [])) (fst (runJob (calm None (Some [])) bare (Some (timed 1)) \<lparr>in_id = 1, shouldSendOut = False\<rparr>)))
      one_timer = Some s' \<and> reachable s'"
proof -
  let ?jIn = "\<lparr>in_id = 1, shouldSendOut = False\<rparr>" and ?w = "calm None (Some [])"
  have "filter to_scheduler (fst (runJob ?w bare (Some (timed 1)) ?jIn)) = run_messages ?w (timed 1) ?jIn"
    by (rule reported_messages) simp_all
  then have "receive_all (map (Pair (clock_at 20 [])) (fst (runJob ?w bare (Some (timed 1)) ?jIn))) one_timer =
      receive_all (map (Pair (clock_at 20 [])) (run_messages ?w (timed 1) ?jIn)) one_timer"
    using receive_all_filter by metis
  also have "\<dots> \<noteq> None" by (simp add: run_messages_def Let_def)
  finally obtain s' where s': "receive_all (map (Pair (clock_at 20 [])) (fst (runJob ?w bare (Some (timed 1)) ?jIn))) one_timer = Some s'"
    by blast
  from runs_keep_reachable [OF timer_reachable _ _ s', of ?w bare "Some (timed 1)" ?jIn] s' show ?thesis by (simp add: o_def)
qed

text \<open>
  A run by \<open>RunNow\<close> of a job without a run limit leaves the schedule alone: no timer changes, and of the job
  only past run times go and the times of the last run change.
\<close>

theorem run_now_leaves_schedule:
  assumes "smooth w" "may_start w j" "is_admitted w x j" "\<not> shouldSendOut jIn" "j_limitRunsTo j = None"
    and "snd (call_listener w (beforeJobRunsSkipIfBeforeFuncErrors j) OnBeforeSkip) = Some None"
    and "snd (call_task w j) = Some err" "\<not> IsZero (w_now w 2)" "\<not> IsZero (w_now w 4)"
    and "jobs s (j_id j) = Some j"
  shows "\<exists>s'. receive_all (map (Pair e) (fst (runJob w x (Some j) jIn))) s = Some s' \<and> timers s' = timers s \<and> outbox s' = outbox s \<and>
    jobs s' = (jobs s)(j_id j \<mapsto> (pruneStaleScheduled (s_now e s) j)
      \<lparr>j_lastRun := s_now e s, lastRunStartedAt := w_now w 2, lastRunCompletedAt := w_now w 4\<rparr>)"
proof -
  have "receive_all (map (Pair e) (fst (runJob w x (Some j) jIn))) s = receive_all (map (Pair e) (run_messages w j jIn)) s"
    using reported_messages [OF assms(1-3,6,7), of jIn] receive_all_filter by metis
  also have "\<dots> = receive_all (map (Pair e)
      (if intervalFromCompletion j
       then [OutTiming (j_id j) (w_now w 2) zero_time, OutTiming (j_id j) zero_time (w_now w 4), OutCompleted (j_id j) False]
       else [OutCompleted (j_id j) False, OutTiming (j_id j) (w_now w 2) zero_time, OutTiming (j_id j) zero_time (w_now w 4)])) s"
    using assms(4) by (simp add: run_messages_def Let_def)
  finally have received: "receive_all (map (Pair e) (fst (runJob w x (Some j) jIn))) s = \<dots>" .
  show ?thesis
    using assms(5,8-10) unfolding received
    by (cases "intervalFromCompletion j"; cases j)
      (simp_all add: selectJobTimingUpdate_def selectExecJobsOutCompleted_def Let_def pruneStaleScheduled_def store_def s_now_def)
qed

theorem run_now_leaves_schedule_witness:
  "\<exists>s'. receive_all (map (Pair (clock_at 20 [])) (fst (runJob (calm None (Some [])) bare (Some (timed 1)) \<lparr>in_id = 1, shouldSendOut = False\<rparr>)))
      (store 1 (timed 1) one_timer) = Some s' \<and> timers s' = timers one_timer"
  using run_now_leaves_schedule [of "calm None (Some [])" "timed 1" bare "\<lparr>in_id = 1, shouldSendOut = False\<rparr>" "first_error []"
    "store 1 (timed 1) one_timer" "clock_at 20 []"] by (auto simp: IsZero_def)

section \<open>Whether a job is running\<close>

lemma reported_timing:
  assumes "jobs s uid = Some j"
  shows "\<exists>j'. jobs (selectJobTimingUpdate uid a b s) uid = Some j' \<and> j_id j' = j_id j \<and>
    lastRunStartedAt j' = (if IsZero a then lastRunStartedAt j else a) \<and>
    lastRunCompletedAt j' = (if IsZero b then lastRunCompletedAt j else b)"
  using assms by (simp add: selectJobTimingUpdate_def Let_def store_def send_def split: option.split)

text \<open>
  \<open>IsRunning\<close> follows a run: it is true from the message that the run started until the one that it completed, and
  false after that.
\<close>

theorem running_is_reported:
  assumes "jobs s uid = Some j" "j_id j = uid" "uid \<noteq> 0"
    and "inst (lastRunCompletedAt j) < inst a" "inst a \<le> inst c" "\<not> IsZero a" "\<not> IsZero c"
  shows "\<exists>s1 s2. receive e (OutTiming uid a zero_time) s = Some s1 \<and> IsRunning (reply_of (jobs s1 uid)) = Inr True \<and>
    receive e' (OutTiming uid zero_time c) s1 = Some s2 \<and> IsRunning (reply_of (jobs s2 uid)) = Inr False"
proof -
  let ?s1 = "selectJobTimingUpdate uid a zero_time s"
  obtain j1 where j1: "jobs ?s1 uid = Some j1" "j_id j1 = uid" "lastRunStartedAt j1 = a" "lastRunCompletedAt j1 = lastRunCompletedAt j"
    using reported_timing [OF assms(1), of a zero_time] assms(2,6) by auto
  obtain j2 where j2: "jobs (selectJobTimingUpdate uid zero_time c ?s1) uid = Some j2" "j_id j2 = uid"
      "lastRunStartedAt j2 = a" "lastRunCompletedAt j2 = c"
    using reported_timing [OF j1(1), of zero_time c] j1 assms(7) by auto
  have "IsRunning (reply_of (jobs ?s1 uid)) = Inr True" "IsRunning (reply_of (Some j2)) = Inr False"
    using j1 j2 assms(3-6) by (simp_all add: IsRunning_def with_job_def requestJob_def reply_of_def After_def)
  then show ?thesis using j2(1) by simp
qed

text \<open>
  With two runs of a job at once \<open>IsRunning\<close> loses track: when the first completes it reports that the job is not running
  although the second still is.
\<close>

theorem overlap_hides_running:
  assumes "jobs s uid = Some j" "j_id j = uid" "uid \<noteq> 0" "inst b \<le> inst c" "\<not> IsZero a" "\<not> IsZero b" "\<not> IsZero c"
  shows "\<exists>s'. receive_all [(e1, OutTiming uid a zero_time), (e2, OutTiming uid b zero_time), (e3, OutTiming uid zero_time c)] s = Some s' \<and>
    IsRunning (reply_of (jobs s' uid)) = Inr False"
proof -
  let ?s1 = "selectJobTimingUpdate uid a zero_time s"
  let ?s2 = "selectJobTimingUpdate uid b zero_time ?s1"
  obtain j1 where j1: "jobs ?s1 uid = Some j1" "j_id j1 = uid" using reported_timing [OF assms(1), of a zero_time] assms(2) by auto
  obtain j2 where j2: "jobs ?s2 uid = Some j2" "j_id j2 = uid" "lastRunStartedAt j2 = b"
    using reported_timing [OF j1(1), of b zero_time] j1(2) assms(6) by auto
  obtain j3 where j3: "jobs (selectJobTimingUpdate uid zero_time c ?s2) uid = Some j3" "j_id j3 = uid" "lastRunStartedAt j3 = b"
      "lastRunCompletedAt j3 = c"
    using reported_timing [OF j2(1), of zero_time c] j2(2,3) assms(7) by auto
  then show ?thesis using assms(3,4,6) by (simp add: IsRunning_def with_job_def requestJob_def reply_of_def After_def)
qed

theorem running_is_reported_witness:
  "\<exists>s1. receive (clock_at 20 []) (OutTiming 1 \<lparr>inst = 20, tloc = UTC\<rparr> zero_time) one_timer = Some s1 \<and>
     IsRunning (reply_of (jobs s1 1)) = Inr True"
proof -
  obtain j where "jobs one_timer 1 = Some j" "j_id j = 1" "lastRunCompletedAt j = zero_time"
    by (simp add: armed_job_def started_at_def every_def zero_job_def)
  then show ?thesis
    using running_is_reported [of one_timer 1 j "\<lparr>inst = 20, tloc = UTC\<rparr>" "\<lparr>inst = 25, tloc = UTC\<rparr>" "clock_at 20 []" "clock_at 25 []"]
    by (auto simp: zero_time_def IsZero_def)
qed

theorem overlap_hides_running_witness:
  "\<exists>s'. receive_all [(clock_at 20 [], OutTiming 1 \<lparr>inst = 20, tloc = UTC\<rparr> zero_time),
      (clock_at 30 [], OutTiming 1 \<lparr>inst = 30, tloc = UTC\<rparr> zero_time),
      (clock_at 35 [], OutTiming 1 zero_time \<lparr>inst = 35, tloc = UTC\<rparr>)] one_timer = Some s' \<and>
    IsRunning (reply_of (jobs s' 1)) = Inr False"
proof -
  obtain j where "jobs one_timer 1 = Some j" "j_id j = 1"
    by (simp add: armed_job_def started_at_def every_def zero_job_def)
  then show ?thesis by (rule overlap_hides_running) (simp_all add: IsZero_def zero_time_def)
qed

end
