(* ===== verification/Liveness.thy ===== *)
theory Liveness
  imports ExecutorTheorems Endless
begin

text \<open>
  That jobs keep running: the run of a job with an endless schedule, whatever becomes of it, ends with the timer of
  the job armed for its next run.
\<close>

section \<open>Every run asks for the next one\<close>

definition concerns :: "uuid \<Rightarrow> event \<Rightarrow> bool" where
  "concerns uid ev = (case ev of OutForRescheduling u \<Rightarrow> u = uid | OutForNextRunUpdate u \<Rightarrow> u = uid
     | OutCompleted u _ \<Rightarrow> u = uid | OutTiming u _ _ \<Rightarrow> u = uid | _ \<Rightarrow> False)"

definition asks_for_next :: "uuid \<Rightarrow> event list \<Rightarrow> bool" where
  "asks_for_next uid evs \<longleftrightarrow> OutForRescheduling uid \<in> set evs \<and> list_all (concerns uid) evs"

lemma run_asks_for_next:
  assumes "smooth w" "may_start w j" "shouldSendOut jIn" "in_id jIn = j_id j" "snd (runJob w x (Some j) jIn) \<noteq> None"
  shows "asks_for_next (j_id j) (filter to_scheduler (fst (runJob w x (Some j) jIn)))"
  using assms(1,2,5)
  by (cases rule: run_outcomes) (auto simp: assms(3,4) requests_def run_messages_def Let_def asks_for_next_def concerns_def)

section \<open>A job is armed again\<close>

text \<open>A job with the endless schedule \<open>sch\<close> and no stop time, as the scheduler may hold it.\<close>

definition repeats :: "jobSchedule \<Rightarrow> internalJob \<Rightarrow> bool" where
  "repeats sch j \<longleftrightarrow> j_schedule j = Some sch \<and> IsZero (stopTime j) \<and> endless sch (startTime j) \<and>
     (\<forall>t\<in>set (nextScheduled j). endless sch t) \<and> (IsZero (j_lastRun j) \<or> endless sch (j_lastRun j))"

text \<open>The clock of a scheduler in the location \<open>l\<close> shows a time from which the schedule goes on.\<close>

definition timely :: "jobSchedule \<Rightarrow> location \<Rightarrow> env \<Rightarrow> bool" where
  "timely sch l e \<longleftrightarrow> draws_ok (e_rnd e) \<and> endless sch (In (e_clock e) l)"

lemma repeats_goes_on: "repeats sch j \<Longrightarrow> draws_ok rnd \<Longrightarrow> endless sch t \<Longrightarrow> goes_on rnd j t"
  and goes_on_endless: "repeats sch j \<Longrightarrow> goes_on rnd j t \<Longrightarrow> endless sch t"
  by (auto simp: repeats_def goes_on_def)

lemma repeats_from: "repeats sch j \<Longrightarrow> endless sch now \<Longrightarrow> endless sch (scheduleFrom now j)"
  by (auto simp: repeats_def scheduleFrom_def Let_def IsZero_def)

lemma repeats_reschedule:
  assumes "repeats sch j" "goes_on rnd j next"
  shows "\<exists>t. reschedule_time rnd now j next = Some (Some t) \<and> endless sch t \<and> \<not> Before t now"
proof -
  obtain t where t: "(if Before next now then advancePastNow (job_next rnd j) now next else Some (Some next)) = Some (Some t)"
    "goes_on rnd j t" "\<not> Before t now"
    using job_advancePastNow_finds [OF assms(2), of now] assms(2) that by (cases "Before next now") auto
  obtain u where "(if nextScheduledContains (nextScheduled j) t
      then advanceNextPastDuplicates (job_next rnd j) (nextScheduled j) t else Some (Some t)) = Some (Some u)"
    "goes_on rnd j u" "inst t \<le> inst u"
    using job_advanceNextPastDuplicates_finds [OF t(2), of "nextScheduled j"] t(2) that
    by (cases "nextScheduledContains (nextScheduled j) t") auto
  then show ?thesis using t assms(1) goes_on_endless [OF assms(1)] by (auto simp: reschedule_time_def repeats_def Before_def)
qed

text \<open>The scheduler holds the job, and its timer is pending with a firing time not before \<open>lo\<close>.\<close>

definition held :: "uuid \<Rightarrow> jobSchedule \<Rightarrow> location \<Rightarrow> scheduler \<Rightarrow> bool" where
  "held uid sch l s \<longleftrightarrow> started s \<and> \<not> is_shutdown s \<and> s_location s = l \<and>
     (\<exists>j. jobs s uid = Some j \<and> j_id j = uid \<and> repeats sch j)"

definition armed :: "uuid \<Rightarrow> int \<Rightarrow> scheduler \<Rightarrow> bool" where
  "armed uid lo s \<longleftrightarrow> (\<exists>j t f. jobs s uid = Some j \<and> j_timer j = Some t \<and>
     timers s t = Some \<lparr>timer_job = uid, fires_at = f\<rparr> \<and> lo \<le> f)"

lemma repeats_cong:
  "j_schedule j' = j_schedule j \<Longrightarrow> stopTime j' = stopTime j \<Longrightarrow> 
    startTime j' = startTime j \<Longrightarrow> set (nextScheduled j') \<subseteq> set (nextScheduled j) \<union> {t. endless sch t} \<Longrightarrow>
    j_lastRun j' = j_lastRun j \<or> endless sch (j_lastRun j') \<Longrightarrow> repeats sch j \<Longrightarrow> repeats sch j'"
  by (auto simp: repeats_def)

lemma rescheduling_arms:
  assumes "\<not> is_shutdown s" "jobs s uid = Some j" "j_id j = uid" "repeats sch j" "timely sch (s_location s) e"
  shows "\<exists>s'. selectExecJobsOutForRescheduling e uid s = Some s' \<and> started s' = started s \<and> \<not> is_shutdown s' \<and> s_location s' = s_location s \<and>
    (\<exists>j'. jobs s' uid = Some j' \<and> j_id j' = uid \<and> repeats sch j') \<and> armed uid (inst (e_clock e)) s'"
proof -
  note s = assms(1) and j = assms(2-4)
  let ?now = "s_now e s" and ?j = "sorted_job j"
  have now: "draws_ok (e_rnd e)" "endless sch ?now" "inst ?now = inst (e_clock e)" using assms(5) by (simp_all add: s_now_def timely_def)
  have sorted: "repeats sch ?j" "j_id ?j = uid" "j_timer ?j = j_timer j"
    using j(2,3) by (auto simp: sorted_job_def SortStableTimes_def intro: repeats_cong)
  have stop: "\<not> stopTimeReached j ?now" using j(3) by (simp add: stopTimeReached_def repeats_def)
  obtain "next" where "next": "job_next (e_rnd e) ?j (scheduleFrom ?now ?j) = Some next" "\<not> IsZero next" "goes_on (e_rnd e) ?j next"
    using job_goes_on [OF repeats_goes_on [OF sorted(1) now(1) repeats_from [OF sorted(1) now(2)]]] by blast
  obtain t where t: "reschedule_time (e_rnd e) ?now ?j next = Some (Some t)" "endless sch t" "\<not> Before t ?now"
    using repeats_reschedule [OF sorted(1) "next"(3), of ?now] by blast
  let ?s = "arm_next e uid ?j t (store uid ?j s)"
  have "selectExecJobsOutForRescheduling e uid s = Some ?s"
    using s j(1) stop "next" t(1) by (simp add: selectExecJobsOutForRescheduling_def Let_def s_now_def)
  moreover have "repeats sch (?j\<lparr>nextScheduled := insertNextScheduled (nextScheduled ?j) t, j_timer := tm\<rparr>)" for tm
    using t(2) by (intro repeats_cong [OF _ _ _ _ _ sorted(1)]) (auto simp: set_insertNextScheduled)
  then have "started ?s = started s" "\<not> is_shutdown ?s" "s_location ?s = s_location s" "\<exists>j'. jobs ?s uid = Some j' \<and> j_id j' = uid \<and> repeats sch j'"
    using s sorted(2) by (auto simp: arm_next_def AfterFunc_def is_shutdown_def store_def)
  moreover have "armed uid (inst (e_clock e)) ?s" using t(3) now(3) sorted(2)
    by (auto simp: armed_def arm_next_def AfterFunc_def store_def Before_def s_now_def Sub_def)
  ultimately show ?thesis by blast
qed

lemma reschedule_arms:
  assumes "held uid sch l s" "timely sch l e"
  shows "\<exists>s'. selectExecJobsOutForRescheduling e uid s = Some s' \<and> held uid sch l s' \<and> armed uid (inst (e_clock e)) s'"
  using assms rescheduling_arms [of s uid _ sch e] unfolding held_def by blast

text \<open>The other messages of a run leave timer and schedule of the job alone.\<close>

lemma held_store:
  assumes "held uid sch l s" "repeats sch j" "j_id j = uid" "j_timer j = j_timer (the (jobs s uid))"
  shows "held uid sch l (store uid j s) \<and> (armed uid lo s \<longrightarrow> armed uid lo (store uid j s))"
  using assms by (auto simp: held_def armed_def is_shutdown_def store_def)

lemma message_keeps:
  assumes "held uid sch l s" "timely sch l e" "concerns uid ev" "ev \<noteq> OutForRescheduling uid"
  shows "\<exists>s'. receive e ev s = Some s' \<and> held uid sch l s' \<and> (armed uid lo s \<longrightarrow> armed uid lo s')"
proof -
  obtain j where j: "jobs s uid = Some j" "j_id j = uid" "repeats sch j" using assms(1) by (auto simp: held_def)
  have now: "endless sch (s_now e s)" using assms(1,2) by (simp add: s_now_def timely_def held_def)
  have pruned: "repeats sch (pruneStaleScheduled (s_now e s) j)"
    using j(3) by (auto simp: pruneStaleScheduled_def keptScheduled_filter intro: repeats_cong)
  then have run: "repeats sch (pruneStaleScheduled (s_now e s) j\<lparr>j_limitRunsTo := l, j_lastRun := s_now e s\<rparr>)"
      "repeats sch (pruneStaleScheduled (s_now e s) j\<lparr>j_limitRunsTo := l\<rparr>)"
      "repeats sch (pruneStaleScheduled (s_now e s) j\<lparr>j_lastRun := s_now e s\<rparr>)" for l
    using now by (auto intro: repeats_cong)
  have timed: "repeats sch (j\<lparr>lastRunStartedAt := a, lastRunCompletedAt := b\<rparr>)" for a b using j(3) by (auto intro: repeats_cong)
  have timing: "repeats sch (j\<lparr>lastRunStartedAt := a\<rparr>)" "repeats sch (j\<lparr>lastRunCompletedAt := a\<rparr>)" for a
    using j(3) by (auto intro: repeats_cong)
  note store = held_store [OF assms(1), of _ lo, unfolded j(1) option.sel]
  have sent: "held uid sch l (send m s0) = held uid sch l s0" "armed uid lo (send m s0) = armed uid lo s0" for m s0
    by (simp_all add: held_def armed_def is_shutdown_def)
  consider "ev = OutForNextRunUpdate uid" | skipped where "ev = OutCompleted uid skipped" | a b where "ev = OutTiming uid a b"
    using assms(3,4) by (cases ev) (auto simp: concerns_def)
  then show ?thesis
  proof cases
    case 1
    then show ?thesis using store [OF pruned] j by (simp add: updateNextScheduled_def)
  next
    case 2
    then show ?thesis using store [OF pruned] store [OF run(1)] store [OF run(2)] store [OF run(3)] j
      by (simp add: selectExecJobsOutCompleted_def Let_def split: option.split)
  next
    case 3
    then show ?thesis using store [OF timed] store [OF timing(1)] store [OF timing(2)] store [OF j(3)] j sent
      by (simp add: selectJobTimingUpdate_def Let_def split: option.split)
  qed
qed

lemma messages_arm:
  assumes "held uid sch l s" "\<forall>(e, ev)\<in>set evs. concerns uid ev \<and> timely sch l e \<and> lo \<le> inst (e_clock e)"
    and "armed uid lo s \<or> OutForRescheduling uid \<in> snd ` set evs"
  shows "\<exists>s'. receive_all evs s = Some s' \<and> held uid sch l s' \<and> armed uid lo s'"
  using assms
proof (induction evs s rule: receive_all.induct)
  case (2 e ev evs s)
  have here: "concerns uid ev" "timely sch l e" "lo \<le> inst (e_clock e)" using 2(3) by auto
  have "\<exists>s1. receive e ev s = Some s1 \<and> held uid sch l s1 \<and> (armed uid lo s \<or> ev = OutForRescheduling uid \<longrightarrow> armed uid lo s1)"
  proof (cases "ev = OutForRescheduling uid")
    case True
    then show ?thesis using reschedule_arms [OF 2(2) here(2)] here(3) by (force simp: armed_def)
  qed (use message_keeps [OF 2(2) here(2,1)] in blast)
  then obtain s1 where s1: "receive e ev s = Some s1" "held uid sch l s1"
    "armed uid lo s \<or> ev = OutForRescheduling uid \<longrightarrow> armed uid lo s1" by blast
  then show ?case using "2.IH" [OF s1(1,2)] 2(3,4) by auto
qed simp

text \<open>The clock of the examples.\<close>

lemma timely_clock_at: "0 < i \<Longrightarrow> 0 < d \<Longrightarrow> timely (Duration \<lparr>duration = d\<rparr>) l (clock_at i uids)"
  by (simp add: timely_def clock_at_def draws_ok_def in_history_def)

lemma held_one_timer: "held 1 (Duration \<lparr>duration = 10\<rparr>) UTC one_timer"
  by (simp add: held_def repeats_def is_shutdown_def shutdownCtx_def armed_job_def started_at_def every_def zero_job_def
    in_history_def insertNextScheduled_Nil)

section \<open>Jobs keep running\<close>

lemma asking_keeps_running:
  assumes "held uid sch l s" "asks_for_next uid (map snd evs)"
    and "\<forall>e\<in>fst ` set evs. timely sch l e \<and> lo \<le> inst (e_clock e)"
  shows "\<exists>s' n f. receive_all evs s = Some s' \<and> held uid sch l s' \<and> timers s' n = Some \<lparr>timer_job = uid, fires_at = f\<rparr> \<and>
    lo \<le> f \<and> (\<forall>e. JobsIn uid True \<in> set (outbox (timer_fires e n \<lparr>timer_job = uid, fires_at = f\<rparr> s')))"
proof -
  have asks: "OutForRescheduling uid \<in> snd ` set evs" "\<forall>ev\<in>snd ` set evs. concerns uid ev"
    using assms(2) by (auto simp: asks_for_next_def list_all_iff)
  then obtain s' where s': "receive_all evs s = Some s'" "held uid sch l s'" "armed uid lo s'"
    using messages_arm [OF assms(1), of evs lo] assms(3) by fastforce
  then obtain n f where timer: "timers s' n = Some \<lparr>timer_job = uid, fires_at = f\<rparr>" "lo \<le> f" by (auto simp: armed_def)
  have "\<not> is_shutdown (timer_Stop (Some n) s')" using s'(2) by (simp add: held_def is_shutdown_def)
  then have "JobsIn uid True \<in> set (outbox (timer_fires e n \<lparr>timer_job = uid, fires_at = f\<rparr> s'))" for e
    by (simp add: timer_fires_def dispatchJobRun_def send_def)
  then show ?thesis using s' timer by blast
qed

text \<open>
  However the run of a job with an endless schedule ends that its timer began - the task returns or fails or panics under a
  listener for panics, a listener, the elector or a locker refuses it, or a lock cannot be had - the scheduler
  holds a pending timer for the job afterwards, and when that timer fires the job goes to the executor again.
\<close>

theorem repeating_jobs_keep_running:
  assumes "held uid sch l s" "smooth w" "may_start w j" "j_id j = uid" "in_id jIn = uid" "shouldSendOut jIn"
    and "snd (runJob w x (Some j) jIn) = Some ()"
    and "map snd evs = filter to_scheduler (fst (runJob w x (Some j) jIn))"
    and "\<forall>e\<in>fst ` set evs. timely sch l e \<and> lo \<le> inst (e_clock e)"
  shows "\<exists>s' n f. receive_all evs s = Some s' \<and> held uid sch l s' \<and> timers s' n = Some \<lparr>timer_job = uid, fires_at = f\<rparr> \<and>
    lo \<le> f \<and> (\<forall>e. JobsIn uid True \<in> set (outbox (timer_fires e n \<lparr>timer_job = uid, fires_at = f\<rparr> s')))"
  using asking_keeps_running [OF assms(1) _ assms(9)] run_asks_for_next [OF assms(2,3,6)] assms(4,5,7,8) by simp

theorem repeating_jobs_keep_running_witness:
  "\<exists>s' n f. receive_all (map (Pair (clock_at 16 [])) (run_messages (calm None (Some [])) (timed 1) \<lparr>in_id = 1, shouldSendOut = True\<rparr>))
      one_timer = Some s' \<and> timers s' n = Some \<lparr>timer_job = 1, fires_at = f\<rparr> \<and> 16 \<le> f"
proof -
  let ?w = "calm None (Some [])" and ?jIn = "\<lparr>in_id = 1, shouldSendOut = True\<rparr>"
  let ?run = "runJob ?w bare (Some (timed 1)) ?jIn"
  let ?evs = "map (Pair (clock_at 16 [])) (run_messages ?w (timed 1) ?jIn)"
  note held_one_timer
  moreover have "filter to_scheduler (fst ?run) = run_messages ?w (timed 1) ?jIn" by (rule reported_messages) simp_all
  moreover have "snd ?run = Some ()"
    using messages_body [of ?w "timed 1" "first_error []" bare ?jIn] by (simp add: runJob_cases locked_run_def deferring_def)
  ultimately show ?thesis
    using repeating_jobs_keep_running [of 1 "Duration \<lparr>duration = 10\<rparr>" UTC one_timer ?w "timed 1" ?jIn bare ?evs 16]
    by (simp add: o_def timely_clock_at) blast
qed

section \<open>The runs to come\<close>



section \<open>The last run of a limited job\<close>

lemma resched_keeps_limit:
  assumes "selectExecJobsOutForRescheduling e uid s = Some s'" "jobs s uid = Some j" "jobs s' uid = Some j'"
  shows "j_limitRunsTo j' = j_limitRunsTo j"
  using assms
  by (auto simp: selectExecJobsOutForRescheduling_def Let_def selectRemoveJob_frame arm_next_def AfterFunc_def sorted_job_def
    split: if_splits option.splits)

text \<open>
  The limit of \<open>WithLimitedRuns\<close> does not bound the runs of a task that takes longer than its interval. While the
  last run that the limit allows is under way - it has sent all its messages but the one of its completion - the
  job is counted up to its limit, but its timer is armed for one run more, which is handed over when it fires.
\<close>

theorem limited_job_is_armed_again:
  assumes "held uid sch loc s" "jobs s uid = Some j" "j_limitRunsTo j = Some l" "runCount l + 1 = run_limit l"
    and "timely sch loc e1" "timely sch loc e2" "timely sch loc e3"
  shows "\<exists>s' j' l' n f.
    receive_all [(e1, OutForRescheduling uid), (e2, OutCompleted uid False), (e3, OutTiming uid start zero_time)] s = Some s' \<and>
    jobs s' uid = Some j' \<and> j_limitRunsTo j' = Some l' \<and> runCount l' = run_limit l' \<and>
    timers s' n = Some \<lparr>timer_job = uid, fires_at = f\<rparr> \<and>
    (\<forall>e. JobsIn uid True \<in> set (outbox (timer_fires e n \<lparr>timer_job = uid, fires_at = f\<rparr> s')))"
proof -
  obtain s1 where s1: "selectExecJobsOutForRescheduling e1 uid s = Some s1" "held uid sch loc s1" "armed uid (inst (e_clock e1)) s1"
    using reschedule_arms [OF assms(1,5)] by blast
  obtain j1 where j1: "jobs s1 uid = Some j1" using s1(2) by (auto simp: held_def)
  have l1: "j_limitRunsTo j1 = Some l" using resched_keeps_limit [OF s1(1) assms(2) j1] assms(3) by simp
  obtain s2 where s2: "receive e2 (OutCompleted uid False) s1 = Some s2" "held uid sch loc s2" "armed uid (inst (e_clock e1)) s2"
    using message_keeps [OF s1(2) assms(6), of "OutCompleted uid False"] s1(3) by (auto simp: concerns_def)
  obtain s3 where s3: "receive e3 (OutTiming uid start zero_time) s2 = Some s3" "held uid sch loc s3" "armed uid (inst (e_clock e1)) s3"
    using message_keeps [OF s2(2) assms(7), of "OutTiming uid start zero_time"] s2(3) by (auto simp: concerns_def)
  obtain j3 l3 where j3: "jobs s3 uid = Some j3" "j_limitRunsTo j3 = Some l3" "runCount l3 = run_limit l3"
    using s2(1) s3(1) j1 l1 assms(4)
    by (auto simp: selectExecJobsOutCompleted_def selectJobTimingUpdate_def Let_def split: if_splits)
  have "\<not> is_shutdown (timer_Stop (Some n) s3)" for n using s3(2) by (simp add: held_def is_shutdown_def)
  then have "JobsIn uid True \<in> set (outbox (timer_fires e n \<lparr>timer_job = uid, fires_at = f\<rparr> s3))" for e n f
    by (simp add: timer_fires_def dispatchJobRun_def send_def)
  then show ?thesis using s1(1) s2(1) s3(1,3) j3 by (auto simp: armed_def)
qed

theorem limited_job_is_armed_again_witness:
  "\<exists>s' j' n f. receive_all [(clock_at 16 [], OutForRescheduling 1), (clock_at 16 [], OutCompleted 1 False),
      (clock_at 16 [], OutTiming 1 \<lparr>inst = 16, tloc = UTC\<rparr> zero_time)]
      (store 1 (armed_job\<lparr>j_limitRunsTo := Some \<lparr>run_limit = 1, runCount = 0\<rparr>\<rparr>) one_timer) = Some s' \<and>
    jobs s' 1 = Some j' \<and> j_limitRunsTo j' \<noteq> None \<and> timers s' n = Some \<lparr>timer_job = 1, fires_at = f\<rparr>"
proof -
  let ?s = "store 1 (armed_job\<lparr>j_limitRunsTo := Some \<lparr>run_limit = 1, runCount = 0\<rparr>\<rparr>) one_timer"
  have "held 1 (Duration \<lparr>duration = 10\<rparr>) UTC ?s"
    by (simp add: held_def repeats_def is_shutdown_def shutdownCtx_def armed_job_def started_at_def every_def zero_job_def
      in_history_def insertNextScheduled_Nil)
  from limited_job_is_armed_again [OF this, of _ "\<lparr>run_limit = 1, runCount = 0\<rparr>" "clock_at 16 []" "clock_at 16 []" "clock_at 16 []"]
  show ?thesis by (fastforce simp: timely_clock_at)
qed

section \<open>A run that outlives a stop\<close>

text \<open>
  A run that a stop did not wait for can still ask for the next run of its job. The select loop arms a timer
  then, although the scheduler is stopped and each pending timer was stopped before.
\<close>

theorem late_request_arms_stopped_scheduler:
  assumes "\<not> started s" "\<not> is_shutdown s" "jobs s uid = Some j" "j_id j = uid" "repeats sch j" "timely sch (s_location s) e"
  shows "\<exists>s' n f. selectExecJobsOutForRescheduling e uid s = Some s' \<and> \<not> started s' \<and>
    timers s' n = Some \<lparr>timer_job = uid, fires_at = f\<rparr> \<and> inst (e_clock e) \<le> f"
  using rescheduling_arms [OF assms(2-6)] assms(1) by (auto simp: armed_def)

theorem late_request_arms_stopped_scheduler_witness:
  "\<exists>s' n f. selectExecJobsOutForRescheduling (clock_at 17 []) 1 (store 1 armed_job fresh) = Some s' \<and> \<not> started s' \<and>
    timers (store 1 armed_job fresh) = Map.empty \<and> timers s' n = Some \<lparr>timer_job = 1, fires_at = f\<rparr>"
proof -
  have "repeats (Duration \<lparr>duration = 10\<rparr>) armed_job"
    by (simp add: repeats_def armed_job_def started_at_def every_def zero_job_def in_history_def insertNextScheduled_Nil)
  then show ?thesis
    using late_request_arms_stopped_scheduler [of "store 1 armed_job fresh" 1 armed_job "Duration \<lparr>duration = 10\<rparr>" "clock_at 17 []"]
    by (auto simp: is_shutdown_def shutdownCtx_def fresh_def NewScheduler_state_def timely_clock_at)
qed

end
