(* ===== verification/DispatchTheorems.thy ===== *)
theory DispatchTheorems
  imports Dispatch Liveness
begin

text \<open>
  The whole way of a job through the executor, in every mode: dispatch and run together ask the scheduler for
  the next run exactly once, so a job keeps running whichever goroutines it passes through.
\<close>

section \<open>One request for the next run\<close>

lemma count_filter: "P ev \<Longrightarrow> count_list (filter P evs) ev = count_list evs ev"
  by (induction evs) auto

text \<open>The requests that a part of the way sends for the job \<open>u\<close>.\<close>

definition asked :: "uuid \<Rightarrow> 'a run \<Rightarrow> nat" where
  "asked u m = count_list (fst m) (OutForRescheduling u)"

lemma asked_simps [simp]:
  "asked u (run_return y) = 0" "asked u (es, r) = count_list es (OutForRescheduling u)"
  "asked u (emit_if b es) = (if b then count_list es (OutForRescheduling u) else 0)"
  by (simp_all add: asked_def emit_if_def run_return_def)

lemma asked_bind: "asked u (run_bind m f) = asked u m + (case snd m of None \<Rightarrow> 0 | Some y \<Rightarrow> asked u (f y))"
  by (cases m) (auto simp: asked_def run_bind_def split: option.split prod.split)

lemma asked_resched:
  "smooth w \<Longrightarrow> asked u (sendOutForRescheduling w jIn) = (if shouldSendOut jIn \<and> u = in_id jIn then 1 else 0)"
  by (simp add: asked_def sendOutForRescheduling_def smooth_def)

lemma run_asks_once:
  assumes "smooth w" "may_start w j" "snd (runJob w x (Some j) jIn) \<noteq> None"
  shows "asked u (runJob w x (Some j) jIn) = (if shouldSendOut jIn \<and> u = in_id jIn then 1 else 0)"
proof -
  have "asked u (runJob w x (Some j) jIn) = count_list (filter to_scheduler (fst (runJob w x (Some j) jIn))) (OutForRescheduling u)"
    by (simp add: asked_def count_filter)
  with assms show ?thesis
    by (cases rule: run_outcomes) (simp_all add: requests_def run_messages_def Let_def)
qed

definition whole_run ::
  "world \<Rightarrow> world \<Rightarrow> executor \<Rightarrow> LimitMode option \<Rightarrow> bool \<Rightarrow> bool \<Rightarrow> internalJob \<Rightarrow> jobIn \<Rightarrow> unit run" where
  "whole_run w w' x limit place busy j jIn =
     run_bind (dispatch_job w x limit False place (Some (Some j)) jIn) (carry_out w' x busy (Some (Some j)))"

lemma runner_request_simps [simp]: "in_id (runner_request j jIn) = in_id jIn"
  "shouldSendOut (runner_request j jIn) \<longleftrightarrow> shouldSendOut jIn \<and> intervalFromCompletion j"
  by (simp_all add: runner_request_def)

text \<open>
  A ledger of requests: what the dispatch has not asked for is left to the run it hands the job to. The
  request of \<open>jIn\<close> for the job \<open>u\<close> counts one.
\<close>

definition owed :: "uuid \<Rightarrow> jobIn \<Rightarrow> nat" where
  "owed u jIn = (if shouldSendOut jIn \<and> u = in_id jIn then 1 else 0)"

fun pending :: "uuid \<Rightarrow> internalJob \<Rightarrow> handover \<Rightarrow> nat" where
  "pending u j TurnedAway = 0"
| "pending u j (LimitQueue jIn) = owed u jIn"
| "pending u j (SingletonQueue jIn) = owed u (runner_request j jIn)"
| "pending u j (StandardRun job jIn) = owed u jIn"

lemma limit_dispatch_asks:
  "smooth w \<Longrightarrow> \<exists>h. snd (limit_dispatch w x mode place answer jIn) = Some h \<and>
     asked u (limit_dispatch w x mode place answer jIn) + pending u j h = owed u jIn \<and> h \<in> {TurnedAway} \<union> LimitQueue ` {r. in_id r = in_id jIn}"
  by (cases answer) (auto simp: limit_dispatch_def asked_bind messages_bind(2) asked_resched smooth_steps(6) owed_def)

lemma singleton_dispatch_asks:
  "smooth w \<Longrightarrow> \<exists>h. snd (singleton_dispatch w x j place jIn) = Some h \<and>
     asked u (singleton_dispatch w x j place jIn) + pending u j h = owed u jIn \<and> h \<in> {TurnedAway, SingletonQueue jIn}"
  by (auto simp: singleton_dispatch_def asked_bind messages_bind(2) asked_resched smooth_steps(6) owed_def incrementJobCounter_def)

lemma dispatch_asks:
  assumes "smooth w"
  obtains h where "snd (dispatch_job w x limit False place (Some (Some j)) jIn) = Some h"
    "asked u (dispatch_job w x limit False place (Some (Some j)) jIn) + pending u j h = owed u jIn"
    "h \<in> {TurnedAway, StandardRun (Some j) jIn} \<union> {SingletonQueue jIn} \<union> LimitQueue ` {r. in_id r = in_id jIn}"
proof (cases limit)
  case None
  then show thesis using that singleton_dispatch_asks [OF assms, of x j place jIn u]
    by (cases "singletonMode j") (auto simp: dispatch_job_def standard_dispatch_def)
next
  case (Some mode)
  then show thesis using that limit_dispatch_asks [OF assms, of x mode place "Some (Some j)" jIn u j]
    by (auto simp: dispatch_job_def)
qed

lemma carry_out_asks:
  assumes "smooth w" "may_start w j" "snd (carry_out w x busy (Some (Some j)) h) \<noteq> None"
    and "h \<in> {TurnedAway, StandardRun (Some j) jIn} \<union> {SingletonQueue jIn} \<union> LimitQueue ` {r. in_id r = in_id jIn}"
    and "in_id jIn = j_id j"
  shows "asked u (carry_out w x busy (Some (Some j)) h) = pending u j h"
proof -
  note run = run_asks_once [OF assms(1,2)]
  have send: "asked u (send_or_done w ev) = count_list [ev] (OutForRescheduling u)" for ev u
    using assms(1) by (simp add: send_or_done_def smooth_def)
  from assms(3-5) show ?thesis
    by (cases h) (auto simp: carry_out_def limit_run_def singleton_run_def run owed_def send split: if_splits)
qed

lemma whole_run_asks:
  assumes "smooth w" "smooth w'" "may_start w' j" "in_id jIn = j_id j"
    and "snd (whole_run w w' x limit place busy j jIn) \<noteq> None"
  shows "count_list (fst (whole_run w w' x limit place busy j jIn)) (OutForRescheduling (j_id j)) =
    (if shouldSendOut jIn then 1 else 0)"
proof -
  let ?m = "dispatch_job w x limit False place (Some (Some j)) jIn"
  obtain h where h: "snd ?m = Some h" "asked (j_id j) ?m + pending (j_id j) j h = owed (j_id j) jIn"
    "h \<in> {TurnedAway, StandardRun (Some j) jIn} \<union> {SingletonQueue jIn} \<union> LimitQueue ` {r. in_id r = in_id jIn}"
    by (rule dispatch_asks [OF assms(1)])
  have "asked (j_id j) (carry_out w' x busy (Some (Some j)) h) = pending (j_id j) j h"
    using carry_out_asks [OF assms(2,3) _ h(3) assms(4)] assms(5) h(1) by (simp add: whole_run_def messages_bind(2))
  with h(1,2) have "asked (j_id j) (whole_run w w' x limit place busy j jIn) = owed (j_id j) jIn"
    by (simp add: whole_run_def asked_bind)
  then show ?thesis using assms(4) by (simp add: asked_def owed_def)
qed



section \<open>Jobs keep running\<close>

definition concerned :: "uuid \<Rightarrow> 'a run \<Rightarrow> bool" where
  "concerned u m \<longleftrightarrow> list_all (concerns u) (filter to_scheduler (fst m))"

lemma concerned_bind: "concerned u (run_bind m f) \<longleftrightarrow> concerned u m \<and> (\<forall>y. snd m = Some y \<longrightarrow> concerned u (f y))"
  by (cases m) (auto simp: concerned_def run_bind_def split: option.split prod.split)

lemma concerned_simps [simp]:
  "concerned u (run_return y)" "concerned u (emit_if b es) \<longleftrightarrow> b \<longrightarrow> list_all (concerns u) (filter to_scheduler es)"
  "\<not> to_scheduler (ConcurrencyLimitReached kind v)"
  by (simp_all add: concerned_def emit_if_def to_scheduler_def)

lemma concerned_resched: "in_id jIn = u \<Longrightarrow> concerned u (sendOutForRescheduling w jIn)"
  by (simp add: concerned_def sendOutForRescheduling_def concerns_def)

lemma concerned_run:
  assumes "smooth w" "may_start w j" "snd (runJob w x (Some j) jIn) \<noteq> None" "in_id jIn = j_id j"
  shows "concerned (j_id j) (runJob w x (Some j) jIn)"
  using assms(1-3)
  by (cases rule: run_outcomes) (simp_all add: concerned_def requests_def run_messages_def Let_def concerns_def assms(4))

lemma concerned_dispatch:
  "in_id jIn = j_id j \<Longrightarrow> concerned (j_id j) (dispatch_job w x limit False place (Some (Some j)) jIn)"
  by (auto simp: dispatch_job_def limit_dispatch_def singleton_dispatch_def standard_dispatch_def concerned_bind concerned_resched
    incrementJobCounter_def split: option.split)

lemma concerned_carry_out:
  assumes "smooth w" "may_start w j" "snd (carry_out w x busy (Some (Some j)) h) \<noteq> None" "in_id jIn = j_id j"
    and "h \<in> {TurnedAway, StandardRun (Some j) jIn} \<union> {SingletonQueue jIn} \<union> LimitQueue ` {r. in_id r = in_id jIn}"
  shows "concerned (j_id j) (carry_out w x busy (Some (Some j)) h)"
  using assms(3-5) concerned_run [OF assms(1,2)]
  by (cases h) (auto simp: carry_out_def limit_run_def singleton_run_def send_or_done_def concerns_def split: if_splits)

text \<open>
  A job whose schedule does not run out keeps running in every mode of the executor: whichever way its tick goes, and in whichever order
  the scheduler receives the messages of dispatch and run, the job ends with a pending timer that sends it to the
  executor again.
\<close>

theorem dispatched_jobs_keep_running:
  assumes "held uid sch l s" "smooth w" "smooth w'" "may_start w' j" "j_id j = uid" "in_id jIn = uid" "shouldSendOut jIn"
    and "snd (whole_run w w' x limit place busy j jIn) \<noteq> None"
    and "mset (map snd evs) = mset (filter to_scheduler (fst (whole_run w w' x limit place busy j jIn)))"
    and "\<forall>e\<in>fst ` set evs. timely sch l e \<and> lo \<le> inst (e_clock e)"
  shows "\<exists>s' n f. receive_all evs s = Some s' \<and> held uid sch l s' \<and> timers s' n = Some \<lparr>timer_job = uid, fires_at = f\<rparr> \<and>
    lo \<le> f \<and> (\<forall>e. JobsIn uid True \<in> set (outbox (timer_fires e n \<lparr>timer_job = uid, fires_at = f\<rparr> s')))"
proof -
  let ?way = "whole_run w w' x limit place busy j jIn"
  have in_id: "in_id jIn = j_id j" using assms(5,6) by simp
  obtain h where h: "snd (dispatch_job w x limit False place (Some (Some j)) jIn) = Some h"
    "h \<in> {TurnedAway, StandardRun (Some j) jIn} \<union> {SingletonQueue jIn} \<union> LimitQueue ` {r. in_id r = in_id jIn}"
    by (rule dispatch_asks [OF assms(2)])
  have "concerned uid ?way"
    using concerned_dispatch [OF in_id] concerned_carry_out [OF assms(3,4) _ in_id h(2)] h(1) assms(5,8)
    by (simp add: whole_run_def concerned_bind messages_bind(2))
  moreover have "count_list (fst ?way) (OutForRescheduling uid) = 1"
    using whole_run_asks [OF assms(2-4) in_id assms(8)] assms(5,7) by simp
  then have "OutForRescheduling uid \<in> set (filter to_scheduler (fst ?way))"
    by (metis count_notin mem_Collect_eq set_filter to_scheduler_simps(1) zero_neq_one)
  ultimately have "asks_for_next uid (map snd evs)"
    using mset_eq_setD [OF assms(9)] by (simp add: asks_for_next_def concerned_def list_all_iff)
  then show ?thesis by (rule asking_keeps_running [OF assms(1) _ assms(10)])
qed

section \<open>Intervals from the completion\<close>

lemma waiting_limit_way:
  assumes "smooth w" "shouldSendOut jIn"
  shows "whole_run w w' x (Some LimitModeWait) place busy j jIn =
    (OutForRescheduling (in_id jIn) # fst (limit_run w' x busy (Some (Some j)) (jIn\<lparr>shouldSendOut := False\<rparr>)),
     snd (limit_run w' x busy (Some (Some j)) (jIn\<lparr>shouldSendOut := False\<rparr>)))"
  using assms by (simp add: whole_run_def dispatch_job_def limit_dispatch_def sendOutForRescheduling_def smooth_def
      carry_out_def run_bind_def run_return_def split: prod.split)

text \<open>
  In waiting limit mode \<open>WithIntervalFromCompletion\<close> has no effect: whether or not the job has it, the request for
  its next run is the first thing that the executor sends, before the task is called, and it is not repeated after it.
\<close>

theorem waiting_limit_ignores_completion:
  assumes "smooth w" "smooth w'" "may_start w' j" "in_id jIn = j_id j" "shouldSendOut jIn"
    and "snd (whole_run w w' x (Some LimitModeWait) place busy j jIn) \<noteq> None"
  shows "\<exists>rest. fst (whole_run w w' x (Some LimitModeWait) place busy j jIn) = OutForRescheduling (j_id j) # rest \<and>
    OutForRescheduling (j_id j) \<notin> set rest"
proof -
  let ?r = "jIn\<lparr>shouldSendOut := False\<rparr>"
  have "fst (whole_run w w' x (Some LimitModeWait) place busy j jIn) =
      OutForRescheduling (j_id j) # fst (limit_run w' x busy (Some (Some j)) ?r)"
    by (simp add: waiting_limit_way [OF assms(1,5)] assms(4))
  moreover from this have "count_list (fst (limit_run w' x busy (Some (Some j)) ?r)) (OutForRescheduling (j_id j)) = 0"
    using whole_run_asks [OF assms(1-4,6)] assms(5) by simp
  ultimately show ?thesis by (simp add: count_list_0_iff)
qed

theorem dispatched_jobs_keep_running_witness:
  "\<exists>s' n f. receive_all (map (Pair (clock_at 16 [])) (OutForRescheduling 1 #
      run_messages (calm None (Some [])) (timed 1) \<lparr>in_id = 1, shouldSendOut = False\<rparr>))
      one_timer = Some s' \<and> timers s' n = Some \<lparr>timer_job = 1, fires_at = f\<rparr> \<and> 16 \<le> f"
proof -
  let ?w = "calm None (Some [])" and ?jIn = "\<lparr>in_id = 1, shouldSendOut = True\<rparr>" and ?r = "\<lparr>in_id = 1, shouldSendOut = False\<rparr>"
  let ?way = "whole_run ?w ?w bare (Some LimitModeWait) True False (timed 1) ?jIn"
  let ?evs = "map (Pair (clock_at 16 [])) (OutForRescheduling 1 # run_messages ?w (timed 1) ?r)"
  note held_one_timer
  moreover have run: "filter to_scheduler (fst (runJob ?w bare (Some (timed 1)) ?r)) = run_messages ?w (timed 1) ?r"
    by (rule reported_messages) simp_all
  moreover have "snd (runJob ?w bare (Some (timed 1)) ?r) = Some ()"
    using messages_body [of ?w "timed 1" "first_error []" bare ?r] by (simp add: runJob_cases locked_run_def deferring_def)
  ultimately show ?thesis
    using dispatched_jobs_keep_running [of 1 "Duration \<lparr>duration = 10\<rparr>" UTC one_timer ?w ?w "timed 1" ?jIn bare "Some LimitModeWait" True False ?evs 16]
    by (simp add: o_def timely_clock_at waiting_limit_way limit_run_def runs_singleton_def) blast
qed

theorem waiting_limit_ignores_completion_witness:
  "\<exists>rest. fst (whole_run (calm None (Some [])) (calm None (Some [])) bare (Some LimitModeWait) True False
      (timed 7\<lparr>intervalFromCompletion := True\<rparr>) \<lparr>in_id = 7, shouldSendOut = True\<rparr>) = OutForRescheduling 7 # rest \<and>
    OutForRescheduling 7 \<notin> set rest"
proof -
  let ?w = "calm None (Some [])" and ?r = "\<lparr>in_id = 7, shouldSendOut = False\<rparr>"
  let ?j = "timed 7\<lparr>intervalFromCompletion := True\<rparr>"
  have "snd (call_task ?w ?j) = Some (first_error [])" "lock_of bare ?j = Some 5" "may_start ?w ?j"
    using timed_runs(7) [of None "[]" 7] timed_runs(1) [of None "Some []" 7] timed_runs(2) [of 7]
    by (simp_all add: call_task_def may_start_def stopTimeReached_def lock_of_def)
  moreover from this have "snd (runJob ?w bare (Some ?j) ?r) = Some ()"
    using messages_body [of ?w ?j "first_error []" bare ?r] by (simp add: runJob_cases locked_run_def deferring_def)
  ultimately show ?thesis
    using waiting_limit_ignores_completion [of ?w ?w ?j "\<lparr>in_id = 7, shouldSendOut = True\<rparr>" bare True False]
    by (simp add: waiting_limit_way limit_run_def runs_singleton_def)
qed

end
