(* ===== verification/System.thy ===== *)
theory System
  imports Timetable DispatchTheorems
begin

text \<open>
  Scheduler and executor together: the select loop serves its callers and its timers, a run that it hands over is
  a tick until the executor takes it, and the messages of a run are under way until the loop receives them, in any
  order. What keeps a job going is a token that is always in exactly one place.
\<close>

section \<open>Steps\<close>

text \<open>The steps of the select loop that do not come from the executor.\<close>

inductive request_step :: "scheduler \<Rightarrow> scheduler \<Rightarrow> bool" where
  new: "new_job s j \<Longrightarrow> selectNewJob e j s = Some s' \<Longrightarrow> request_step s s'"
| remove: "request_step s (selectRemoveJob uid s)"
| remove_tags: "iterates e s \<Longrightarrow> request_step s (selectRemoveJobsByTags e tags s)"
| run_now: "selectRunJobRequest e uid s = Some (s', reply) \<Longrightarrow> request_step s s'"
| start: "\<not> started s \<Longrightarrow> iterates e s \<Longrightarrow> selectStart e s = Some s' \<Longrightarrow> request_step s s'"
| stop: "iterates e s \<Longrightarrow> stopScheduler e s = Some s' \<Longrightarrow> request_step s s'"
| fire: "timers s n = Some t \<Longrightarrow> fires_at t \<le> inst (e_clock e) \<Longrightarrow> request_step s (timer_fires e n t s)"
| cancel_ctx: "request_step s (cancel c s)"
| read_error: "request_step s (s\<lparr>stopErrCh := None\<rparr>)"
| with_cancel: "request_step s (snd (WithCancel c s))"
| registered: "request_step s (notifyJobRegistered uid s)"
| start_notice: "request_step s (notifySchedulerStarted s)"
| shutdown_notice: "request_step s (notifySchedulerShutdown s)"

lemma request_is_step: "request_step s s' \<Longrightarrow> select_step s s'"
  by (induction rule: request_step.induct) (rule select_step.intros; assumption)+

record system =
  sys_sched :: scheduler
  ticks :: "(uuid \<times> bool) multiset"
  transit :: "event multiset"

definition new_runs :: "scheduler \<Rightarrow> scheduler \<Rightarrow> (uuid \<times> bool) multiset" where
  "new_runs s s' = mset (drop (length (handed_over (outbox s))) (handed_over (outbox s')))"

definition moves_to :: "system \<Rightarrow> scheduler \<Rightarrow> system" where
  "moves_to S s' = S\<lparr>sys_sched := s', ticks := ticks S + new_runs (sys_sched S) s'\<rparr>"

text \<open>
  A run is one step here, with the job as the scheduler knows it; its messages arrive later. It finds its context done when
  the scheduler is stopped or the job's own context is cancelled. \<open>reads\<close> says what clock and draws the select loop may
  see when it receives a message.
\<close>

inductive system_step :: "executor \<Rightarrow> LimitMode option \<Rightarrow> (env \<Rightarrow> bool) \<Rightarrow> system \<Rightarrow> system \<Rightarrow> bool" for x limit reads where
  request: "request_step (sys_sched S) s' \<Longrightarrow> system_step x limit reads S (moves_to S s')"
| run: "ticks S = add_mset (uid, b) T \<Longrightarrow> jobs (sys_sched S) uid = Some j \<Longrightarrow> smooth w \<Longrightarrow> smooth w' \<Longrightarrow>
    (w_cancelled w' \<longleftrightarrow> \<not> started (sys_sched S) \<or> ctx_Done (cancelled (sys_sched S)) (j_ctx j)) \<Longrightarrow>
    whole_run w w' x limit place busy j \<lparr>in_id = uid, shouldSendOut = b\<rparr> = (evs, Some ()) \<Longrightarrow>
    system_step x limit reads S (S\<lparr>ticks := T, transit := transit S + mset (filter to_scheduler evs)\<rparr>)"
| unknown: "ticks S = add_mset (uid, b) T \<Longrightarrow> jobs (sys_sched S) uid = None \<Longrightarrow> system_step x limit reads S (S\<lparr>ticks := T\<rparr>)"
| deliver: "transit S = add_mset ev M \<Longrightarrow> started (sys_sched S) \<Longrightarrow> reads e \<Longrightarrow>
    receive e ev (sys_sched S) = Some s' \<Longrightarrow> system_step x limit reads S ((moves_to S s')\<lparr>transit := M\<rparr>)"
| give_up: "transit S = add_mset ev M \<Longrightarrow> \<not> started (sys_sched S) \<Longrightarrow> system_step x limit reads S (S\<lparr>transit := M\<rparr>)"

section \<open>The token of a job\<close>

definition is_due :: "timetable \<Rightarrow> uuid \<Rightarrow> nat" where
  "is_due T uid = (case T uid of Some (Some t) \<Rightarrow> 1 | _ \<Rightarrow> 0)"

definition tokens :: "uuid \<Rightarrow> system \<Rightarrow> nat" where
  "tokens uid S = is_due (timetable (sys_sched S)) uid + count (ticks S) (uid, True) + count (transit S) (OutForRescheduling uid)"

text \<open>The scheduler is started and holds the job, whose schedule is endless and whose context is not done.\<close>

definition kept :: "uuid \<Rightarrow> jobSchedule \<Rightarrow> location \<Rightarrow> system \<Rightarrow> bool" where
  "kept uid sch l S \<longleftrightarrow> held uid sch l (sys_sched S) \<and>
     (\<forall>j. jobs (sys_sched S) uid = Some j \<longrightarrow> \<not> ctx_Done (cancelled (sys_sched S)) (j_ctx j))"

lemma held_table: "held uid sch l s \<Longrightarrow> timetable s uid \<noteq> None"
  by (auto simp: held_def timetable_def)

lemma live_tokens:
  assumes "live_step (T, D) (T', D')" "T uid \<noteq> None" "T' uid \<noteq> None"
  shows "is_due T' uid + count (mset (drop (length D) D')) (uid, True) = is_due T uid"
  using assms by (cases rule: live_step.cases) (auto simp: is_due_def restrict_map_def split: if_splits option.splits)

lemma request_plan:
  assumes "reachable s" "request_step s s'" "started s" "\<not> is_shutdown s" "started s'"
  shows "live_step (plan_of s) (plan_of s')"
proof -
  have inv: "scheduler_inv s" "core_inv s" using reachable_inv [OF assms(1)] by (simp_all add: scheduler_inv_def)
  have idle: "plan_of s1 = plan_of s \<Longrightarrow> live_step (plan_of s) (plan_of s1)" for s1
    by (simp add: plan_of_def live_step.idle)
  note same = idle [OF plan_of_cong]
  from assms(2) show ?thesis
  proof (cases rule: request_step.cases)
    case (remove uid)
    then show ?thesis using plan_remove [OF inv(2)] by (simp add: plan_of_def live_step.remove)
  next
    case (remove_tags e tags)
    then show ?thesis
      using plan_untag [OF inv(2), of tags "e_iteration e"] by (auto simp: selectRemoveJobsByTags_def plan_of_def intro: live_step.remove)
  next
    case (start e)
    then show ?thesis using assms(3) by simp
  next
    case (stop e)
    then show ?thesis using assms(5)
      by (auto simp: stopScheduler_def Let_def notifySchedulerStopped_def split: option.splits if_splits)
  qed (use inv same plan_new plan_run_now plan_fire(2) assms(4)
    in \<open>auto simp: cancel_def WithCancel_def notifyJobRegistered_def notifySchedulerStarted_def notifySchedulerShutdown_def\<close>)
qed

lemma request_tokens:
  assumes "reachable s" "request_step s s'" "held uid sch l s" "held uid sch l s'"
  shows "is_due (timetable s') uid + count (new_runs s s') (uid, True) = is_due (timetable s) uid"
  using live_tokens [OF request_plan [OF assms(1,2), unfolded plan_of_def]] held_table [OF assms(3)] held_table [OF assms(4)] assms(3,4)
  by (simp add: new_runs_def held_def)

lemma resched_tokens:
  assumes "reachable s" "receive e (OutForRescheduling u) s = Some s'"
  shows "handed_over (outbox s') = handed_over (outbox s)" "v \<noteq> u \<Longrightarrow> timetable s' v = timetable s v"
proof -
  have inv: "core_inv s" using reachable_inv [OF assms(1)] by (simp add: scheduler_inv_def)
  have "handed_over (outbox s') = handed_over (outbox s) \<and> (v \<noteq> u \<longrightarrow> timetable s' v = timetable s v)"
  proof (cases "jobs s u")
    case None
    then show ?thesis using assms(2) by (auto simp: selectExecJobsOutForRescheduling_def split: if_splits)
  next
    case (Some j)
    then show ?thesis using resched_shape [OF inv Some, of e s'] assms(2) plan_remove [OF inv] plan_arm_next [OF inv Some]
      by (auto simp: plan_of_def restrict_map_def)
  qed
  then show "handed_over (outbox s') = handed_over (outbox s)" "v \<noteq> u \<Longrightarrow> timetable s' v = timetable s v" by simp_all
qed

lemma message_plan:
  assumes "receive e ev s = Some s'" "\<And>u. ev \<noteq> OutForRescheduling u"
  shows "plan_of s' = plan_of s"
  using assms plan_timing plan_completed plan_update_next by (cases ev) auto

lemma deliver_tokens:
  assumes "reachable s" "receive e ev s = Some s'" "held uid sch l s" "timely sch l e"
  shows "is_due (timetable s') uid = (if ev = OutForRescheduling uid then 1 else is_due (timetable s) uid) \<and> new_runs s s' = {#}"
proof (cases "\<exists>u. ev = OutForRescheduling u")
  case True
  then obtain u where u: "ev = OutForRescheduling u" by blast
  have "is_due (timetable s') uid = 1" if "u = uid"
    using reschedule_arms [OF assms(3,4)] assms(2) u that
    by (auto simp: armed_def is_due_def timetable_def due_time_def)
  then show ?thesis using resched_tokens [OF assms(1), of e u s'] assms(2) u by (auto simp: new_runs_def is_due_def)
next
  case False
  then have "plan_of s' = plan_of s" using message_plan [OF assms(2)] by blast
  then show ?thesis using False by (auto simp: plan_of_def new_runs_def)
qed

section \<open>A run passes the token on\<close>

lemma idle_run: "\<not> may_start w j \<Longrightarrow> runJob w x (Some j) jIn = run_return ()"
  by (simp add: runJob_cases)

lemma carry_out_others:
  assumes "smooth w" "snd (carry_out w x busy (Some (Some j)) h) \<noteq> None" "in_id jIn = j_id j" "u \<noteq> j_id j"
    and "h \<in> {TurnedAway, StandardRun (Some j) jIn} \<union> {SingletonQueue jIn} \<union> LimitQueue ` {r. in_id r = in_id jIn}"
  shows "asked u (carry_out w x busy (Some (Some j)) h) = 0"
proof (cases "may_start w j")
  case True
  have "pending u j h = 0" using assms(3-5) by (auto simp: owed_def)
  then show ?thesis using carry_out_asks [OF assms(1) True assms(2) assms(5,3)] by simp
next
  case False
  have send: "asked u (send_or_done w (OutForRescheduling (j_id j))) = 0" using assms(4) by (simp add: send_or_done_def)
  show ?thesis using assms(5) by (auto simp: carry_out_def limit_run_def singleton_run_def idle_run [OF False] send)
qed

lemma whole_run_requests:
  assumes "smooth w" "smooth w'" "in_id jIn = j_id j" "whole_run w w' x limit place busy j jIn = (evs, Some ())"
  shows "u \<noteq> j_id j \<Longrightarrow> count_list evs (OutForRescheduling u) = 0"
    "may_start w' j \<Longrightarrow> count_list evs (OutForRescheduling (j_id j)) = (if shouldSendOut jIn then 1 else 0)"
proof -
  let ?m = "dispatch_job w x limit False place (Some (Some j)) jIn"
  assume u: "u \<noteq> j_id j"
  obtain h where h: "snd ?m = Some h" "asked u ?m + pending u j h = owed u jIn"
    "h \<in> {TurnedAway, StandardRun (Some j) jIn} \<union> {SingletonQueue jIn} \<union> LimitQueue ` {r. in_id r = in_id jIn}"
    by (rule dispatch_asks [OF assms(1)])
  have "snd (carry_out w' x busy (Some (Some j)) h) \<noteq> None"
    using arg_cong [OF assms(4), of snd] h(1) by (simp add: whole_run_def messages_bind(2))
  then have "asked u (carry_out w' x busy (Some (Some j)) h) = 0" using carry_out_others [OF assms(2) _ assms(3) u h(3)] by blast
  moreover have "asked u ?m = 0" using h(2) u assms(3) by (simp add: owed_def)
  ultimately have "asked u (whole_run w w' x limit place busy j jIn) = 0"
    using h(1) by (simp add: whole_run_def asked_bind)
  then show "count_list evs (OutForRescheduling u) = 0" using assms(4) by simp
next
  assume "may_start w' j"
  then show "count_list evs (OutForRescheduling (j_id j)) = (if shouldSendOut jIn then 1 else 0)"
    using whole_run_asks [OF assms(1,2) _ assms(3), of x limit place busy] assms(4) by simp
qed

section \<open>A token for every first run\<close>

definition gives_tokens :: "uuid set \<Rightarrow> scheduler \<Rightarrow> scheduler \<Rightarrow> bool" where
  "gives_tokens U s s' \<longleftrightarrow> (\<exists>D. handed_over (outbox s') = handed_over (outbox s) @ D \<and> fst ` set D \<subseteq> U \<and>
     (\<forall>u\<in>U. jobs s' u \<noteq> None \<longrightarrow> is_due (timetable s') u + count_list D (u, True) = 1) \<and>
     (\<forall>u. u \<notin> U \<longrightarrow> timetable s' u = timetable s u))"

lemma gives_tokens_table: "gives_tokens U s s' \<Longrightarrow> u \<notin> U \<Longrightarrow> timetable s' u = timetable s u"
  by (auto simp: gives_tokens_def)

lemma gives_tokens_trans:
  assumes "gives_tokens U s s'" "gives_tokens V s' s''" "U \<inter> V = {}"
  shows "gives_tokens (U \<union> V) s s''"
proof -
  obtain D where D: "handed_over (outbox s') = handed_over (outbox s) @ D" "fst ` set D \<subseteq> U"
    "\<forall>u\<in>U. jobs s' u \<noteq> None \<longrightarrow> is_due (timetable s') u + count_list D (u, True) = 1"
    using assms(1) by (auto simp: gives_tokens_def)
  obtain E where E: "handed_over (outbox s'') = handed_over (outbox s') @ E" "fst ` set E \<subseteq> V"
    "\<forall>u\<in>V. jobs s'' u \<noteq> None \<longrightarrow> is_due (timetable s'') u + count_list E (u, True) = 1"
    using assms(2) by (auto simp: gives_tokens_def)
  have none: "count_list E (u, True) = 0" if "u \<in> U" for u using E(2) that assms(3) by (force simp: count_list_0_iff)
  have none': "count_list D (u, True) = 0" if "u \<in> V" for u using D(2) that assms(3) by (force simp: count_list_0_iff)
  have table: "timetable s'' u = timetable s' u" if "u \<in> U" for u
    using gives_tokens_table [OF assms(2)] that assms(3) by blast
  have known: "jobs s' u \<noteq> None" if "timetable s'' u = timetable s' u" "jobs s'' u \<noteq> None" for u
    using that by (cases "jobs s' u") (auto simp: timetable_def)
  have "is_due (timetable s'') u + count_list (D @ E) (u, True) = 1" if u: "u \<in> U \<union> V" "jobs s'' u \<noteq> None" for u
  proof (cases "u \<in> U")
    case True
    then have "is_due (timetable s') u + count_list D (u, True) = 1" using D(3) known [OF table u(2)] by blast
    then show ?thesis using none [OF True] table [OF True] by (simp add: is_due_def)
  next
    case False
    then show ?thesis using E(3) none' u by auto
  qed
  moreover have "timetable s'' u = timetable s u" if "u \<notin> U \<union> V" for u
    using that gives_tokens_table [OF assms(1)] gives_tokens_table [OF assms(2)] by simp
  ultimately show ?thesis using D(1,2) E(1,2) unfolding gives_tokens_def by (intro exI [of _ "D @ E"]) auto
qed

lemma first_run_token:
  assumes "prepareFirstRun e j s = Some (j', False, s')" "\<not> is_shutdown s" "core_inv s" "j_id j = uid"
    and "\<And>n. j_timer j = Some n \<Longrightarrow> timers s n = None"
  shows "gives_tokens {uid} s (store uid j' s')"
  using assms(1)
proof (cases rule: prepareFirstRun_cases)
  case dispatched
  have s': "s' = send (JobsIn uid True) s" using dispatched(3) assms(2,4) by (simp add: dispatchJobRun_def)
  have "due_time (store uid j' s') = due_time s" by (rule due_time_cong) (simp add: s')
  moreover have "due_time s j' = None" using dispatched(2) assms(5) by (auto simp: due_time_def split: option.split)
  ultimately show ?thesis using s' unfolding gives_tokens_def
    by (intro exI [of _ "[(uid, True)]"]) (simp add: timetable_def is_due_def)
next
  case (armed "next" n)
  have "due_time (store uid j' s') k = due_time s k" if "jobs s u = Some k" for u k
    using due_time_AfterFunc [OF armed(3) assms(3) that] due_time_cong [of "store uid j' s'" s'] by simp
  moreover have due: "due_time (store uid j' s') j' \<noteq> None" using armed(2,3) by (auto simp: due_time_def AfterFunc_simps)
  moreover have same: "jobs s' = jobs s" "outbox s' = outbox s" using armed(3) by (simp_all add: AfterFunc_simps)
  ultimately have "timetable (store uid j' s') u = timetable s u" if "u \<noteq> uid" for u
    using that by (cases "jobs s u") (simp_all add: timetable_def)
  moreover have "is_due (timetable (store uid j' s')) uid = 1" using due by (auto simp: timetable_def is_due_def)
  ultimately show ?thesis using same(2) unfolding gives_tokens_def by (intro exI [of _ "[]"]) simp
qed simp

lemma start_round_token:
  assumes "core_inv s" "jobs s uid = Some j" "prepareFirstRun e (j\<lparr>nextScheduled := []\<rparr>) s = Some (j', dropped, s1)"
    and "\<And>m t. timers s m = Some t \<Longrightarrow> timer_job t \<noteq> uid" and "\<not> is_shutdown s"
  shows "gives_tokens {uid} s (if dropped then selectRemoveJob uid s1 else store uid j' s1)"
proof (cases dropped)
  case True
  have "s1 = s" using assms(3) True by (cases rule: prepareFirstRun_cases) simp_all
  then show ?thesis
    using True timetable_remove [OF assms(1), of uid] by (auto simp: gives_tokens_def selectRemoveJob_frame restrict_map_def)
next
  case False
  have "timers s n = None" if n: "j_timer j = Some n" for n
  proof (rule ccontr)
    assume "timers s n \<noteq> None"
    then obtain t where t: "timers s n = Some t" by blast
    then obtain k where k: "jobs s (timer_job t) = Some k" "j_timer k = Some n"
      using core_invD(3) [OF assms(1)] by (auto simp: timer_inv_def)
    then show False using ownsD [OF core_invD(4) [OF assms(1,2) n] k] assms(4) [OF t] by simp
  qed
  then show ?thesis
    using first_run_token [of e "j\<lparr>nextScheduled := []\<rparr>" s j' s1 uid] False assms core_invD(1) [OF assms(1,2)] by simp
qed

lemma start_loop_tokens:
  assumes "start_loop e uids s = Some s'" "core_inv s" "distinct uids" "\<not> is_shutdown s'"
    and "\<And>m t. timers s m = Some t \<Longrightarrow> timer_job t \<notin> set uids"
  shows "gives_tokens (set uids) s s'"
  using assms
proof (induction uids arbitrary: s)
  case (Cons uid uids)
  have "start_frame (uid # uids) s s'" by (rule conjunct1 [OF start_loop_prepares [OF Cons.prems(1-3,5,4)]])
  then have live: "\<not> is_shutdown s" using Cons.prems(4) is_shutdown_mono [of s s'] by (auto simp: start_frame_def)
  show ?case
  proof (cases "jobs s uid")
    case None
    then have "gives_tokens (set uids) s s'" using Cons.IH [OF _ Cons.prems(2) _ Cons.prems(4)] Cons.prems(1,3,5) by simp
    moreover have "gives_tokens {uid} s s" using None by (simp add: gives_tokens_def)
    ultimately show ?thesis using gives_tokens_trans [of "{uid}" s s "set uids" s'] Cons.prems(3) by simp
  next
    case (Some j)
    obtain j' dropped s1 where prep: "prepareFirstRun e (j\<lparr>nextScheduled := []\<rparr>) s = Some (j', dropped, s1)"
      and rest: "start_loop e uids (if dropped then selectRemoveJob uid s1 else store uid j' s1) = Some s'"
      using start_loop_round [OF Cons.prems(1) Some] .
    let ?s2 = "if dropped then selectRemoveJob uid s1 else store uid j' s1"
    have none: "timers s m = Some t \<Longrightarrow> timer_job t \<noteq> uid" for m t using Cons.prems(5) [of m t] by auto
    have "timer_job t \<notin> set uids" if "timers ?s2 m = Some t" for m t
      using start_round_timers [OF Cons.prems(2) Some prep that] Cons.prems(3,5) by auto
    then have "gives_tokens (set uids) ?s2 s'"
      using Cons.IH [OF rest core_inv_start_round [OF Cons.prems(2) Some prep none]] Cons.prems(3,4) by simp
    then show ?thesis
      using gives_tokens_trans [OF start_round_token [OF Cons.prems(2) Some prep none live]] Cons.prems(3) by simp
  qed
qed (simp add: gives_tokens_def)

lemma gives_tokens_send: "handed_over [m] = [] \<Longrightarrow> gives_tokens U s (send m s') = gives_tokens U s s'"
  using due_time_cong [of "send m s'" s'] by (simp add: gives_tokens_def timetable_def [abs_def])

lemma gives_tokens_from:
  "gives_tokens U s0 s' \<Longrightarrow> plan_of s0 = plan_of s \<Longrightarrow> gives_tokens U s s'"
  by (simp add: gives_tokens_def plan_of_def)

lemma new_job_tokens:
  assumes "core_inv s" "started s" "\<not> is_shutdown s" "new_job s j" "selectNewJob e j s = Some s'" "jobs s' (j_id j) \<noteq> None"
  shows "gives_tokens {j_id j} s s'"
proof -
  obtain j' dropped s1 where prep: "prepareFirstRun e j s = Some (j', dropped, s1)"
    using assms(2,5) by (auto simp: selectNewJob_def split: option.splits)
  have "j_id j' = j_id j" using prepareFirstRun_frame(2) [OF prep] .
  then have s': "\<not> dropped" "s' = send (NewJobDone (j_id j)) (store (j_id j) j' s1)"
    using assms(2,5,6) prep by (auto simp: selectNewJob_def selectRemoveJob_frame split: if_splits)
  then show ?thesis
    using first_run_token [of e j s j' s1] prep assms(1,3,4) by (simp add: gives_tokens_send new_job_def)
qed

lemma start_tokens:
  assumes "reachable s" "\<not> started s" "iterates e s" "selectStart e s = Some s'" "\<not> is_shutdown s'"
  shows "gives_tokens (dom (jobs s)) s s'"
proof -
  let ?s = "(send ExecutorStart s)\<lparr>started := True\<rparr>"
  obtain s1 where s1: "start_loop e (e_iteration e) ?s = Some s1" "s' = s1 \<or> s' = send SchedulerStartedSignal s1"
    using assms(4) by (auto simp: selectStart_def split: if_splits)
  have inv: "core_inv ?s"
    using reachable_inv [OF assms(1)] core_inv_cong [of ?s s] by (simp add: scheduler_inv_def send_def)
  have none: "timers ?s = Map.empty" using start_no_timers [OF assms(1,2)] by (simp add: send_def)
  have live: "\<not> is_shutdown s1" using s1(2) assms(5) by (auto simp: is_shutdown_def send_def)
  have "gives_tokens (set (e_iteration e)) ?s s1"
    by (rule start_loop_tokens [OF s1(1) inv _ live]) (use none assms(3) in \<open>simp_all add: iterates_def\<close>)
  moreover have "plan_of ?s = plan_of s" by (rule plan_of_cong) (simp_all add: send_def)
  ultimately have "gives_tokens (dom (jobs s)) s s1" using gives_tokens_from assms(3) by (metis iterates_def)
  then show ?thesis using s1(2) by (auto simp: gives_tokens_send)
qed

text \<open>
  C8: A job gets its token with its first run: when the started scheduler takes it on, and when the scheduler starts, a
  job that is not dropped is in exactly one place, provided nothing is left of its runs from before.
\<close>

theorem first_runs_give_one_token:
  assumes "reachable (sys_sched S)" "\<not> is_shutdown (sys_sched S)" "\<not> is_shutdown s'" "jobs s' uid \<noteq> None"
    and "started (sys_sched S) \<and> new_job (sys_sched S) j \<and> j_id j = uid \<and> selectNewJob e j (sys_sched S) = Some s' \<or>
      \<not> started (sys_sched S) \<and> iterates e (sys_sched S) \<and> selectStart e (sys_sched S) = Some s'"
    and "count (ticks S) (uid, True) = 0" "count (transit S) (OutForRescheduling uid) = 0"
  shows "tokens uid (moves_to S s') = 1"
proof -
  have inv: "core_inv (sys_sched S)" using reachable_inv [OF assms(1)] by (simp add: scheduler_inv_def)
  obtain U where U: "gives_tokens U (sys_sched S) s'" "uid \<in> U"
    using assms(5)
  proof
    assume new: "started (sys_sched S) \<and> new_job (sys_sched S) j \<and> j_id j = uid \<and> selectNewJob e j (sys_sched S) = Some s'"
    then show thesis using new_job_tokens [OF inv _ assms(2), of j e s'] assms(4) by (intro that [of "{uid}"]) auto
  next
    assume start: "\<not> started (sys_sched S) \<and> iterates e (sys_sched S) \<and> selectStart e (sys_sched S) = Some s'"
    then have "gives_tokens (dom (jobs (sys_sched S))) (sys_sched S) s'" using start_tokens [OF assms(1) _ _ _ assms(3)] by blast
    moreover have "uid \<in> dom (jobs (sys_sched S))"
    proof (rule ccontr)
      assume "uid \<notin> dom (jobs (sys_sched S))"
      then have "timetable s' uid = timetable (sys_sched S) uid" "jobs (sys_sched S) uid = None"
        using gives_tokens_table [OF \<open>gives_tokens _ _ s'\<close>] by (simp_all add: domIff)
      then show False using assms(4) by (simp add: timetable_def)
    qed
    ultimately show thesis by (rule that)
  qed
  then show ?thesis using assms(4,6,7) by (auto simp: gives_tokens_def tokens_def moves_to_def new_runs_def count_mset)
qed

theorem first_runs_give_one_token_witness:
  "\<exists>s'. selectStart (clock_at 5 [1]) one_job = Some s' \<and>
    tokens 1 (moves_to \<lparr>sys_sched = one_job, ticks = {#}, transit = {#}\<rparr> s') = 1"
proof -
  obtain s' where s': "selectStart (clock_at 5 [1]) one_job = Some s'" "\<not> is_shutdown s'" "jobs s' 1 \<noteq> None" by (rule one_job_starts)
  then show ?thesis
    using first_runs_give_one_token [of "\<lparr>sys_sched = one_job, ticks = {#}, transit = {#}\<rparr>" s' 1 undefined "clock_at 5 [1]"] one_job_reaches
    by (auto simp: iterates_def is_shutdown_def shutdownCtx_def)
qed

section \<open>No job is lost or doubled\<close>

lemma kept_starts:
  assumes "kept uid sch l S" "jobs (sys_sched S) uid = Some j"
    and "w_cancelled w \<longleftrightarrow> \<not> started (sys_sched S) \<or> ctx_Done (cancelled (sys_sched S)) (j_ctx j)"
  shows "may_start w j"
  using assms by (auto simp: kept_def held_def may_start_def stopTimeReached_def repeats_def)

lemma run_tokens:
  assumes "core_inv (sys_sched S)" "kept uid sch l S" "ticks S = add_mset (v, b) T" "jobs (sys_sched S) v = Some j"
    and "smooth w" "smooth w'" "w_cancelled w' \<longleftrightarrow> \<not> started (sys_sched S) \<or> ctx_Done (cancelled (sys_sched S)) (j_ctx j)"
    and "whole_run w w' x limit place busy j \<lparr>in_id = v, shouldSendOut = b\<rparr> = (evs, Some ())"
  shows "tokens uid (S\<lparr>ticks := T, transit := transit S + mset (filter to_scheduler evs)\<rparr>) = tokens uid S"
proof -
  have "j_id j = v" using core_invD(1) [OF assms(1,4)] .
  then have "count_list evs (OutForRescheduling uid) = (if v = uid \<and> b then 1 else 0)"
    using whole_run_requests [OF assms(5,6) _ assms(8)] kept_starts [OF assms(2) _ assms(7)] assms(4) by (cases "v = uid") auto
  then show ?thesis using assms(3) by (simp add: tokens_def count_mset count_filter)
qed

lemma system_step_tokens:
  assumes "system_step x limit (timely sch l) S S'" "reachable (sys_sched S)" "kept uid sch l S" "kept uid sch l S'" "tokens uid S = 1"
  shows "reachable (sys_sched S') \<and> tokens uid S' = 1"
  using assms(1)
proof (cases rule: system_step.cases)
  case (request s')
  have "held uid sch l (sys_sched S)" "held uid sch l s'" using assms(3,4) request by (simp_all add: kept_def moves_to_def)
  then have "tokens uid S' = tokens uid S"
    using request_tokens [OF assms(2) request(2)] request(1) by (simp add: tokens_def moves_to_def)
  then show ?thesis using request assms(2,5) request_is_step [OF request(2)] by (auto simp: moves_to_def intro: reachable.stepped)
next
  case (run v b T j w w' place busy evs)
  have "core_inv (sys_sched S)" using reachable_inv [OF assms(2)] by (simp add: scheduler_inv_def)
  then show ?thesis using run_tokens [OF _ assms(3) run(2-7)] run(1) assms(2,5) by simp
next
  case (unknown v b T)
  have "v \<noteq> uid" using unknown(3) assms(3) by (auto simp: kept_def held_def)
  then show ?thesis using unknown(1,2) assms(2,5) by (simp add: tokens_def)
next
  case (deliver ev M e s')
  have "held uid sch l (sys_sched S)" using assms(3) by (simp add: kept_def)
  then have due: "is_due (timetable s') uid = (if ev = OutForRescheduling uid then 1 else is_due (timetable (sys_sched S)) uid)"
    "new_runs (sys_sched S) s' = {#}"
    using deliver_tokens [OF assms(2) deliver(5) _ deliver(4)] by simp_all
  then have "tokens uid S' = 1" using assms(5) deliver(1,2) by (auto simp: tokens_def moves_to_def)
  then show ?thesis using receive_reachable [OF assms(2) deliver(3,5)] deliver(1) by (simp add: moves_to_def)
next
  case (give_up ev M)
  then show ?thesis using assms(3) by (simp add: kept_def held_def)
qed



end
