(* ===== verification/Lifecycle.thy ===== *)
theory Lifecycle
  imports Liveness
begin

text \<open>
  Starting, stopping and shutting down as a caller sees it: the calls of the scheduler that wait for its
  goroutine, the wait of the executor for its jobs, and the results that the error channel carries between them.
\<close>

section \<open>The executor's wait\<close>

text \<open>
  What the loop of \<open>executor.stop\<close> receives, each of the first three at most once: the jobs of one of the
  three groups are done, or the timer of the stop timeout fires.
\<close>

datatype stop_event = StandardJobsDone | SingletonsDone | LimitModeDone | StopTimer

text \<open>The loop with its count; \<open>None\<close> while it waits, otherwise what it sends on \<open>done\<close>.\<close>

fun stop_wait :: "nat \<Rightarrow> stop_event list \<Rightarrow> error option option" where
  "stop_wait done_count [] = (if done_count < 3 then None else Some None)"
| "stop_wait done_count (ev # evs) =
     (if done_count < 3 then
        if ev = StopTimer then Some (Some ErrStopJobsTimedOut) else stop_wait (Suc done_count) evs
      else Some None)"

section \<open>Calls\<close>

text \<open>
  An outcome is what the caller gets (\<open>None\<close> when it waits forever) and the state of the scheduler
  afterwards (\<open>None\<close> when its goroutine is stuck).
\<close>

type_synonym 'a outcome = "'a option \<times> scheduler option"

text \<open>The case that the first select of a stop takes.\<close>

datatype stop_select = ShutdownFirst | ContextFirst error | Accepted

text \<open>Without its signal the caller of \<open>Start\<close> is not released.\<close>

definition Start :: "env \<Rightarrow> bool \<Rightarrow> scheduler \<Rightarrow> unit outcome" where
  "Start e accepted s =
     (if started s then (Some (), Some s)
      else if is_shutdown s \<and> \<not> accepted then (Some (), Some s)
      else
        case selectStart e s of
          None \<Rightarrow> (None, None)
        | Some s' \<Rightarrow>
            if is_shutdown s' \<and> \<not> e_send_wins e then (None, Some s')
            else (Some (), Some (notifySchedulerStarted s')))"

text \<open>
  A caller whose context ends while it waits (\<open>Some err\<close>) leaves its result in the error channel; one that
  waits reads what it finds there first.
\<close>

definition await_stop :: "env \<Rightarrow> error option \<Rightarrow> scheduler \<Rightarrow> error option outcome" where
  "await_stop e gives_up s =
     (case gives_up of
        Some err \<Rightarrow> (Some (Some err), stopScheduler e s)
      | None \<Rightarrow>
          (case stopErrCh s of
             Some old \<Rightarrow> (Some old, stopScheduler e (s\<lparr>stopErrCh := None\<rparr>))
           | None \<Rightarrow>
               (case stopScheduler e s of
                  None \<Rightarrow> (None, None)
                | Some s' \<Rightarrow> (stopErrCh s', Some (s'\<lparr>stopErrCh := None\<rparr>)))))"

fun StopJobsWithContext :: "env \<Rightarrow> stop_select \<Rightarrow> error option \<Rightarrow> scheduler \<Rightarrow> error option outcome" where
  "StopJobsWithContext e ShutdownFirst gives_up s = (Some None, Some s)"
| "StopJobsWithContext e (ContextFirst err) gives_up s = (Some (Some err), Some s)"
| "StopJobsWithContext e Accepted gives_up s = await_stop e gives_up s"

definition DeadlineExceeded :: error where
  "DeadlineExceeded = External ''context deadline exceeded''"

definition deadline_error :: "error option \<Rightarrow> error option" where
  "deadline_error r = (case r of
     Some err \<Rightarrow> if errors_Is err DeadlineExceeded then Some ErrStopSchedulerTimedOut else r
   | None \<Rightarrow> None)"

definition StopJobs :: "env \<Rightarrow> stop_select \<Rightarrow> error option \<Rightarrow> scheduler \<Rightarrow> error option outcome" where
  "StopJobs e sel gives_up s = map_prod (map_option deadline_error) id (StopJobsWithContext e sel gives_up s)"

text \<open>\<open>late\<close>: the goroutine has stopped before the caller looks whether the scheduler is started.\<close>

definition ShutdownWithContext :: "env \<Rightarrow> bool \<Rightarrow> error option \<Rightarrow> scheduler \<Rightarrow> error option outcome" where
  "ShutdownWithContext e late gives_up s =
     (let s = cancel shutdownCtx s
      in if \<not> started s \<or> late then (Some None, stopScheduler e s)
         else
           case gives_up of
             Some err \<Rightarrow> (Some (Some err), stopScheduler e s)
           | None \<Rightarrow> map_prod id (map_option notifySchedulerShutdown) (await_stop e None s))"

definition Shutdown :: "env \<Rightarrow> bool \<Rightarrow> error option \<Rightarrow> scheduler \<Rightarrow> error option outcome" where
  "Shutdown e late gives_up s = map_prod (map_option deadline_error) id (ShutdownWithContext e late gives_up s)"

definition RemoveByTags :: "env \<Rightarrow> bool \<Rightarrow> string list \<Rightarrow> scheduler \<Rightarrow> scheduler" where
  "RemoveByTags e accepted tags s = (if is_shutdown s \<and> \<not> accepted then s else selectRemoveJobsByTags e tags s)"

section \<open>The wait\<close>

lemma stop_wait_count:
  assumes "distinct evs" "done_count + card A = 3" "A \<subseteq> {StandardJobsDone, SingletonsDone, LimitModeDone}"
    and "set evs \<subseteq> insert StopTimer A"
  shows "stop_wait done_count evs = Some None \<longleftrightarrow> A \<subseteq> set (takeWhile (\<lambda>ev. ev \<noteq> StopTimer) evs)"
  using assms
proof (induction done_count evs arbitrary: A rule: stop_wait.induct)
  case (1 done_count)
  have "finite A" using 1(3) finite_subset by blast
  then have "\<not> done_count < 3 \<longleftrightarrow> A = {}" using 1(2) card_0_eq [of A] by linarith
  then show ?case by auto
next
  case (2 done_count ev evs)
  have fin: "finite A" using 2(4) finite_subset by blast
  show ?case
  proof (cases "done_count < 3 \<and> ev \<noteq> StopTimer")
    case True
    then have ev: "ev \<in> A" using 2(5) by auto
    have "stop_wait (Suc done_count) evs = Some None \<longleftrightarrow> A - {ev} \<subseteq> set (takeWhile (\<lambda>ev. ev \<noteq> StopTimer) evs)"
      using True ev fin 2(2-5) by (intro "2.IH") (auto simp: card_Diff_singleton)
    then show ?thesis using True by auto
  next
    case False
    then consider "3 \<le> done_count" | "done_count < 3" "ev = StopTimer" by linarith
    then show ?thesis
    proof cases
      case 1
      then have "A = {}" using "2.prems"(2) card_0_eq [OF fin] by linarith
      then show ?thesis using 1 by simp
    next
      case 2
      then have "A \<noteq> {}" using "2.prems"(2) by auto
      then show ?thesis using 2 by simp
    qed
  qed
qed

lemma stop_wait_result:
  "stop_wait done_count evs \<in> {None, Some None, Some (Some ErrStopJobsTimedOut)}"
  "StopTimer \<in> set evs \<Longrightarrow> stop_wait done_count evs \<noteq> None"
  by (induction done_count evs rule: stop_wait.induct) auto

text \<open>
  The wait of the executor ends without an error just when all three groups of jobs are done before the timer
  of the stop timeout fires, with \<open>ErrStopJobsTimedOut\<close> otherwise, and it always ends once that timer fires.
\<close>

theorem executor_waits_for_its_jobs:
  assumes "distinct evs"
  shows "(stop_wait 0 evs = Some None \<longleftrightarrow>
      {StandardJobsDone, SingletonsDone, LimitModeDone} \<subseteq> set (takeWhile (\<lambda>ev. ev \<noteq> StopTimer) evs)) \<and>
    (StopTimer \<in> set evs \<longrightarrow> stop_wait 0 evs \<in> {Some None, Some (Some ErrStopJobsTimedOut)})"
proof -
  have "set evs \<subseteq> insert StopTimer {StandardJobsDone, SingletonsDone, LimitModeDone}"
    using stop_event.exhaust by auto
  then show ?thesis
    using stop_wait_count [OF assms, where done_count = 0 and A = "{StandardJobsDone, SingletonsDone, LimitModeDone}"] stop_wait_result [where done_count = 0 and evs = evs] by auto
qed

theorem executor_waits_for_its_jobs_witness:
  "stop_wait 0 [SingletonsDone, LimitModeDone, StandardJobsDone, StopTimer] = Some None \<and>
   stop_wait 0 [SingletonsDone, StopTimer, StandardJobsDone] = Some (Some ErrStopJobsTimedOut)"
  using executor_waits_for_its_jobs [of "[SingletonsDone, LimitModeDone, StandardJobsDone, StopTimer]"]
    executor_waits_for_its_jobs [of "[SingletonsDone, StopTimer, StandardJobsDone]"] by simp

section \<open>Stopping\<close>

definition stop_result :: "env \<Rightarrow> scheduler \<Rightarrow> error option" where
  "stop_result e s =
     (if started s then (case e_exec_done e of Some r \<Rightarrow> r | None \<Rightarrow> Some ErrStopExecutorTimedOut) else None)"

lemma started_loops: "started (refresh_loop uids s) = started s" "started (stop_loop uids s) = started s"
  by (induction uids arbitrary: s) (simp_all add: refresh_context_eq split: option.split)

lemma stopScheduler_result:
  assumes "stopErrCh s = None"
  obtains s' where "stopScheduler e s = Some s'" "stopErrCh s' = Some (stop_result e s)" "\<not> started s'"
  using assms
  by (cases "started s") (auto simp: stopScheduler_def Let_def stopErrCh_loops started_loops stop_result_def send_def
    notifySchedulerStopped_def)

lemma stopScheduler_blocks: "stopErrCh s = Some r \<Longrightarrow> stopScheduler e s = None"
  by (simp add: stopScheduler_def Let_def stopErrCh_loops send_def)

lemma reachable_read: "reachable s \<Longrightarrow> reachable (s\<lparr>stopErrCh := None\<rparr>)"
  by (rule reachable.stepped [OF _ select_step.read_error])



text \<open>
  C40: A caller of \<open>StopJobs\<close> that gives up leaves the result of its stop in the error channel, and every later stop
  then returns the result of the stop before it: after another start the next \<open>StopJobs\<close> reports what the first
  one did not wait for, whatever became of its own jobs, and leaves its own result behind.
\<close>

theorem abandoned_stop_shifts_results:
  assumes "stopErrCh s = None" "started s" "StopJobsWithContext e Accepted (Some err) s = (Some r, Some s1)"
    and "stopErrCh s2 = stopErrCh s1" "started s2" "StopJobsWithContext e' Accepted None s2 = (Some r', Some s3)"
  shows "r = Some err \<and> r' = stop_result e s \<and> stopErrCh s3 = Some (stop_result e' s2)"
proof -
  obtain s' where s': "stopScheduler e s = Some s'" "stopErrCh s' = Some (stop_result e s)"
    using stopScheduler_result [OF assms(1)] .
  then have s1: "r = Some err" "s1 = s'" using assms(3) by (simp_all add: await_stop_def)
  let ?s2 = "s2\<lparr>stopErrCh := None\<rparr>"
  obtain s'' where s'': "stopScheduler e' ?s2 = Some s''" "stopErrCh s'' = Some (stop_result e' ?s2)"
    using stopScheduler_result [of ?s2] by auto
  have "stop_result e' ?s2 = stop_result e' s2" by (simp add: stop_result_def)
  then show ?thesis using s1 s' s'' assms(4,6) by (simp add: await_stop_def)
qed

definition reporting :: "error option \<Rightarrow> env" where
  "reporting r = (clock_at 0 [])\<lparr>e_exec_done := Some r\<rparr>"

theorem abandoned_stop_shifts_results_witness:
  "\<exists>s0 s1 s2 s3. Start (reporting None) True fresh = (Some (), Some s0) \<and>
    StopJobsWithContext (reporting (Some ErrStopJobsTimedOut)) Accepted (Some DeadlineExceeded) s0 = (Some (Some DeadlineExceeded), Some s1) \<and>
    Start (reporting None) True s1 = (Some (), Some s2) \<and>
    StopJobsWithContext (reporting None) Accepted None s2 = (Some (Some ErrStopJobsTimedOut), Some s3)"
proof -
  let ?e = "reporting (Some ErrStopJobsTimedOut)" and ?e' = "reporting None"
  note defs = Start_def selectStart_def reporting_def is_shutdown_def shutdownCtx_def send_def notifySchedulerStarted_def
    example_simps await_stop_def stopScheduler_def Let_def notifySchedulerStopped_def
  let ?late = "Some (Some ErrStopJobsTimedOut)" and ?on = "[ExecutorStart, SchedulerStartedSignal]"
  let ?s0 = "fresh\<lparr>started := True, outbox := ?on\<rparr>"
  let ?s1 = "fresh\<lparr>started := False, outbox := ?on @ [ExecutorStop], stopErrCh := ?late\<rparr>"
  let ?s2 = "fresh\<lparr>started := True, outbox := ?on @ [ExecutorStop] @ ?on, stopErrCh := ?late\<rparr>"
  have "Start ?e' True fresh = (Some (), Some ?s0)" by (simp add: defs)
  moreover have s1: "StopJobsWithContext ?e Accepted (Some DeadlineExceeded) ?s0 = (Some (Some DeadlineExceeded), Some ?s1)"
    by (simp add: defs)
  moreover have "Start ?e' True ?s1 = (Some (), Some ?s2)" by (simp add: defs)
  moreover obtain r s3 where s3: "StopJobsWithContext ?e' Accepted None ?s2 = (Some r, Some s3)" by (simp add: defs)
  moreover have "r = Some ErrStopJobsTimedOut"
    using abandoned_stop_shifts_results [OF _ _ s1 _ _ s3] by (simp add: stop_result_def reporting_def fresh_def NewScheduler_state_def)
  ultimately show ?thesis by blast
qed

section \<open>Shutting down\<close>

lemma stop_keeps_cancelled: "stopScheduler e s = Some s' \<Longrightarrow> cancelled s \<subseteq> cancelled s'"
  using stop_loop_cancels(2) [of "send ExecutorStop s" "e_iteration e"] stop_loop_cancels(2) [of s "e_iteration e"]
  by (auto simp: stopScheduler_def Let_def notifySchedulerStopped_def refresh_loop_cancelled split: option.splits if_splits)



end
