(* ===== verification/ExecutorStop.thy ===== *)
theory ExecutorStop
  imports Lifecycle
begin

text \<open>
  The executor's wait for its jobs in full: the wait groups of util.go with their mutex, the goroutine that
  waits for each group, and the loop of \<open>executor.stop\<close> that listens to them until its timer fires. Jobs
  end, and dispatches that were under way add theirs, while the executor waits.
\<close>

section \<open>Wait groups\<close>

record waitGroupWithMutex =
  wg_count :: nat
  wg_locked :: bool

text \<open>Each step is \<open>None\<close> while it blocks; \<open>Done\<close> would panic at 0. A \<open>Wait\<close> holds the mutex until it returns.\<close>

definition wg_Add :: "waitGroupWithMutex \<Rightarrow> waitGroupWithMutex option" where
  "wg_Add wg = (if wg_locked wg then None else Some (wg\<lparr>wg_count := wg_count wg + 1\<rparr>))"

definition wg_Done :: "waitGroupWithMutex \<Rightarrow> waitGroupWithMutex option" where
  "wg_Done wg = (if wg_count wg = 0 then None else Some (wg\<lparr>wg_count := wg_count wg - 1\<rparr>))"

definition wg_Wait_begins :: "waitGroupWithMutex \<Rightarrow> waitGroupWithMutex option" where
  "wg_Wait_begins wg = (if wg_locked wg then None else Some (wg\<lparr>wg_locked := True\<rparr>))"

definition wg_Wait_returns :: "waitGroupWithMutex \<Rightarrow> waitGroupWithMutex option" where
  "wg_Wait_returns wg = (if wg_count wg = 0 then Some (wg\<lparr>wg_locked := False\<rparr>) else None)"

section \<open>The stop\<close>

datatype group = StandardJobs | SingletonJobs | LimitModeJobs

definition group_event :: "group \<Rightarrow> stop_event" where
  "group_event g = (case g of StandardJobs \<Rightarrow> StandardJobsDone | SingletonJobs \<Rightarrow> SingletonsDone | LimitModeJobs \<Rightarrow> LimitModeDone)"

text \<open>The goroutine that waits for a group; its channel has room for the one message it sends.\<close>

datatype waiter = Starting | Waiting | Reported | Heard

text \<open>
  \<open>active\<close> names the jobs that a group counts and \<open>labels\<close> the names given so far, so that a job that was there when
  the stop began can be told from later ones. \<open>heard\<close> is what the loop has received.
\<close>

record stop_state =
  groups :: "group \<Rightarrow> waitGroupWithMutex"
  waiters :: "group \<Rightarrow> waiter"
  wait_count :: nat
  timed_out :: bool
  stop_done :: "error option option"
  active :: "group \<Rightarrow> nat set"
  labels :: "nat set"
  heard :: "stop_event list"

definition stop_begins :: "stop_state \<Rightarrow> bool" where
  "stop_begins s \<longleftrightarrow> waiters s = (\<lambda>_. Starting) \<and> wait_count s = 0 \<and> \<not> timed_out s \<and> stop_done s = None \<and> heard s = [] \<and>
     (\<forall>g. \<not> wg_locked (groups s g) \<and> finite (active s g) \<and> wg_count (groups s g) = card (active s g) \<and> active s g \<subseteq> labels s)"

inductive stop_step :: "stop_state \<Rightarrow> stop_state \<Rightarrow> bool" where
  job_added: "wg_Add (groups s g) = Some wg \<Longrightarrow> l \<notin> labels s \<Longrightarrow>
    stop_step s (s\<lparr>groups := (groups s)(g := wg), active := (active s)(g := insert l (active s g)), labels := insert l (labels s)\<rparr>)"
| job_done: "wg_Done (groups s g) = Some wg \<Longrightarrow> l \<in> active s g \<Longrightarrow>
    stop_step s (s\<lparr>groups := (groups s)(g := wg), active := (active s)(g := active s g - {l})\<rparr>)"
| wait_begins: "waiters s g = Starting \<Longrightarrow> wg_Wait_begins (groups s g) = Some wg \<Longrightarrow>
    stop_step s (s\<lparr>groups := (groups s)(g := wg), waiters := (waiters s)(g := Waiting)\<rparr>)"
| wait_returns: "waiters s g = Waiting \<Longrightarrow> wg_Wait_returns (groups s g) = Some wg \<Longrightarrow>
    stop_step s (s\<lparr>groups := (groups s)(g := wg), waiters := (waiters s)(g := Reported)\<rparr>)"
| hear: "\<not> timed_out s \<Longrightarrow> wait_count s < 3 \<Longrightarrow> waiters s g = Reported \<Longrightarrow>
    stop_step s (s\<lparr>waiters := (waiters s)(g := Heard), wait_count := wait_count s + 1, heard := heard s @ [group_event g]\<rparr>)"
| timer: "\<not> timed_out s \<Longrightarrow> wait_count s < 3 \<Longrightarrow> stop_step s (s\<lparr>timed_out := True, heard := heard s @ [StopTimer]\<rparr>)"
| leave: "timed_out s \<or> 3 \<le> wait_count s \<Longrightarrow> stop_done s = None \<Longrightarrow>
    stop_step s (s\<lparr>stop_done := Some (if wait_count s < 3 then Some ErrStopJobsTimedOut else None)\<rparr>)"

section \<open>What the wait guarantees\<close>

text \<open>The state of one group, with the jobs \<open>A\<close> that it counted when the stop began.\<close>

definition group_inv :: "nat set \<Rightarrow> nat set \<Rightarrow> waitGroupWithMutex \<Rightarrow> waiter \<Rightarrow> nat set \<Rightarrow> bool" where
  "group_inv L A wg m J \<longleftrightarrow> finite J \<and> wg_count wg = card J \<and> A \<subseteq> L \<and> J \<subseteq> L \<and> (wg_locked wg \<longleftrightarrow> m = Waiting) \<and>
     (m \<in> {Reported, Heard} \<longrightarrow> A \<inter> J = {})"

definition groups_inv :: "stop_state \<Rightarrow> stop_state \<Rightarrow> bool" where
  "groups_inv s0 s \<longleftrightarrow> (\<forall>g. group_inv (labels s) (active s0 g) (groups s g) (waiters s g) (active s g))"

text \<open>The state of the loop: it has counted what it has heard, and its result agrees with the count.\<close>

definition loop_ok :: "group set \<Rightarrow> nat \<Rightarrow> bool \<Rightarrow> stop_event list \<Rightarrow> error option option \<Rightarrow> bool" where
  "loop_ok H n late evs r \<longleftrightarrow> n = card H \<and>
     (\<exists>gs. evs = map group_event gs @ (if late then [StopTimer] else []) \<and> length gs = n) \<and> (late \<longrightarrow> n < 3) \<and>
     (r = None \<or> (late \<or> 3 \<le> n) \<and> r = Some (if n < 3 then Some ErrStopJobsTimedOut else None))"

definition loop_inv :: "stop_state \<Rightarrow> bool" where
  "loop_inv s \<longleftrightarrow> loop_ok {g. waiters s g = Heard} (wait_count s) (timed_out s) (heard s) (stop_done s)"

instantiation group :: enum
begin

definition "enum_group = [StandardJobs, SingletonJobs, LimitModeJobs]"

definition "enum_all_group P \<longleftrightarrow> P StandardJobs \<and> P SingletonJobs \<and> P LimitModeJobs"

definition "enum_ex_group P \<longleftrightarrow> P StandardJobs \<or> P SingletonJobs \<or> P LimitModeJobs"

instance
proof
  show univ: "(UNIV :: group set) = set enum_class.enum" by (auto simp: enum_group_def intro: group.exhaust)
  show "distinct (enum_class.enum :: group list)" by (simp add: enum_group_def)
  show "enum_class.enum_all P \<longleftrightarrow> Ball UNIV P" "enum_class.enum_ex P \<longleftrightarrow> Bex UNIV P" for P :: "group \<Rightarrow> bool"
    unfolding univ by (simp_all add: enum_all_group_def enum_ex_group_def enum_group_def)
qed

end

lemma groups_UNIV: "(UNIV :: group set) = {StandardJobs, SingletonJobs, LimitModeJobs}"
  by (auto intro: group.exhaust)

lemmas wait_group_defs = wg_Add_def wg_Done_def wg_Wait_begins_def wg_Wait_returns_def

lemma group_inv_steps:
  "group_inv L A wg m J \<Longrightarrow> group_inv (insert l L) A wg m J"
  "group_inv L A wg m J \<Longrightarrow> wg_Add wg = Some wg' \<Longrightarrow> l \<notin> L \<Longrightarrow> group_inv (insert l L) A wg' m (insert l J)"
  "group_inv L A wg m J \<Longrightarrow> wg_Done wg = Some wg' \<Longrightarrow> l \<in> J \<Longrightarrow> group_inv L A wg' m (J - {l})"
  "group_inv L A wg m J \<Longrightarrow> m = Starting \<Longrightarrow> wg_Wait_begins wg = Some wg' \<Longrightarrow> group_inv L A wg' Waiting J"
  "group_inv L A wg m J \<Longrightarrow> m = Waiting \<Longrightarrow> wg_Wait_returns wg = Some wg' \<Longrightarrow> group_inv L A wg' Reported J"
  "group_inv L A wg m J \<Longrightarrow> m = Reported \<Longrightarrow> group_inv L A wg Heard J"
  by (auto simp: group_inv_def wait_group_defs card_insert_if subset_eq split: if_splits)

lemma groups_inv_step:
  assumes "stop_step s s'" "groups_inv s0 s"
  shows "groups_inv s0 s'"
proof -
  have inv: "group_inv (labels s) (active s0 g) (groups s g) (waiters s g) (active s g)" for g
    using assms(2) by (simp add: groups_inv_def)
  from assms(1) show ?thesis
    by (cases rule: stop_step.cases)
      (auto simp: groups_inv_def inv intro: group_inv_steps(1) group_inv_steps(2-6) [OF inv])
qed

lemma loop_inv_cong:
  "wait_count s' = wait_count s \<Longrightarrow> timed_out s' = timed_out s \<Longrightarrow> stop_done s' = stop_done s \<Longrightarrow> heard s' = heard s \<Longrightarrow>
    {g. waiters s' g = Heard} = {g. waiters s g = Heard} \<Longrightarrow> loop_inv s \<Longrightarrow> loop_inv s'"
  by (simp add: loop_inv_def)

lemma loop_ok_steps:
  "loop_ok H n False evs None \<Longrightarrow> g \<notin> H \<Longrightarrow> loop_ok (insert g H) (Suc n) False (evs @ [group_event g]) None"
  "loop_ok H n False evs None \<Longrightarrow> n < 3 \<Longrightarrow> loop_ok H n True (evs @ [StopTimer]) None"
  "loop_ok H n late evs None \<Longrightarrow> late \<or> 3 \<le> n \<Longrightarrow> loop_ok H n late evs (Some (if n < 3 then Some ErrStopJobsTimedOut else None))"
proof -
  assume H: "loop_ok H n False evs None" "g \<notin> H"
  then obtain gs where "evs = map group_event gs" "length gs = n" by (auto simp: loop_ok_def)
  then have "evs @ [group_event g] = map group_event (gs @ [g]) \<and> length (gs @ [g]) = Suc n" by simp
  then have "\<exists>hs. evs @ [group_event g] = map group_event hs \<and> length hs = Suc n" by blast
  then show "loop_ok (insert g H) (Suc n) False (evs @ [group_event g]) None" using H by (simp add: loop_ok_def)
qed (auto simp: loop_ok_def)

lemma loop_running: "loop_ok H n late evs r \<Longrightarrow> \<not> late \<Longrightarrow> n < 3 \<Longrightarrow> r = None"
  by (auto simp: loop_ok_def)

lemma loop_inv_step: "stop_step s s' \<Longrightarrow> loop_inv s \<Longrightarrow> loop_inv s'"
proof (induction rule: stop_step.induct)
  case (hear s g)
  have "{h. h \<noteq> g \<longrightarrow> waiters s h = Heard} = insert g {h. waiters s h = Heard}" by auto
  moreover have "stop_done s = None" using hear loop_running by (auto simp: loop_inv_def)
  ultimately show ?case using hear loop_ok_steps(1) [of "{h. waiters s h = Heard}" "wait_count s" "heard s" g]
    by (simp add: loop_inv_def)
next
  case (timer s)
  then have "stop_done s = None" using loop_running by (auto simp: loop_inv_def)
  then show ?case using timer loop_ok_steps(2) by (simp add: loop_inv_def)
next
  case (leave s)
  then show ?case using loop_ok_steps(3) [of _ "wait_count s" "timed_out s"] by (simp add: loop_inv_def)
qed (erule loop_inv_cong [rotated -1]; auto)+

lemma stop_inv_reached:
  assumes "stop_begins s0" "stop_step\<^sup>*\<^sup>* s0 s"
  shows "groups_inv s0 s \<and> loop_inv s"
  using assms(2)
proof (induction rule: rtranclp_induct)
  case base
  then show ?case using assms(1) by (auto simp: stop_begins_def groups_inv_def loop_inv_def loop_ok_def group_inv_def)
qed (use groups_inv_step loop_inv_step in blast)

lemma all_heard: "3 \<le> card {g. f g = Heard} \<Longrightarrow> f g = Heard" for g :: group
proof -
  assume "3 \<le> card {g. f g = Heard}"
  moreover have "card (UNIV :: group set) = 3" by (simp add: groups_UNIV)
  ultimately have "{g. f g = Heard} = UNIV" by (intro card_seteq) simp_all
  then show ?thesis by blast
qed

lemma stop_wait_events:
  "k + length gs \<le> 3 \<Longrightarrow> stop_wait k (map group_event gs @ evs) = (if k + length gs < 3 then stop_wait (k + length gs) evs else Some None)"
proof (induction gs arbitrary: k)
  case Nil
  then show ?case by (cases evs) auto
next
  case (Cons g gs)
  then show ?case using Cons.IH [of "Suc k"] by (cases g) (simp_all add: group_event_def)
qed

text \<open>
  C34: When the executor reports that it stopped without an error, every job that was under way when the stop began has ended -
  in each of the three groups, whatever ended or was added meanwhile. Otherwise the error is the timeout and
  the timer fired first. Either way the result is the one that the loop computes from what it has heard.
\<close>

theorem stop_waits_for_running_jobs:
  assumes "stop_begins s0" "stop_step\<^sup>*\<^sup>* s0 s" "stop_done s = Some r"
  shows "(r = None \<and> (\<forall>g. active s0 g \<inter> active s g = {}) \<or> r = Some ErrStopJobsTimedOut \<and> last (heard s) = StopTimer) \<and>
    stop_wait 0 (heard s) = Some r"
proof -
  have inv: "groups_inv s0 s" "loop_ok {g. waiters s g = Heard} (wait_count s) (timed_out s) (heard s) (Some r)"
    using stop_inv_reached [OF assms(1,2)] assms(3) by (simp_all add: loop_inv_def)
  obtain gs where gs: "heard s = map group_event gs @ (if timed_out s then [StopTimer] else [])" "length gs = wait_count s"
    using inv(2) by (auto simp: loop_ok_def)
  show ?thesis
  proof (cases "timed_out s")
    case True
    then have "wait_count s < 3" "r = Some ErrStopJobsTimedOut" using inv(2) by (auto simp: loop_ok_def)
    then show ?thesis using True gs by (simp add: stop_wait_events)
  next
    case False
    have "card {g. waiters s g = Heard} \<le> card (UNIV :: group set)" by (rule card_mono) simp_all
    then have "card {g. waiters s g = Heard} \<le> 3" by (simp add: groups_UNIV)
    with False have counted: "3 \<le> card {g. waiters s g = Heard}" "r = None" "wait_count s = 3"
      using inv(2) by (auto simp: loop_ok_def split: if_splits)
    then have "active s0 g \<inter> active s g = {}" for g
      using all_heard [OF counted(1), of g] inv(1) by (auto simp: groups_inv_def group_inv_def)
    moreover have "stop_wait 0 (heard s) = Some r" using False gs counted(2,3) stop_wait_events [of 0 gs "[]"] by simp
    ultimately show ?thesis using counted(2) by simp
  qed
qed

lemma idle_group_is_heard:
  assumes "waiters s g = Starting" "groups s g = \<lparr>wg_count = 0, wg_locked = False\<rparr>" "\<not> timed_out s" "wait_count s < 3"
  shows "stop_step\<^sup>*\<^sup>* s (s\<lparr>waiters := (waiters s)(g := Heard), wait_count := Suc (wait_count s), heard := heard s @ [group_event g]\<rparr>)"
proof -
  let ?wg = "\<lparr>wg_count = 0, wg_locked = True\<rparr>"
  let ?s1 = "s\<lparr>groups := (groups s)(g := ?wg), waiters := (waiters s)(g := Waiting)\<rparr>"
  let ?s2 = "s\<lparr>waiters := (waiters s)(g := Reported)\<rparr>"
  have idle: "(groups s)(g := \<lparr>wg_count = 0, wg_locked = False\<rparr>) = groups s" using assms(2) by (simp add: fun_upd_idem)
  have "stop_step s ?s1" using stop_step.wait_begins [of s g ?wg] assms by (simp add: wait_group_defs)
  moreover have "stop_step ?s1 ?s2"
    using stop_step.wait_returns [of ?s1 g "\<lparr>wg_count = 0, wg_locked = False\<rparr>"] by (simp add: wait_group_defs idle)
  moreover have "stop_step ?s2 (s\<lparr>waiters := (waiters s)(g := Heard), wait_count := Suc (wait_count s), heard := heard s @ [group_event g]\<rparr>)"
    using stop_step.hear [of ?s2 g] assms by simp
  ultimately show ?thesis by (meson converse_rtranclp_into_rtranclp rtranclp.rtrancl_refl)
qed

text \<open>One job is under way when the stop begins; it ends, and the three groups are heard.\<close>

definition one_job :: stop_state where
  "one_job = \<lparr>groups = \<lambda>g. \<lparr>wg_count = (if g = StandardJobs then 1 else 0), wg_locked = False\<rparr>, waiters = \<lambda>_. Starting,
     wait_count = 0, timed_out = False, stop_done = None,
     active = \<lambda>g. if g = StandardJobs then {1} else {}, labels = {1}, heard = []\<rparr>"

definition quiet :: "group set \<Rightarrow> stop_event list \<Rightarrow> stop_state" where
  "quiet G evs = \<lparr>groups = \<lambda>_. \<lparr>wg_count = 0, wg_locked = False\<rparr>, waiters = \<lambda>g. if g \<in> G then Heard else Starting,
     wait_count = card G, timed_out = False, stop_done = None, active = \<lambda>_. {}, labels = {1}, heard = evs\<rparr>"

lemma quiet_step:
  assumes "g \<notin> G" "card G < 3"
  shows "stop_step\<^sup>*\<^sup>* (quiet G evs) (quiet (insert g G) (evs @ [group_event g]))"
proof -
  have "(\<lambda>h. if h \<in> G then Heard else Starting)(g := Heard) = (\<lambda>h. if h \<in> insert g G then Heard else Starting)" by auto
  then show ?thesis using idle_group_is_heard [of "quiet G evs" g] assms by (simp add: quiet_def)
qed

theorem stop_waits_for_running_jobs_witness:
  "\<exists>s. stop_step\<^sup>*\<^sup>* one_job s \<and> stop_done s = Some None \<and> active one_job StandardJobs = {1} \<and> active s StandardJobs \<inter> {1} = {}"
proof -
  let ?evs = "[StandardJobsDone, SingletonsDone, LimitModeDone]"
  let ?wg = "\<lparr>wg_count = 0, wg_locked = False\<rparr>"
  have "(groups one_job)(StandardJobs := ?wg) = (\<lambda>_. ?wg)" "(active one_job)(StandardJobs := {}) = (\<lambda>_. {})"
    by (auto simp: one_job_def fun_eq_iff)
  then have "stop_step one_job (quiet {} [])"
    using stop_step.job_done [of one_job StandardJobs ?wg 1] by (simp add: one_job_def quiet_def wg_Done_def)
  also have "stop_step\<^sup>*\<^sup>* (quiet {} []) (quiet {StandardJobs} [StandardJobsDone])"
    using quiet_step [of StandardJobs "{}" "[]"] by (simp add: group_event_def)
  also have "stop_step\<^sup>*\<^sup>* \<dots> (quiet {SingletonJobs, StandardJobs} [StandardJobsDone, SingletonsDone])"
    using quiet_step [of SingletonJobs "{StandardJobs}" "[StandardJobsDone]"] by (simp add: group_event_def)
  also have "stop_step\<^sup>*\<^sup>* \<dots> (quiet {LimitModeJobs, SingletonJobs, StandardJobs} ?evs)"
    using quiet_step [of LimitModeJobs "{SingletonJobs, StandardJobs}" "[StandardJobsDone, SingletonsDone]"]
    by (simp add: group_event_def)
  also have "stop_step \<dots> ((quiet {LimitModeJobs, SingletonJobs, StandardJobs} ?evs)\<lparr>stop_done := Some None\<rparr>)" (is "stop_step _ ?fin")
    using stop_step.leave [of "quiet {LimitModeJobs, SingletonJobs, StandardJobs} ?evs"] by (simp add: quiet_def)
  finally have final: "stop_step\<^sup>*\<^sup>* one_job ?fin" "stop_done ?fin = Some None" by simp_all
  have "stop_begins one_job" by (simp add: stop_begins_def one_job_def)
  then have "active one_job StandardJobs \<inter> active ?fin StandardJobs = {}"
    using stop_waits_for_running_jobs [of one_job ?fin None] final by blast
  moreover have one: "active one_job StandardJobs = {1}" by (simp add: one_job_def)
  ultimately have "active ?fin StandardJobs \<inter> {1} = {}" by blast
  then show ?thesis using final one by blast
qed

end
