(* ===== verification/Monitoring.thy ===== *)
theory Monitoring
  imports DispatchTheorems
begin

text \<open>
  What the monitors of a scheduler are told: the calls of the three interfaces, which message of the scheduler
  and which event of a run makes which call, and the sequence of calls that one run produces.
\<close>

section \<open>The interfaces\<close>

datatype monitor_call =
    SchedulerStarted
  | SchedulerStopped
  | SchedulerShutdown
  | JobRegistered uuid
  | JobUnregistered uuid
  | MonitorJobStarted
  | MonitorJobRunning
  | MonitorJobFailed error
  | MonitorJobCompleted
  | MonitorJobExecutionTime int
  | MonitorJobSchedulingDelay "gtime option" gtime
  | MonitorConcurrencyLimitReached string uuid

fun message_call :: "message \<Rightarrow> monitor_call option" where
  "message_call (NotifyJobRegistered uid) = Some (JobRegistered uid)"
| "message_call (NotifyJobUnregistered uid) = Some (JobUnregistered uid)"
| "message_call NotifySchedulerStopped = Some SchedulerStopped"
| "message_call NotifySchedulerStarted = Some SchedulerStarted"
| "message_call NotifySchedulerShutdown = Some SchedulerShutdown"
| "message_call _ = None"

fun event_call :: "event \<Rightarrow> monitor_call option" where
  "event_call JobStarted = Some MonitorJobStarted"
| "event_call JobRunning = Some MonitorJobRunning"
| "event_call (JobFailed err) = Some (MonitorJobFailed err)"
| "event_call JobCompleted = Some MonitorJobCompleted"
| "event_call (JobExecutionTime d) = Some (MonitorJobExecutionTime d)"
| "event_call (JobSchedulingDelay due start) = Some (MonitorJobSchedulingDelay due start)"
| "event_call (ConcurrencyLimitReached kind uid) = Some (MonitorConcurrencyLimitReached kind uid)"
| "event_call _ = None"

definition monitor_calls :: "'a run \<Rightarrow> monitor_call list" where
  "monitor_calls m = List.map_filter event_call (fst m)"

text \<open>The statuses that \<open>Monitor.IncrementJob\<close> counts.\<close>

definition counted :: "'a run \<Rightarrow> JobStatus list" where
  "counted m = List.map_filter (\<lambda>ev. case ev of IncrementJob st \<Rightarrow> Some st | _ \<Rightarrow> None) (fst m)"

section \<open>The calls of one run\<close>

lemma map_filter_simps [simp]:
  "List.map_filter f [] = []" "List.map_filter f (ev # evs) = (case f ev of None \<Rightarrow> [] | Some c \<Rightarrow> [c]) @ List.map_filter f evs"
  "List.map_filter f (evs @ fs) = List.map_filter f evs @ List.map_filter f fs"
  by (simp_all add: List.map_filter_def split: option.split)

lemma monitor_calls_bind:
  "monitor_calls (run_bind m f) = monitor_calls m @ (case snd m of None \<Rightarrow> [] | Some y \<Rightarrow> monitor_calls (f y))"
  "counted (run_bind m f) = counted m @ (case snd m of None \<Rightarrow> [] | Some y \<Rightarrow> counted (f y))"
  by (cases m; auto simp: monitor_calls_def counted_def run_bind_def split: option.split prod.split)+

lemma monitor_calls_simps [simp]:
  "monitor_calls (run_return y) = []" "monitor_calls (es, r) = List.map_filter event_call es"
  "monitor_calls (emit_if b es) = (if b then List.map_filter event_call es else [])"
  "monitor_calls (call_listener w f l) = []" "monitor_calls (sendOutForRescheduling w jIn) = []"
  "monitor_calls (call_task w j) = []" "monitor_calls (send_or_done w (OutCompleted u b)) = []"
  "monitor_calls (send_or_done w (OutTiming u s t)) = []" "monitor_calls (send_or_done w (OutForNextRunUpdate u)) = []"
  "monitor_calls (incrementJobCounter x st) = []" "monitor_calls (recordJobTiming x s t) = []"
  "monitor_calls (recordJobTimingWithStatus x s t st err) = []" "monitor_calls (deferring (ReleaseLock h) m) = monitor_calls m"
  by (auto simp: monitor_calls_def emit_if_def run_return_def call_listener_def sendOutForRescheduling_def call_task_def
    callJobWithRecover_def send_or_done_def incrementJobCounter_def recordJobTiming_def recordJobTimingWithStatus_def
    deferring_def run_bind_def split: option.split prod.split)

text \<open>What the monitor hears of a run: its start and delay, then its veto, or that it runs, its outcome and its duration.\<close>

definition begin_calls :: "world \<Rightarrow> internalJob \<Rightarrow> monitor_call list" where
  "begin_calls w j = MonitorJobStarted # (if nextScheduled j = [] then []
     else [MonitorJobSchedulingDelay (scheduledTimeForRun (nextScheduled j) (w_now w 1)) (w_now w 1)])"

definition outcome_calls :: "world \<Rightarrow> error option \<Rightarrow> monitor_call list" where
  "outcome_calls w err = [case err of Some e \<Rightarrow> MonitorJobFailed e | None \<Rightarrow> MonitorJobCompleted,
     MonitorJobExecutionTime (Sub (w_now w 4) (w_now w 2))]"

definition veto :: "world \<Rightarrow> internalJob \<Rightarrow> error option" where
  "veto w j = the (snd (call_listener w (beforeJobRunsSkipIfBeforeFuncErrors j) OnBeforeSkip))"

definition task_error :: "world \<Rightarrow> internalJob \<Rightarrow> error option" where
  "task_error w j = the (snd (call_task w j))"

lemma counted_simps [simp]:
  "counted (run_return y) = []" "counted (es, r) = List.map_filter (\<lambda>ev. case ev of IncrementJob st \<Rightarrow> Some st | _ \<Rightarrow> None) es"
  "counted (emit_if b es) = (if b then counted (es, Some ()) else [])"
  "counted (call_listener w f l) = []" "counted (sendOutForRescheduling w jIn) = []"
  "counted (call_task w j) = []" "counted (send_or_done w (OutCompleted u b)) = []"
  "counted (send_or_done w (OutTiming u s t)) = []" "counted (send_or_done w (OutForNextRunUpdate u)) = []"
  "counted (incrementJobCounter x st) = (if x_monitor x then [st] else [])" "counted (recordJobTiming x s t) = []"
  "counted (recordJobTimingWithStatus x s t st err) = []" "counted (deferring (ReleaseLock h) m) = counted m"
  by (auto simp: counted_def emit_if_def run_return_def call_listener_def sendOutForRescheduling_def call_task_def
    callJobWithRecover_def send_or_done_def incrementJobCounter_def recordJobTiming_def recordJobTimingWithStatus_def
    deferring_def run_bind_def split: option.split prod.split)

lemma finish_calls:
  assumes "smooth w"
  shows "monitor_calls (finish_run w x j (w_now w 2) err) = (if x_schedulerMonitor x then outcome_calls w err else [])"
    "counted (finish_run w x j (w_now w 2) err) = (if x_monitor x then [if err = None then Success else Fail] else [])"
proof -
  obtain r where after: "snd (call_listener w (afterJobRuns j) OnAfter) = Some r" by (rule smooth_listener [OF assms])
  obtain q where failed: "snd (call_listener w (afterJobRunsWithError j) (OnAfterError (the err))) = Some q"
    by (rule smooth_listener [OF assms])
  note steps = finish_run_def Let_def monitor_calls_bind messages_bind(2) smooth_steps(2) [OF assms] outcome_calls_def
  show "monitor_calls (finish_run w x j (w_now w 2) err) = (if x_schedulerMonitor x then outcome_calls w err else [])"
    "counted (finish_run w x j (w_now w 2) err) = (if x_monitor x then [if err = None then Success else Fail] else [])"
    using after failed by (cases err; simp add: steps)+
qed

lemma skip_calls:
  "smooth w \<Longrightarrow> monitor_calls (skip_run w x jIn) = [] \<and> counted (skip_run w x jIn) = (if x_monitor x then [Skip] else [])"
  by (simp add: skip_run_def sendOutForNextRunUpdate_def monitor_calls_bind messages_bind(2) smooth_steps(6))

lemma body_calls:
  assumes "smooth w" "snd (run_body w x j jIn) \<noteq> None"
  shows "monitor_calls (run_body w x j jIn) = (if x_schedulerMonitor x then begin_calls w j @ (case veto w j of
       Some e \<Rightarrow> [MonitorJobFailed e] | None \<Rightarrow> MonitorJobRunning # outcome_calls w (task_error w j)) else [])"
    "counted (run_body w x j jIn) = (if x_monitor x \<and> veto w j = None then [if task_error w j = None then Success else Fail] else [])"
proof -
  obtain r where before: "snd (call_listener w (beforeJobRuns j) OnBefore) = Some r" by (rule smooth_listener [OF assms(1)])
  obtain e where skip: "snd (call_listener w (beforeJobRunsSkipIfBeforeFuncErrors j) OnBeforeSkip) = Some e"
    by (rule smooth_listener [OF assms(1)])
  have veto: "veto w j = e" using skip by (simp add: veto_def)
  note steps = before skip smooth_steps(2,6) [OF assms(1)] messages_bind(2) monitor_calls_bind begin_calls_def
  have "monitor_calls (run_body w x j jIn) = (if x_schedulerMonitor x then begin_calls w j @ (case veto w j of
       Some e \<Rightarrow> [MonitorJobFailed e] | None \<Rightarrow> MonitorJobRunning # outcome_calls w (task_error w j)) else []) \<and>
     counted (run_body w x j jIn) = (if x_monitor x \<and> veto w j = None then [if task_error w j = None then Success else Fail] else [])"
  proof (cases e)
    case (Some err)
    then show ?thesis by (simp add: run_body_def Let_def steps veto)
  next
    case None
    then obtain err where "snd (call_task w j) = Some err"
      using assms(2) by (auto simp: run_body_def Let_def steps split: option.splits)
    then show ?thesis using None messages_finish [OF assms(1), of x j "w_now w 2" err]
      by (simp add: run_body_def Let_def steps veto task_error_def finish_calls [OF assms(1)])
  qed
  then show "monitor_calls (run_body w x j jIn) = (if x_schedulerMonitor x then begin_calls w j @ (case veto w j of
       Some e \<Rightarrow> [MonitorJobFailed e] | None \<Rightarrow> MonitorJobRunning # outcome_calls w (task_error w j)) else [])"
    "counted (run_body w x j jIn) = (if x_monitor x \<and> veto w j = None then [if task_error w j = None then Success else Fail] else [])"
    by blast+
qed

lemma pair_calls:
  "monitor_calls (ev # fst m, r) = (case event_call ev of None \<Rightarrow> [] | Some c \<Rightarrow> [c]) @ monitor_calls m"
  "counted (ev # fst m, r) = (case ev of IncrementJob st \<Rightarrow> [st] | _ \<Rightarrow> []) @ counted m"
  "monitor_calls ([TakeLock h n], r) = []" "counted ([TakeLock h n], r) = []" "snd (deferring ev m) = snd m"
  by (simp_all add: monitor_calls_def counted_def deferring_def split: event.split option.split)

text \<open>
  C18: The monitors hear the same story of every run. A run that may not start is not reported. One that the elector or a locker
  refuses is counted as skipped and not reported further. Otherwise the scheduler's monitor hears that the job started,
  with its delay if it was scheduled, and then either that a listener vetoed it, or that it runs, how it ended,
  and how long it took; the run is counted once, as a success or a failure, unless it was vetoed.
\<close>

theorem monitors_follow_a_run:
  assumes "smooth w" "snd (runJob w x (Some j) jIn) \<noteq> None"
  shows "monitor_calls (runJob w x (Some j) jIn) =
      (if x_schedulerMonitor x \<and> may_start w j \<and> is_admitted w x j then
         begin_calls w j @ (case veto w j of
           Some e \<Rightarrow> [MonitorJobFailed e] | None \<Rightarrow> MonitorJobRunning # outcome_calls w (task_error w j)) else []) \<and>
    counted (runJob w x (Some j) jIn) =
      (if \<not> x_monitor x \<or> \<not> may_start w j then [] else if \<not> is_admitted w x j then [Skip]
       else if veto w j \<noteq> None then [] else [if task_error w j = None then Success else Fail])"
proof (cases "may_start w j")
  case False
  then show ?thesis by (simp add: runJob_cases)
next
  case started: True
  note skip = skip_calls [OF assms(1)] and body = body_calls [OF assms(1), of x j jIn]
  show ?thesis
  proof (cases "x_elector x")
    case True
    then show ?thesis using started assms(2) body skip
      by (auto simp: runJob_cases is_admitted_def pair_calls simp del: monitor_calls_simps(2) counted_simps(2))
  next
    case False
    obtain r where refused: "snd (call_listener w (afterLockError j) (OnLockError (the (w_lock w)))) = Some r"
      by (rule smooth_listener [OF assms(1)])
    show ?thesis
    proof (cases "lock_of x j")
      case None
      then show ?thesis using started False assms(2) body by (simp add: runJob_cases is_admitted_def)
    next
      case (Some h)
      then show ?thesis using started False assms(2) body skip refused
        by (cases "w_lock w") (auto simp: runJob_cases locked_run_def is_admitted_def monitor_calls_bind messages_bind(2) pair_calls
          simp del: monitor_calls_simps(2) counted_simps(2))
    qed
  qed
qed

definition watched :: executor where
  "watched = bare\<lparr>x_monitor := True, x_schedulerMonitor := True\<rparr>"

theorem monitors_follow_a_run_witness:
  "monitor_calls (runJob (calm None (Some [])) watched (Some (timed 7)) \<lparr>in_id = 7, shouldSendOut = True\<rparr>) =
     [MonitorJobStarted, MonitorJobRunning, MonitorJobCompleted, MonitorJobExecutionTime 2] \<and>
   counted (runJob (calm None (Some [])) watched (Some (timed 7)) \<lparr>in_id = 7, shouldSendOut = True\<rparr>) = [Success]"
proof -
  let ?w = "calm None (Some [])" and ?r = "\<lparr>in_id = 7, shouldSendOut = True\<rparr>"
  have same: "lock_of watched (timed 7) = Some 5" "x_elector watched = False" "x_monitor watched" "x_schedulerMonitor watched"
    "is_admitted ?w watched (timed 7)" "nextScheduled (timed 7) = []"
    by (simp_all add: watched_def lock_of_def bare_def is_admitted_def timed_def plain_job_def every_def zero_job_def)
  have "snd (runJob ?w watched (Some (timed 7)) ?r) = Some ()"
    using messages_body [of ?w "timed 7" "first_error []" watched ?r] same by (simp add: runJob_cases locked_run_def deferring_def)
  then show ?thesis
    using monitors_follow_a_run [of ?w watched "timed 7" ?r] same
    by (simp add: begin_calls_def outcome_calls_def veto_def task_error_def first_error.simps Sub_def)
qed

end
