(* ===== verification/Constructors.thy ===== *)
theory Constructors
  imports JobTheorems
begin

text \<open>
  The functions of job.go with which a caller writes a definition: at-times, days, tasks and the seven kinds of
  job. A definition written with them is refused for its numbers alone, never for a missing part.
\<close>

section \<open>Parts\<close>

definition NewAtTime :: "64 word \<Rightarrow> 64 word \<Rightarrow> 64 word \<Rightarrow> atTime option" where
  "NewAtTime hours minutes seconds = Some \<lparr>at_hours = hours, at_minutes = minutes, at_seconds = seconds\<rparr>"

definition NewAtTimes :: "atTime option \<Rightarrow> atTime option list \<Rightarrow> atTimes" where
  "NewAtTimes at ats = Some (at # ats)"

definition NewWeekdays :: "int \<Rightarrow> int list \<Rightarrow> int list option" where
  "NewWeekdays weekday weekdays = Some (weekday # weekdays)"

definition NewDaysOfTheMonth :: "int \<Rightarrow> int list \<Rightarrow> int list option" where
  "NewDaysOfTheMonth day moreDays = Some (day # moreDays)"

text \<open>A nil \<open>AtTime\<close> panics.\<close>

definition TimeFromAtTime :: "atTime option \<Rightarrow> location \<Rightarrow> gtime option" where
  "TimeFromAtTime at l = map_option (\<lambda>a. atTime_time a l) at"

definition NewTask :: "go_value \<Rightarrow> go_value list \<Rightarrow> task option" where
  "NewTask f params = Some \<lparr>t_function = f, t_parameters = params\<rparr>"

section \<open>Definitions\<close>

definition newDefaultCronImplementation :: "bool \<Rightarrow> Cron" where
  "newDefaultCronImplementation seconds = Default \<lparr>withSeconds = seconds, parsed = None\<rparr>"

definition NewDefaultCron :: "bool \<Rightarrow> Cron" where
  "NewDefaultCron cronStatementsIncludeSeconds = Default \<lparr>withSeconds = cronStatementsIncludeSeconds, parsed = None\<rparr>"

definition CronJob :: "string \<Rightarrow> bool \<Rightarrow> jobDefinition" where
  "CronJob tab seconds = cronJobDefinition tab (newDefaultCronImplementation seconds)"

definition DurationJob :: "int \<Rightarrow> jobDefinition" where
  "DurationJob d = durationJobDefinition d"

definition DurationRandomJob :: "int \<Rightarrow> int \<Rightarrow> jobDefinition" where
  "DurationRandomJob minDuration maxDuration = durationRandomJobDefinition minDuration maxDuration"

definition DailyJob :: "64 word \<Rightarrow> atTimes \<Rightarrow> jobDefinition" where
  "DailyJob interval ats = dailyJobDefinition interval ats"

definition WeeklyJob :: "64 word \<Rightarrow> int list option \<Rightarrow> atTimes \<Rightarrow> jobDefinition" where
  "WeeklyJob interval daysOfTheWeek ats = weeklyJobDefinition interval daysOfTheWeek ats"

definition MonthlyJob :: "64 word \<Rightarrow> int list option \<Rightarrow> atTimes \<Rightarrow> jobDefinition" where
  "MonthlyJob interval daysOfTheMonth ats = monthlyJobDefinition interval daysOfTheMonth ats"

definition OneTimeJob :: "OneTimeJobStartAt \<Rightarrow> jobDefinition" where
  "OneTimeJob startAt = oneTimeJobDefinition startAt"

lemmas constructor_defs = CronJob_def DurationJob_def DurationRandomJob_def DailyJob_def WeeklyJob_def MonthlyJob_def
  OneTimeJob_def newDefaultCronImplementation_def

section \<open>Which definitions are accepted\<close>

text \<open>Readings of the clock as a caller writes them.\<close>

type_synonym clock_reading = "64 word \<times> 64 word \<times> 64 word"

definition at_reading_time :: "clock_reading \<Rightarrow> atTime option" where
  "at_reading_time c = (case c of (h, m, s) \<Rightarrow> NewAtTime h m s)"

definition is_reading :: "clock_reading \<Rightarrow> bool" where
  "is_reading c \<longleftrightarrow> (case c of (h, m, s) \<Rightarrow> h \<le> 23 \<and> m \<le> 59 \<and> s \<le> 59)"

definition accepted :: "parser \<Rightarrow> internalJob \<Rightarrow> location \<Rightarrow> gtime \<Rightarrow> jobDefinition \<Rightarrow> bool" where
  "accepted parse j l now def \<longleftrightarrow> (\<exists>j'. definition_setup parse def j l now = Inr j')"

lemma valid_reading [simp]: "valid_at (at_reading_time c) \<longleftrightarrow> is_reading c"
  by (cases c) (simp add: valid_at_def at_reading_time_def is_reading_def NewAtTime_def)

lemma readings_convert:
  "(\<exists>ts. convertAtTimesToDateTime (NewAtTimes (at_reading_time c) (map at_reading_time cs)) l = Inr ts) \<longleftrightarrow>
     (\<forall>c\<in>set (c # cs). is_reading c)"
  by (auto simp: convertAtTimes_ok NewAtTimes_def)

lemma split_days_accepts:
  "(\<exists>p. split_days ds a b = Inr p) \<longleftrightarrow> (\<forall>d\<in>set ds. d \<noteq> 0 \<and> \<bar>d\<bar> \<le> 31)"
  by (induction ds a b rule: split_days.induct) (auto split: if_splits)

lemma times_kept: "future_times (removeSliceDuplicatesTimeOnSortedSlice (SortStableTimes ts)) now = [] \<longleftrightarrow>
   (\<forall>t\<in>set ts. \<not> After t now)"
proof -
  let ?us = "removeSliceDuplicatesTimeOnSortedSlice (SortStableTimes ts)"
  have us: "strict_by inst ?us" "inst ` set ?us = inst ` set ts" using dedup_strict [of ts] by simp_all
  have "future_times ?us now = [] \<longleftrightarrow> (\<forall>i\<in>inst ` set ?us. \<not> inst now < i)"
    by (simp add: future_times_strict [OF us(1)] filter_empty_conv After_def)
  then show ?thesis unfolding us(2) by (simp add: After_def)
qed

lemma accepted_at_times:
  "(\<exists>ts. atTimes_switch a b c d (convertAtTimesToDateTime (NewAtTimes (at_reading_time r) (map at_reading_time rs)) l) = Inr ts) \<longleftrightarrow>
     list_all is_reading (r # rs)"
  using readings_convert [of r rs l] by (simp add: atTimes_switch_ok list_all_iff)

lemma accepted_calendar:
  "accepted parse j l now (DailyJob i (NewAtTimes (at_reading_time r) (map at_reading_time rs))) \<longleftrightarrow>
     i \<noteq> 0 \<and> list_all is_reading (r # rs)"
  "accepted parse j l now (WeeklyJob i (NewWeekdays d ds) (NewAtTimes (at_reading_time r) (map at_reading_time rs))) \<longleftrightarrow>
     i \<noteq> 0 \<and> list_all is_reading (r # rs)"
  "accepted parse j l now (MonthlyJob i (NewDaysOfTheMonth d ds) (NewAtTimes (at_reading_time r) (map at_reading_time rs))) \<longleftrightarrow>
     i \<noteq> 0 \<and> list_all (\<lambda>d. d \<noteq> 0 \<and> \<bar>d\<bar> \<le> 31) (d # ds) \<and> list_all is_reading (r # rs)"
proof -
  note [simp] = accepted_def constructor_defs NewWeekdays_def NewDaysOfTheMonth_def
  show "accepted parse j l now (DailyJob i (NewAtTimes (at_reading_time r) (map at_reading_time rs))) \<longleftrightarrow>
      i \<noteq> 0 \<and> list_all is_reading (r # rs)"
    by (auto simp: daily_setup_def ex_simps accepted_at_times [simplified])
  show "accepted parse j l now (WeeklyJob i (NewWeekdays d ds) (NewAtTimes (at_reading_time r) (map at_reading_time rs))) \<longleftrightarrow>
      i \<noteq> 0 \<and> list_all is_reading (r # rs)"
    by (auto simp: weekly_setup_def ex_simps accepted_at_times [simplified])
  show "accepted parse j l now (MonthlyJob i (NewDaysOfTheMonth d ds) (NewAtTimes (at_reading_time r) (map at_reading_time rs))) \<longleftrightarrow>
      i \<noteq> 0 \<and> list_all (\<lambda>d. d \<noteq> 0 \<and> \<bar>d\<bar> \<le> 31) (d # ds) \<and> list_all is_reading (r # rs)"
    using accepted_at_times [of ErrMonthlyJobAtTimesNil ErrMonthlyJobAtTimeNil ErrMonthlyJobHours ErrMonthlyJobMinutesSeconds r rs l]
    unfolding list_all_iff split_days_accepts [of "d # ds" "[]" "[]", symmetric]
    by (auto simp: monthly_setup_def simp del: split_days.simps split: prod.splits)
qed

text \<open>
  C24: Which definitions are accepted, for each kind of job but cron: an interval has to be positive, the bounds of a random
  interval positive and in order, an interval of days, weeks or months not zero, a reading of the clock at most
  23:59:59, a day of the month between 1 and 31 or -1 and -31, and a start of a one-time job in the future. Nothing else
  is refused.
\<close>

theorem accepted_definitions:
  fixes r :: clock_reading and rs :: "clock_reading list"
  defines "ats \<equiv> NewAtTimes (at_reading_time r) (map at_reading_time rs)"
  shows "(accepted parse j l now (DurationJob d) \<longleftrightarrow> 0 < d) \<and>
    (accepted parse j l now (DurationRandomJob mn mx) \<longleftrightarrow> 0 < mn \<and> mn < mx) \<and>
    (accepted parse j l now (DailyJob i ats) \<longleftrightarrow> i \<noteq> 0 \<and> list_all is_reading (r # rs)) \<and>
    (accepted parse j l now (WeeklyJob i (NewWeekdays wd wds) ats) \<longleftrightarrow> i \<noteq> 0 \<and> list_all is_reading (r # rs)) \<and>
    (accepted parse j l now (MonthlyJob i (NewDaysOfTheMonth md mds) ats) \<longleftrightarrow>
       i \<noteq> 0 \<and> list_all (\<lambda>d. d \<noteq> 0 \<and> \<bar>d\<bar> \<le> 31) (md # mds) \<and> list_all is_reading (r # rs)) \<and>
    accepted parse j l now (OneTimeJob OneTimeJobStartImmediately) \<and>
    (accepted parse j l now (OneTimeJob (OneTimeJobStartDateTimes ts)) \<longleftrightarrow> startImmediately j \<or> list_ex (\<lambda>t. After t now) ts)"
proof -
  have duration: "accepted parse j l now (DurationJob d) \<longleftrightarrow> 0 < d"
    by (auto simp: accepted_def constructor_defs duration_setup_def)
  have random: "accepted parse j l now (DurationRandomJob mn mx) \<longleftrightarrow> 0 < mn \<and> mn < mx"
    by (auto simp: accepted_def constructor_defs durationRandom_setup_def)
  have immediately: "accepted parse j l now (OneTimeJob OneTimeJobStartImmediately)"
    by (simp add: accepted_def constructor_defs oneTime_setup_def Let_def)
  have at_times: "accepted parse j l now (OneTimeJob (OneTimeJobStartDateTimes ts)) \<longleftrightarrow>
      startImmediately j \<or> list_ex (\<lambda>t. After t now) ts"
    using times_kept [of ts now] by (auto simp: accepted_def constructor_defs oneTime_setup_def Let_def list_ex_iff)
  show ?thesis unfolding ats_def by (intro conjI duration random immediately at_times accepted_calendar)
qed

end
