(* ===== verification/OnSchedule.thy ===== *)
theory OnSchedule
  imports Timetable
begin

text \<open>
  The times at which jobs run are times of their schedules: every run that the scheduler stores or arms is reached
  from the job's first run by steps of its schedule, however late runs and messages are. Excepted are jobs whose interval counts
  from the completion of their runs.
\<close>

section \<open>Times of a schedule\<close>

text \<open>The draws of a random schedule may differ from step to step.\<close>

inductive along :: "jobSchedule option \<Rightarrow> gtime \<Rightarrow> gtime \<Rightarrow> bool" for sch t where
  here: "along sch t t"
| later: "along sch t u \<Longrightarrow> sch = Some k \<Longrightarrow> sched_next rnd k u = Some v \<Longrightarrow> \<not> IsZero v \<Longrightarrow> along sch t v"

lemma along_next: "along (j_schedule j) t u \<Longrightarrow> job_next rnd j u = Some v \<Longrightarrow> \<not> IsZero v \<Longrightarrow> along (j_schedule j) t v"
  by (auto simp: job_next_def intro: along.later split: option.splits)

lemma along_run_from:
  assumes "run_from (job_next rnd j) u v" "along (j_schedule j) t u"
  shows "along (j_schedule j) t v"
  using assms by (induction rule: run_from.induct) (auto intro: along_next)

lemma advancePastNow_run: "advancePastNow nxt now u = Some (Some t) \<Longrightarrow> run_from nxt u t"
proof (induction nxt now u rule: advancePastNow.induct)
  case (1 nxt now u)
  then show ?case
    by (subst (asm) (2) advancePastNow.simps) (auto intro: run_from.intros split: if_splits option.splits)
qed

lemma advanceNextPastDuplicates_run: "advanceNextPastDuplicates nxt ts u = Some (Some t) \<Longrightarrow> run_from nxt u t"
proof (induction nxt ts u rule: advanceNextPastDuplicates.induct)
  case (1 nxt ts u)
  then show ?case
    by (subst (asm) (2) advanceNextPastDuplicates.simps) (auto intro: run_from.intros split: if_splits option.splits)
qed

lemma reschedule_time_run: "reschedule_time rnd now j u = Some (Some t) \<Longrightarrow> run_from (job_next rnd j) u t"
  by (auto simp: reschedule_time_def intro: run_from.here run_from_trans dest!: advancePastNow_run advanceNextPastDuplicates_run
      split: option.splits if_splits)

section \<open>The invariant\<close>

definition on_schedule :: "internalJob \<Rightarrow> int \<Rightarrow> bool" where
  "on_schedule j i \<longleftrightarrow> (\<exists>t. along (j_schedule j) (startTime j) t \<and> inst t = i)"

definition queue_on_schedule :: "internalJob \<Rightarrow> bool" where
  "queue_on_schedule j \<longleftrightarrow> intervalFromCompletion j \<or> (\<forall>t\<in>set (nextScheduled j). along (j_schedule j) (startTime j) t)"

definition timer_on_schedule :: "scheduler \<Rightarrow> pending_timer \<Rightarrow> bool" where
  "timer_on_schedule s p \<longleftrightarrow>
     (\<forall>j. jobs s (timer_job p) = Some j \<longrightarrow> intervalFromCompletion j \<or> on_schedule j (fires_at p))"

definition keeps_schedule :: "scheduler \<Rightarrow> bool" where
  "keeps_schedule s \<longleftrightarrow> (\<forall>uid j. jobs s uid = Some j \<longrightarrow> queue_on_schedule j) \<and>
     (\<forall>n p. timers s n = Some p \<longrightarrow> timer_on_schedule s p)"

lemma keeps_scheduleD:
  "keeps_schedule s \<Longrightarrow> jobs s uid = Some j \<Longrightarrow> queue_on_schedule j"
  "keeps_schedule s \<Longrightarrow> timers s n = Some p \<Longrightarrow> timer_on_schedule s p"
  by (auto simp: keeps_schedule_def)

text \<open>Most handlers only forget: jobs, timers, or run times.\<close>

definition same_plan :: "internalJob \<Rightarrow> internalJob \<Rightarrow> bool" where
  "same_plan j j' \<longleftrightarrow> j_schedule j' = j_schedule j \<and> startTime j' = startTime j \<and>
     intervalFromCompletion j' = intervalFromCompletion j \<and> set (nextScheduled j') \<subseteq> set (nextScheduled j)"

definition forgets :: "scheduler \<Rightarrow> scheduler \<Rightarrow> bool" where
  "forgets s s' \<longleftrightarrow> (\<forall>uid j'. jobs s' uid = Some j' \<longrightarrow> (\<exists>j. jobs s uid = Some j \<and> same_plan j j')) \<and> timers s' \<subseteq>\<^sub>m timers s"

lemma same_plan_refl [simp]: "same_plan j j"
  by (simp add: same_plan_def)

lemma same_plan_trans: "same_plan j k \<Longrightarrow> same_plan k l \<Longrightarrow> same_plan j l"
  by (auto simp: same_plan_def)

lemma forgets_refl: "forgets s s"
  by (auto simp: forgets_def)

lemma forgets_trans: "forgets s t \<Longrightarrow> forgets t u \<Longrightarrow> forgets s u"
  unfolding forgets_def by (meson map_le_trans same_plan_trans)

lemma forgets_cong: "jobs s' = jobs s \<Longrightarrow> timers s' = timers s \<Longrightarrow> forgets s s'"
  by (auto simp: forgets_def)

lemma forgets_store: "jobs s uid = Some j \<Longrightarrow> same_plan j j' \<Longrightarrow> forgets s (store uid j' s)"
  by (auto simp: forgets_def)

lemma forgets_delete: "forgets s (delete_job uid (job_stop j s))"
  by (auto simp: forgets_def delete_job_def job_stop_def cancel_def timers_timer_Stop map_le_def)

lemma same_plan_queue: "same_plan j j' \<Longrightarrow> queue_on_schedule j \<Longrightarrow> queue_on_schedule j'"
  by (auto simp: same_plan_def queue_on_schedule_def)

lemma forgets_keeps:
  assumes "forgets s s'" "keeps_schedule s"
  shows "keeps_schedule s'"
proof -
  have old: "\<exists>j. jobs s uid = Some j \<and> same_plan j j'" if "jobs s' uid = Some j'" for uid j'
    using assms(1) that by (simp add: forgets_def)
  have "timer_on_schedule s' p" if p: "timers s' n = Some p" for n p
    unfolding timer_on_schedule_def
  proof (intro allI impI)
    fix j' assume "jobs s' (timer_job p) = Some j'"
    then obtain j where j: "jobs s (timer_job p) = Some j" "same_plan j j'" using old by blast
    have "timers s n = Some p" using assms(1) p by (auto simp: forgets_def map_le_def dom_def)
    then show "intervalFromCompletion j' \<or> on_schedule j' (fires_at p)"
      using keeps_scheduleD(2) [OF assms(2), of n p] j by (auto simp: timer_on_schedule_def same_plan_def on_schedule_def)
  qed
  moreover have "queue_on_schedule j'" if "jobs s' uid = Some j'" for uid j'
    using old [OF that] keeps_scheduleD(1) [OF assms(2)] same_plan_queue by blast
  ultimately show ?thesis by (simp add: keeps_schedule_def)
qed

lemma same_plan_pruned: "same_plan j (pruneStaleScheduled now j)"
  by (auto simp: same_plan_def pruneStaleScheduled_def keptScheduled_filter)

lemma forgets_remove: "forgets s (selectRemoveJob uid s)"
  using forgets_trans [OF forgets_cong forgets_delete, of "notifyJobUnregistered (j_id j) s" s for j] forgets_refl
  by (auto simp: selectRemoveJob_def split: option.split)

lemma forgets_removal: "forgets s (delete_job uid (job_stop j (notifyJobUnregistered v s)))"
  by (rule forgets_trans [OF forgets_cong forgets_delete]) simp_all

lemma forgets_tags: "forgets s (removeByTags_loop tags uids s)"
proof (induction tags uids s rule: removeByTags_loop.induct)
  case (2 tags uid uids s)
  let ?s = "case jobs s uid of None \<Rightarrow> s
    | Some j \<Rightarrow> if list_ex (\<lambda>tag. tag \<in> set (j_tags j)) tags then delete_job (j_id j) (job_stop j (notifyJobUnregistered (j_id j) s)) else s"
  have "forgets s ?s" using forgets_removal forgets_refl by (auto split: option.split)
  then show ?case unfolding removeByTags_loop.simps(2) by (rule forgets_trans [OF _ 2])
qed (simp add: forgets_refl)

lemma forgets_stop_loop: "forgets s (stop_loop uids s)"
proof (induction uids arbitrary: s)
  case (Cons uid uids)
  have "forgets s (case jobs s uid of None \<Rightarrow> s | Some j \<Rightarrow> job_stop j s)"
    by (auto simp: forgets_def job_stop_def cancel_def timers_timer_Stop map_le_def split: option.split)
  then show ?case unfolding stop_loop.simps(2) by (rule forgets_trans [OF _ Cons])
qed (simp add: forgets_refl)

lemma forgets_refresh_loop: "forgets s (refresh_loop uids s)"
proof (induction uids arbitrary: s)
  case (Cons uid uids)
  have "forgets s (case jobs s uid of None \<Rightarrow> s | Some j \<Rightarrow> refresh_context uid j s)"
    by (auto simp: forgets_def refresh_context_def WithCancel_def Let_def same_plan_def split: option.split)
  then show ?case unfolding refresh_loop.simps(2) by (rule forgets_trans [OF _ Cons])
qed (simp add: forgets_refl)

lemma forgets_stop:
  assumes "stopScheduler e s = Some s'"
  shows "forgets s s'"
proof -
  let ?s = "if started s then send ExecutorStop s else s"
  let ?t = "refresh_loop (e_iteration e) (stop_loop (e_iteration e) ?s)"
  have "forgets s ?t" by (rule forgets_trans [OF forgets_trans [OF forgets_cong forgets_stop_loop] forgets_refresh_loop]) simp_all
  moreover have "jobs s' = jobs ?t" "timers s' = timers ?t"
    using assms by (auto simp: stopScheduler_def Let_def notifySchedulerStopped_def send_def split: option.splits if_splits)
  ultimately show ?thesis by (simp add: forgets_def)
qed

lemma forgets_messages:
  "forgets s (updateNextScheduled e uid s)" "forgets s (selectExecJobsOutCompleted e uid skipped s)"
  "forgets s (selectJobTimingUpdate uid startedAt completedAt s)"
proof -
  have send: "forgets s (send m t)" if "forgets s t" for m t using that by (simp add: forgets_def)
  have pruned: "same_plan j (f (pruneStaleScheduled now j))" if "\<And>k. same_plan k (f k)" for f j now
    using same_plan_trans [OF same_plan_pruned that] .
  show "forgets s (updateNextScheduled e uid s)"
    using same_plan_pruned forgets_refl by (auto simp: updateNextScheduled_def intro: forgets_store split: option.split)
  show "forgets s (selectExecJobsOutCompleted e uid skipped s)"
    using forgets_refl by (auto simp: selectExecJobsOutCompleted_def Let_def pruneStaleScheduled_def keptScheduled_filter same_plan_def
      intro!: forgets_store split: option.split)
  show "forgets s (selectJobTimingUpdate uid startedAt completedAt s)"
    using forgets_refl by (auto simp: selectJobTimingUpdate_def Let_def same_plan_def intro!: forgets_store send split: option.split)
qed

section \<open>What plans runs\<close>

lemma keeps_arm_next:
  assumes "keeps_schedule s" "jobs s uid = Some j" "j_id j = uid"
    and "intervalFromCompletion j \<or> along (j_schedule j) (startTime j) n"
  shows "keeps_schedule (arm_next e uid j n s)"
proof -
  have kept: "keeps_schedule (timer_Stop (j_timer j) s)"
    by (rule forgets_keeps [OF _ assms(1)]) (auto simp: forgets_def timers_timer_Stop map_le_def)
  have "timer_on_schedule (arm_next e uid j n s) p" if "timers (arm_next e uid j n s) m = Some p" for m p
    using that assms(2,3,4) keeps_scheduleD(2) [OF kept, of m p]
    by (auto simp: arm_next_def AfterFunc_def timer_on_schedule_def on_schedule_def Sub_def s_now_def split: if_splits)
  moreover have "queue_on_schedule k" if "jobs (arm_next e uid j n s) v = Some k" for v k
    using that assms(2,4) keeps_scheduleD(1) [OF assms(1), of v] keeps_scheduleD(1) [OF assms(1,2)]
    by (auto simp: arm_next_def AfterFunc_def queue_on_schedule_def split: if_splits)
  ultimately show ?thesis by (simp add: keeps_schedule_def)
qed

lemma scheduleFrom_along:
  assumes "queue_on_schedule j" "\<not> intervalFromCompletion j"
  shows "along (j_schedule j) (startTime j) (scheduleFrom now j)"
  using assms by (auto simp: scheduleFrom_def queue_on_schedule_def Let_def intro: along.here)

lemma keeps_resched:
  assumes "core_inv s" "keeps_schedule s" "selectExecJobsOutForRescheduling e uid s = Some s'"
  shows "keeps_schedule s'"
proof (cases "is_shutdown s \<or> jobs s uid = None")
  case True
  then show ?thesis using assms(2,3) by (auto simp: selectExecJobsOutForRescheduling_def split: if_splits)
next
  case False
  then obtain j where j: "jobs s uid = Some j" "\<not> is_shutdown s" by auto
  have same: "sorted_job j = j" using core_invD(2) [OF assms(1) j(1)] by (rule sorted_job_id)
  have stored: "store uid j s = s" using j(1) by (simp add: store_def fun_upd_idem)
  have "s' = s \<or> s' = selectRemoveJob uid s \<or> (\<exists>u n. job_next (e_rnd e) j (scheduleFrom (s_now e s) j) = Some u \<and> \<not> IsZero u \<and>
      reschedule_time (e_rnd e) (s_now e s) j u = Some (Some n) \<and> s' = arm_next e uid j n s)"
    using assms(3) j
    by (auto simp: selectExecJobsOutForRescheduling_def Let_def same stored split: if_splits option.splits)
  then consider "s' = s" | "s' = selectRemoveJob uid s"
    | u n where "job_next (e_rnd e) j (scheduleFrom (s_now e s) j) = Some u" "\<not> IsZero u"
        "reschedule_time (e_rnd e) (s_now e s) j u = Some (Some n)" "s' = arm_next e uid j n s"
    by blast
  then show ?thesis
  proof cases
    case 3
    have "along (j_schedule j) (startTime j) n" if "\<not> intervalFromCompletion j"
      using along_run_from [OF reschedule_time_run [OF 3(3)] along_next [OF scheduleFrom_along 3(1,2)]] keeps_scheduleD(1) [OF assms(2) j(1)] that .
    then show ?thesis using keeps_arm_next [OF assms(2) j(1) core_invD(1) [OF assms(1) j(1)]] 3(4) by blast
  qed (use assms(2) forgets_keeps [OF forgets_remove] in auto)
qed

definition untimed :: "scheduler \<Rightarrow> uuid \<Rightarrow> bool" where
  "untimed s uid \<longleftrightarrow> (\<forall>n p. timers s n = Some p \<longrightarrow> timer_job p \<noteq> uid)"

lemma keeps_store:
  assumes "keeps_schedule s" "untimed s uid" "queue_on_schedule j"
  shows "keeps_schedule (store uid j s)"
proof -
  have "timer_on_schedule (store uid j s) p" if "timers s n = Some p" for n p
    using assms(2) that keeps_scheduleD(2) [OF assms(1) that] by (auto simp: untimed_def timer_on_schedule_def)
  then show ?thesis using assms(3) keeps_scheduleD(1) [OF assms(1)] by (auto simp: keeps_schedule_def split: if_splits)
qed

lemma keeps_prepare:
  assumes "keeps_schedule s" "untimed s (j_id j)" "nextScheduled j = []" "prepareFirstRun e j s = Some (j', dropped, s')"
  shows "keeps_schedule (store (j_id j) j' s')"
  using assms(4)
proof (cases rule: prepareFirstRun_cases)
  case dropped
  then show ?thesis using assms(1-3) by (auto intro!: keeps_store simp: queue_on_schedule_def)
next
  case dispatched
  have "keeps_schedule s'" using forgets_keeps [OF forgets_cong assms(1)] dispatched(3) by simp
  moreover have "untimed s' (j_id j)" using assms(2) dispatched(3) by (simp add: untimed_def)
  ultimately show ?thesis using dispatched(2) assms(3)
    by (intro keeps_store) (simp_all add: queue_on_schedule_def started_at_def insertNextScheduled_Nil along.here)
next
  case (armed "next" n)
  let ?s = "store (j_id j) j' s'"
  have j': "queue_on_schedule j'" "on_schedule j' (inst next)"
    using armed(2) assms(3) by (auto simp: queue_on_schedule_def on_schedule_def started_at_def insertNextScheduled_Nil intro: along.here)
  have s': "jobs s' = jobs s" "timers s' = (timers s)(n \<mapsto> \<lparr>timer_job = j_id j, fires_at = inst next\<rparr>)"
    using armed(3) by (auto simp: AfterFunc_simps Sub_def s_now_def)
  have "timer_on_schedule ?s p" if "timers ?s m = Some p" for m p
    using that s' j'(2) assms(2) keeps_scheduleD(2) [OF assms(1), of m p]
    by (auto simp: timer_on_schedule_def untimed_def split: if_splits)
  moreover have "queue_on_schedule k" if "jobs ?s v = Some k" for v k
    using that s'(1) j'(1) keeps_scheduleD(1) [OF assms(1), of v k] by (auto split: if_splits)
  ultimately show ?thesis by (simp add: keeps_schedule_def)
qed

lemma keeps_new_job:
  assumes "core_inv s" "keeps_schedule s" "new_job s j" "selectNewJob e j s = Some s'"
  shows "keeps_schedule s'"
proof -
  have none: "untimed s (j_id j)"
    using assms(3) core_invD(3) [OF assms(1)] by (fastforce simp: untimed_def new_job_def timer_inv_def)
  have empty: "nextScheduled j = []" using assms(3) by (simp add: new_job_def)
  have sent: "keeps_schedule (send m t) = keeps_schedule t" for m t
    by (simp add: keeps_schedule_def timer_on_schedule_def)
  show ?thesis
  proof (cases "started s")
    case True
    then obtain k dropped t where prep: "prepareFirstRun e j s = Some (k, dropped, t)"
      "s' = (if dropped then selectRemoveJob (j_id k) (send (NewJobDone (j_id k)) (store (j_id k) k t))
             else send (NewJobDone (j_id k)) (store (j_id k) k t))"
      using assms(4) by (auto simp: selectNewJob_def split: option.splits if_splits)
    have "keeps_schedule (send (NewJobDone (j_id k)) (store (j_id k) k t))"
      using keeps_prepare [OF assms(2) none empty prep(1)] prepareFirstRun_frame(2) [OF prep(1)] by (simp add: sent)
    then show ?thesis using prep(2) forgets_keeps [OF forgets_remove] by (cases dropped) simp_all
  next
    case False
    then show ?thesis using assms(2,4) keeps_store [OF assms(2) none, of j] empty
      by (auto simp: selectNewJob_def sent queue_on_schedule_def)
  qed
qed

lemma keeps_start_loop:
  assumes "start_loop e uids s = Some s'" "keeps_schedule s" "distinct uids"
    and "\<forall>uid\<in>set uids. untimed s uid" "\<forall>uid j. jobs s uid = Some j \<longrightarrow> j_id j = uid"
  shows "keeps_schedule s'"
  using assms
proof (induction uids arbitrary: s)
  case (Cons uid uids)
  show ?case
  proof (cases "jobs s uid")
    case None
    then show ?thesis using Cons by simp
  next
    case (Some j)
    let ?j = "j\<lparr>nextScheduled := []\<rparr>"
    obtain k dropped t where prep: "prepareFirstRun e ?j s = Some (k, dropped, t)"
      and rest: "start_loop e uids (if dropped then selectRemoveJob uid t else store uid k t) = Some s'"
      using Cons.prems(1) Some by (auto split: option.splits)
    let ?t = "if dropped then selectRemoveJob uid t else store uid k t"
    have id: "j_id ?j = uid" using Cons.prems(5) Some by simp
    note frame = prepareFirstRun_frame [OF prep, unfolded id]
    have stored: "keeps_schedule (store uid k t)"
      using keeps_prepare [OF Cons.prems(2) _ _ prep] Cons.prems(4) id by simp
    have t: "dropped \<Longrightarrow> t = s" using prep by (cases rule: prepareFirstRun_cases) auto
    have "keeps_schedule ?t" using stored t Cons.prems(2) forgets_keeps [OF forgets_remove] by simp
    moreover have "untimed ?t v" if "v \<in> set uids" for v
    proof -
      have "v \<noteq> uid" "untimed s v" using that Cons.prems(3,4) by auto
      then have "untimed t v" using frame(4) by (fastforce simp: untimed_def)
      moreover have "timers (selectRemoveJob uid t) n = Some p \<Longrightarrow> timers t n = Some p" for n p
        using forgets_remove [of t uid] by (metis forgets_def map_le_def domI)
      ultimately show ?thesis unfolding untimed_def by (cases dropped) (simp, blast, simp)
    qed
    moreover have "\<forall>v k. jobs ?t v = Some k \<longrightarrow> j_id k = v"
      using Cons.prems(5) frame(1,2) by (auto simp: selectRemoveJob_frame)
    ultimately show ?thesis using Cons.IH [OF rest] Cons.prems(3) by simp
  qed
qed simp

lemma keeps_step:
  assumes "scheduler_inv s" "select_step s s'" "keeps_schedule s"
  shows "keeps_schedule s'"
proof -
  have inv: "core_inv s" using assms(1) by (simp add: scheduler_inv_def)
  note forget = forgets_keeps [OF _ assms(3)]
  from assms(2) show ?thesis
  proof (cases rule: select_step.cases)
    case (resched e uid)
    then show ?thesis using keeps_resched [OF inv assms(3)] by blast
  next
    case (new j e)
    then show ?thesis using keeps_new_job [OF inv assms(3)] by blast
  next
    case (start e)
    let ?s = "(send ExecutorStart s)\<lparr>started := True\<rparr>"
    obtain t where t: "start_loop e (e_iteration e) ?s = Some t" "jobs s' = jobs t" "timers s' = timers t"
      using start(3) by (auto simp: selectStart_def split: if_splits)
    have "untimed ?s uid" for uid using assms(1) start(1) by (simp add: scheduler_inv_def untimed_def)
    moreover have "keeps_schedule ?s" by (rule forget) (simp add: forgets_cong)
    ultimately have "keeps_schedule t"
      using keeps_start_loop [OF t(1)] start(2) core_invD(1) [OF inv] by (simp add: iterates_def)
    then show ?thesis by (rule forgets_keeps [rotated]) (simp add: forgets_cong t(2,3))
  next
    case (stop e)
    then show ?thesis using forget forgets_stop by blast
  next
    case (run_now e uid reply)
    then show ?thesis by (intro forget) (auto simp: selectRunJobRequest_def forgets_cong split: option.splits if_splits)
  next
    case (fire n t e)
    have "jobs s' = jobs s" "timers s' \<subseteq>\<^sub>m timers s"
      using fire(1) by (simp_all add: timer_fires_def timer_Stop_def map_le_def)
    then show ?thesis by (intro forget) (simp add: forgets_def)
  qed (use forgets_messages forgets_remove forgets_tags in
    \<open>auto intro!: forget simp: selectRemoveJobsByTags_def WithCancel_def cancel_def notifyJobRegistered_def notifySchedulerStarted_def
      notifySchedulerShutdown_def forgets_cong\<close>)
qed

lemma reachable_keeps: "reachable s \<Longrightarrow> keeps_schedule s"
proof (induction rule: reachable.induct)
  case (created l monitor)
  show ?case by (simp add: keeps_schedule_def NewScheduler_state_def)
next
  case (stepped s s')
  then show ?case using keeps_step [OF reachable_inv] by blast
qed

section \<open>No drift\<close>

lemma along_duration: "along (Some (Duration d)) t u \<Longrightarrow> \<exists>k. inst u = inst t + int k * duration d"
proof (induction rule: along.induct)
  case here
  show ?case by (intro exI [of _ 0]) simp
next
  case (later u k rnd v)
  then obtain n where "inst u = inst t + int n * duration d" by blast
  then have "inst v = inst t + int (Suc n) * duration d"
    using later(2,3) by (auto simp: duration_next_def Add_def algebra_simps)
  then show ?case by blast
qed

lemma due_on_schedule:
  assumes "reachable s" "jobs s uid = Some j" "\<not> intervalFromCompletion j" "timetable s uid = Some (Some i)"
  shows "on_schedule j i"
proof -
  obtain n p where p: "j_timer j = Some n" "timers s n = Some p" "fires_at p = i"
    using assms(2,4) by (auto simp: timetable_def due_time_def split: option.splits)
  have inv: "core_inv s" using reachable_inv [OF assms(1)] by (simp add: scheduler_inv_def)
  have "timer_job p = uid"
    using core_invD(3) [OF inv p(2)] ownsD [OF core_invD(4) [OF inv assms(2) p(1)]] by (auto simp: timer_inv_def)
  then show ?thesis using keeps_scheduleD(2) [OF reachable_keeps [OF assms(1)] p(2)] assms(2,3) p(3) by (simp add: timer_on_schedule_def)
qed

lemma queue_along:
  "reachable s \<Longrightarrow> jobs s uid = Some j \<Longrightarrow> \<not> intervalFromCompletion j \<Longrightarrow>
     list_all (along (j_schedule j) (startTime j)) (nextScheduled j)"
  using keeps_scheduleD(1) [OF reachable_keeps] by (auto simp: queue_on_schedule_def list_all_iff)



end
