(* ===== verification/OnTime.thy ===== *)
theory OnTime
  imports OnSchedule
begin

text \<open>
  The days and times of day at which daily, weekly and monthly jobs run, in locations without transitions, from
  the definition of the schedule to the timers of the scheduler, and what becomes of a daily interval that is too large.
\<close>

section \<open>Readings that a schedule names\<close>

definition named_day :: "int list \<Rightarrow> int \<Rightarrow> bool" where
  "named_day wds n \<longleftrightarrow> list_ex (\<lambda>wd. (n + 1) mod 7 = wd mod 7) wds"

definition named_clock :: "gtime list \<Rightarrow> int \<Rightarrow> bool" where
  "named_clock ats w \<longleftrightarrow> list_ex (\<lambda>at. w mod 86400 = clock_of at) ats"

text \<open>Day 0 was a Monday; a monthly job names the same time on the days of each month.\<close>

fun named_time :: "jobSchedule \<Rightarrow> int \<Rightarrow> bool" where
  "named_time (Daily d) w \<longleftrightarrow> named_clock (d_atTimes d) w"
| "named_time (Weekly k) w \<longleftrightarrow> named_clock (w_atTimes k) w \<and> named_day (w_daysOfWeek k) (w div 86400)"
| "named_time (Monthly m) w \<longleftrightarrow> (\<exists>k. w \<in> set (month_walls m k))"
| "named_time s w \<longleftrightarrow> True"

fun calendar_ok :: "jobSchedule \<Rightarrow> gtime \<Rightarrow> bool" where
  "calendar_ok (Daily d) t \<longleftrightarrow> fixed_zone (tloc t)"
| "calendar_ok (Weekly w) t \<longleftrightarrow> fixed_zone (tloc t)"
| "calendar_ok (Monthly m) t \<longleftrightarrow> monthly_ok m t"
| "calendar_ok s t \<longleftrightarrow> False"

lemma gap_fixed:
  assumes "fixed_zone l" "gap_adjust pol (time_at l (n * 86400 + clock_of at)) at = Some t"
  shows "t = time_at l (n * 86400 + clock_of at)" "tloc t = l" "wall t mod 86400 = clock_of at" "wall t div 86400 = n"
proof -
  show t: "t = time_at l (n * 86400 + clock_of at)" using assms gap_adjust_candidate [OF assms(1)] by simp
  show "tloc t = l" by (simp add: t time_at_def)
  show "wall t mod 86400 = clock_of at" "wall t div 86400 = n"
    using assms(1) clock_of_range [of at] by (simp_all add: t)
qed

lemma daily_named:
  assumes "fixed_zone (tloc t)" "daily_next d t = Some n" "\<not> IsZero n"
  shows "tloc n = tloc t \<and> named_clock (d_atTimes d) (wall n)"
proof -
  obtain i where "n = nextDay d t i" using daily_next_cases [OF assms(2,3)] by blast
  then obtain at k where "at \<in> set (d_atTimes d)" "gap_adjust (d_policy d) (time_at (tloc t) (k * 86400 + clock_of at)) at = Some n"
    using nextDay_sound [of d t i] assms(3) by blast
  then show ?thesis using gap_fixed [OF assms(1)] by (auto simp: named_clock_def list_ex_iff)
qed

lemma weekly_named:
  assumes "fixed_zone (tloc t)" "weekly_next w t = Some n" "\<not> IsZero n"
  shows "tloc n = tloc t \<and> named_clock (w_atTimes w) (wall n) \<and> named_day (w_daysOfWeek w) (wall n div 86400)"
proof -
  obtain i where "n = nextWeekDayAtTime w t i" using weekly_next_cases [OF assms(2,3)] by blast
  then obtain wd at k where "wd \<in> set (w_daysOfWeek w)" "at \<in> set (w_atTimes w)" "(k + 1) mod 7 = wd mod 7"
    "gap_adjust (w_policy w) (time_at (tloc t) (k * 86400 + clock_of at)) at = Some n"
    using nextWeekDay_sound [of w t i] assms(3) by blast
  then show ?thesis using gap_fixed [OF assms(1)] by (auto simp: named_clock_def named_day_def list_ex_iff)
qed

lemma monthly_named:
  assumes "monthly_ok m t" "\<not> IsZero (monthly_next m t)"
  shows "tloc (monthly_next m t) = tloc t \<and> (\<exists>k. wall (monthly_next m t) \<in> set (month_walls m k))"
proof -
  have ok: "fixed_zone (tloc t)" "m_atTimes m \<noteq> []" using assms(1) by (simp_all add: monthly_ok_def)
  have loc: "tloc (time_at l w) = l" for l w by (simp add: time_at_def)
  have next': "monthly_next m t =
      (case earliest_after (wall t) (month_walls m (month_index t)) of
         Some w \<Rightarrow> time_at (tloc t) w
       | None \<Rightarrow> (case find (\<lambda>j. days_named m j \<noteq> {}) (strides m (month_index t)) of
           Some j \<Rightarrow> time_at (tloc t) (Min (set (month_walls m j))) | None \<Rightarrow> zero_time))"
    by (rule monthly_next_fixed) (use assms(1) in \<open>simp_all add: monthly_ok_def\<close>)
  show ?thesis
  proof (cases "earliest_after (wall t) (month_walls m (month_index t))")
    case (Some w)
    then show ?thesis using next' earliest_after_SomeD(1) [OF Some] ok(1) by (auto simp: loc)
  next
    case None
    then obtain j where j: "find (\<lambda>j. days_named m j \<noteq> {}) (strides m (month_index t)) = Some j"
      "monthly_next m t = time_at (tloc t) (Min (set (month_walls m j)))"
      using next' assms(2) by (auto simp: IsZero_def split: option.splits)
    have "set (month_walls m j) \<noteq> {}" using j(1) month_walls_empty [OF ok(2)] by (auto simp: find_Some_iff)
    then have "Min (set (month_walls m j)) \<in> set (month_walls m j)" by (intro Min_in) simp_all
    then show ?thesis using j(2) ok(1) by (auto simp: loc)
  qed
qed

lemma calendar_next:
  assumes "calendar_ok s t" "sched_next rnd s t = Some n" "\<not> IsZero n"
  shows "calendar_ok s n \<and> tloc n = tloc t \<and> named_time s (wall n)"
proof (cases s)
  case (Daily d)
  then show ?thesis using assms daily_named [of t d n] by auto
next
  case (Weekly w)
  then show ?thesis using assms weekly_named [of t w n] by auto
next
  case (Monthly m)
  then show ?thesis using assms monthly_named [of m t] monthly_ok_next(2) [of m t] by auto
qed (use assms(1) in auto)

lemma along_calendar:
  assumes "along (Some s) t u" "calendar_ok s t"
  shows "calendar_ok s u \<and> tloc u = tloc t \<and> (u = t \<or> named_time s (wall u))"
  using assms by (induction rule: along.induct) (use calendar_next in fastforce)+


text \<open>A job every day at nine that begins on a day at noon; its timer is armed for that noon, and then for nine.\<close>

definition nine_daily :: dailyJob where
  "nine_daily = \<lparr>d_interval = 1, d_atTimes = [time_at UTC 32400], d_policy = DaylightSavingsTimeDefault\<rparr>"

definition noon :: gtime where
  "noon = time_at UTC 43200"

definition noon_job :: internalJob where
  "noon_job = zero_job\<lparr>j_id := 1, j_schedule := Some (Daily nine_daily), startTime := noon\<rparr>"

lemma UTC_readings [simp]:
  "fixed_zone UTC" "tloc (time_at UTC w) = UTC" "inst (time_at UTC w) = w * nanos" "wall (time_at UTC w) = w"
  "clock_of (time_at UTC w) = w mod 86400" "day_of (time_at UTC w) = w div 86400"
  by (simp_all add: fixed_zone_def UTC_def time_at_def resolve_wall_fixed clock_of_def day_of_def wall_def wall_of_def offset_at_fixed nanos_def)

lemma nine_after_noon: "daily_next nine_daily noon = Some (time_at UTC 118800)"
  by (simp add: daily_next_fixed_zone nine_daily_def noon_def earliest_after_def day_walls_def nanos_def)

lemma noon_armed:
  "\<exists>s. reachable s \<and> jobs s 1 = Some (noon_job\<lparr>nextScheduled := [noon], j_timer := Some 0\<rparr>) \<and> started s \<and> \<not> is_shutdown s \<and>
     s_location s = UTC \<and> fresh_timer s = 1"
proof -
  let ?s1 = "send SchedulerStartedSignal ((send ExecutorStart fresh)\<lparr>started := True\<rparr>)" and ?e = "clock_at 5 []"
  have s1: "started ?s1" "s_location ?s1 = UTC" "fresh_timer ?s1 = 0" "cancelled ?s1 = {}" "jobs ?s1 = Map.empty"
    by (simp_all add: fresh_def NewScheduler_state_def)
  have j: "\<not> startImmediately noon_job" "startTime noon_job = noon" "\<not> IsZero noon" "nextScheduled noon_job = []"
    "IsZero (stopTime noon_job)" "j_id noon_job = 1" "\<not> Before noon (s_now ?e ?s1)"
    by (simp_all add: noon_job_def noon_def zero_job_def IsZero_def zero_time_def Before_def s_now_def clock_at_def nanos_def)
  have prep: "prepareFirstRun ?e noon_job ?s1 = Some (arm_first ?e noon_job noon ?s1)"
    using j by (simp add: prepareFirstRun_def zero_time_def IsZero_def)
  let ?j = "noon_job\<lparr>nextScheduled := [noon], j_timer := Some 0\<rparr>"
  have "\<not> past_stop noon_job noon" using j(5) by (simp add: past_stop_def)
  then obtain s2 where s2: "arm_first ?e noon_job noon ?s1 = (?j, False, s2)" "jobs s2 = Map.empty" "started s2"
    "cancelled s2 = {}" "s_location s2 = UTC" "fresh_timer s2 = 1"
    using s1 j(2,4) by (simp add: arm_first_def AfterFunc_def started_at_def insertNextScheduled_Nil)
  have "selectNewJob ?e noon_job ?s1 = Some (send (NewJobDone 1) (store 1 ?j s2))"
    using s1(1) prep s2(1) j(6) by (simp add: selectNewJob_def)
  moreover have "new_job ?s1 noon_job" using s1(5) j(4) by (simp add: new_job_def noon_job_def zero_job_def)
  ultimately have "reachable (send (NewJobDone 1) (store 1 ?j s2))"
    using started_reachable reachable.stepped select_step.new by blast
  then show ?thesis using s2 by (intro exI [of _ "send (NewJobDone 1) (store 1 ?j s2)"]) (simp add: is_shutdown_def shutdownCtx_def)
qed


section \<open>Intervals that turn negative\<close>

lemma sint_negative: "2 ^ 63 \<le> uint w \<Longrightarrow> sint w < 0" for w :: "64 word"
proof (rule ccontr)
  assume big: "2 ^ 63 \<le> uint w" and "\<not> sint w < 0"
  then have range: "0 \<le> sint w" "sint w < 2 ^ 63" using sint_lt [of w] by simp_all
  have "uint w = take_bit 64 (sint w)" using uint_word_of_int_eq [of "sint w", where 'a = 64] by simp
  also have "\<dots> = sint w" using range by (intro take_bit_int_eq_self) simp_all
  finally show False using big range by simp
qed

lemma earlier_days_give_nothing:
  assumes "fixed_zone (tloc t)" "k < 0"
  shows "IsZero (nextDay d t k)"
proof (rule ccontr)
  assume "\<not> IsZero (nextDay d t k)"
  then obtain at where "After (nextDay d t k) t"
    "gap_adjust (d_policy d) (time_at (tloc t) ((day_of t + k) * 86400 + clock_of at)) at = Some (nextDay d t k)"
    using nextDay_sound by blast
  then have "After (time_at (tloc t) ((day_of t + k) * 86400 + clock_of at)) t" by (metis gap_fixed(1) [OF assms(1)])
  then have "wall t < (day_of t + k) * 86400 + clock_of at" using After_time_at_fixed [OF assms(1)] by simp
  moreover have "(day_of t + k) * 86400 \<le> (day_of t - 1) * 86400" using assms(2) by (intro mult_right_mono) simp_all
  ultimately show False using wall_split [of t] clock_of_range [of at] clock_of_range [of t] by (simp add: algebra_simps)
qed

text \<open>
  A daily job whose interval is \<open>2 ^ 63\<close> or more, which its definition accepts, has no run after the last time of
  its first day: the interval becomes negative, and the search looks at earlier days. With
  \<open>DaylightSavingsTimeSkip\<close> it never ends.
\<close>

theorem huge_daily_intervals_fail:
  assumes "fixed_zone (tloc t)" "2 ^ 63 \<le> uint (d_interval d)" "IsZero (nextDay d t 0)"
  shows "case daily_next d t of None \<Rightarrow> d_policy d = DaylightSavingsTimeSkip | Some n \<Rightarrow> d_policy d \<noteq> DaylightSavingsTimeSkip \<and> IsZero n"
proof -
  have neg: "sint (d_interval d) < 0" by (rule sint_negative [OF assms(2)])
  have zero: "IsZero (nextDay d t (sint (d_interval d) + i * sint (d_interval d)))" if "0 \<le> i" for i
    using neg that by (intro earlier_days_give_nothing [OF assms(1)]) (simp add: add_neg_nonpos mult_nonneg_nonpos)
  have "skip_loop (nextDay d t) (sint (d_interval d)) (sint (d_interval d)) = None"
    using skip_loop_result zero by (metis int_one_le_iff_zero_less less_imp_le not_None_eq)
  then show ?thesis using assms(3) zero [of 0] by (simp add: daily_next_def Let_def)
qed

theorem huge_daily_intervals_fail_witness:
  "daily_next \<lparr>d_interval = 2 ^ 63, d_atTimes = [time_at UTC 32400], d_policy = DaylightSavingsTimeSkip\<rparr> noon = None"
proof -
  have "IsZero (nextDay \<lparr>d_interval = 2 ^ 63, d_atTimes = [time_at UTC 32400], d_policy = DaylightSavingsTimeSkip\<rparr> noon 0)" (is "IsZero (nextDay ?d noon 0)")
  proof (rule ccontr)
    assume nz: "\<not> ?thesis"
    obtain at where at: "at \<in> set (d_atTimes ?d)" "After (nextDay ?d noon 0) noon"
      "gap_adjust (d_policy ?d) (time_at (tloc noon) ((day_of noon + 0) * 86400 + clock_of at)) at = Some (nextDay ?d noon 0)"
      using nextDay_sound [OF nz] by blast
    have "nextDay ?d noon 0 = time_at (tloc noon) ((day_of noon + 0) * 86400 + clock_of at)"
      using gap_fixed(1) [OF _ at(3)] by (simp add: noon_def)
    then show False using at(1,2) by (simp add: noon_def After_def nanos_def)
  qed
  moreover have "uint (2 ^ 63 :: 64 word) = 2 ^ 63" by simp
  ultimately show ?thesis using huge_daily_intervals_fail [of noon ?d] by (auto simp: noon_def split: option.splits)
qed

end
