(* ===== verification/StopTime.thy ===== *)
theory StopTime
  imports System
begin

text \<open>
  A job with a stop time whose last run is late: the run returns before it has asked for the next one, and nobody else
  notices that the job is at its end. What remains is a job without a token.
\<close>

section \<open>A job that waits for nothing\<close>

definition present :: "uuid \<Rightarrow> system \<Rightarrow> bool" where
  "present uid S \<longleftrightarrow> started (sys_sched S) \<and> \<not> is_shutdown (sys_sched S) \<and> jobs (sys_sched S) uid \<noteq> None"

lemma unasked_run:
  assumes "smooth w" "smooth w'" "in_id jIn = j_id j" "\<not> shouldSendOut jIn"
    and "whole_run w w' x limit place busy j jIn = (evs, Some ())"
  shows "count_list evs (OutForRescheduling (j_id j)) = 0"
proof (cases "may_start w' j")
  case True
  then show ?thesis using whole_run_requests(2) [OF assms(1,2,3,5)] assms(4) by simp
next
  case False
  let ?m = "dispatch_job w x limit False place (Some (Some j)) jIn" and ?u = "j_id j"
  obtain h where h: "snd ?m = Some h" "asked ?u ?m + pending ?u j h = owed ?u jIn"
    "h \<in> {TurnedAway, StandardRun (Some j) jIn} \<union> {SingletonQueue jIn} \<union> LimitQueue ` {r. in_id r = in_id jIn}"
    by (rule dispatch_asks [OF assms(1)])
  then have none: "asked ?u ?m = 0" "pending ?u j h = 0" using assms(4) by (simp_all add: owed_def)
  have "asked ?u (carry_out w' x busy (Some (Some j)) h) = 0"
    using h(3) none(2) assms(3) idle_run [OF False]
    by (auto simp: carry_out_def limit_run_def singleton_run_def owed_def)
  then have "asked ?u (whole_run w w' x limit place busy j jIn) = 0" using h(1) none(1) by (simp add: whole_run_def asked_bind)
  then show ?thesis using assms(5) by simp
qed

lemma request_keeps_tokens:
  assumes "reachable (sys_sched S)" "request_step (sys_sched S) s'" "present uid S" "present uid (moves_to S s')"
  shows "tokens uid (moves_to S s') = tokens uid S"
proof -
  have up: "started (sys_sched S)" "\<not> is_shutdown (sys_sched S)" "started s'"
    "timetable (sys_sched S) uid \<noteq> None" "timetable s' uid \<noteq> None"
    using assms(3,4) by (auto simp: present_def moves_to_def timetable_def)
  show ?thesis
    using live_tokens [OF request_plan [OF assms(1,2) up(1-3), unfolded plan_of_def] up(4,5)]
    by (simp add: tokens_def moves_to_def new_runs_def)
qed

lemma no_tokens_step:
  assumes "system_step x limit reads S S'" "reachable (sys_sched S)" "present uid S" "present uid S'" "tokens uid S = 0"
  shows "reachable (sys_sched S') \<and> tokens uid S' = 0"
  using assms(1)
proof (cases rule: system_step.cases)
  case (request s')
  then show ?thesis using request_keeps_tokens [OF assms(2) request(2) assms(3)] assms(2,4,5) request_is_step [OF request(2)]
    by (auto simp: moves_to_def intro: reachable.stepped)
next
  case (run v b T j w w' place busy evs)
  have id: "j_id j = v" using reachable_inv [OF assms(2)] core_invD(1) [OF _ run(3)] by (simp add: scheduler_inv_def)
  have b: "v = uid \<Longrightarrow> \<not> b" using assms(5) run(2) by (auto simp: tokens_def)
  have "count_list evs (OutForRescheduling uid) = 0"
    using unasked_run [OF run(4,5) _ _ run(7)] whole_run_requests(1) [OF run(4,5) _ run(7), of uid] id b by (cases "v = uid") auto
  then show ?thesis using run(1,2) assms(2,5) by (simp add: tokens_def count_mset count_filter split: if_splits)
next
  case (unknown v b T)
  then show ?thesis using assms(2,5) by (simp add: tokens_def split: if_splits)
next
  case (deliver ev M e s')
  have other: "ev \<noteq> OutForRescheduling uid" using assms(5) deliver(2) by (auto simp: tokens_def)
  have "timetable s' uid = timetable (sys_sched S) uid \<and> new_runs (sys_sched S) s' = {#}"
  proof (cases "\<exists>u. ev = OutForRescheduling u")
    case True
    then show ?thesis using resched_tokens [OF assms(2)] deliver(5) other by (auto simp: new_runs_def)
  next
    case False
    then have "plan_of s' = plan_of (sys_sched S)" using message_plan [OF deliver(5)] by blast
    then show ?thesis by (simp add: plan_of_def new_runs_def)
  qed
  then show ?thesis using receive_reachable [OF assms(2) deliver(3,5)] deliver(1,2) other assms(5)
    by (simp add: tokens_def moves_to_def is_due_def split: if_splits)
next
  case (give_up ev M)
  then show ?thesis using assms(2,5) by (simp add: tokens_def split: if_splits)
qed

lemma no_tokens_steps:
  assumes "(\<lambda>S S'. system_step x limit reads S S' \<and> present uid S \<and> present uid S')\<^sup>*\<^sup>* S S'"
    and "reachable (sys_sched S)" "tokens uid S = 0"
  shows "reachable (sys_sched S') \<and> tokens uid S' = 0"
  using assms by (induction rule: rtranclp_induct) (use no_tokens_step in blast)+

section \<open>The late run\<close>

lemma late_run_is_silent:
  assumes "stopTimeReached j (w_now w' 0)" "\<not> singletonMode j"
  shows "whole_run w w' x None place busy j jIn = ([], Some ())"
  using assms idle_run [of w' j]
  by (simp add: whole_run_def dispatch_job_def standard_dispatch_def carry_out_def may_start_def run_bind_def run_return_def)


text \<open>A job every 10 nanoseconds that stops at 16: its run at 15 comes to the executor at 100.\<close>

definition stopping_job :: internalJob where
  "stopping_job = armed_job\<lparr>stopTime := \<lparr>inst = 16, tloc = UTC\<rparr>\<rparr>"

definition stopping :: scheduler where
  "stopping = send (NewJobDone 1) (store 1 stopping_job (snd (AfterFunc (clock_at 5 []) 1 10
     (send SchedulerStartedSignal ((send ExecutorStart fresh)\<lparr>started := True\<rparr>)))))"

lemma stopping_job_simps [simp]:
  "j_id stopping_job = 1" "j_timer stopping_job = Some 0" "nextScheduled stopping_job = [\<lparr>inst = 15, tloc = UTC\<rparr>]"
  "stopTime stopping_job = \<lparr>inst = 16, tloc = UTC\<rparr>" "\<not> singletonMode stopping_job"
  "j_ctx stopping_job = Background"
  by (simp_all add: stopping_job_def armed_job_def started_at_def insertNextScheduled_Nil every_def zero_job_def)

lemma stopping_simps [simp]:
  "jobs stopping = [1 \<mapsto> stopping_job]" "timers stopping = [0 \<mapsto> \<lparr>timer_job = 1, fires_at = 15\<rparr>]"
  "started stopping" "\<not> is_shutdown stopping"
  by (simp_all add: stopping_def send_def AfterFunc_def is_shutdown_def shutdownCtx_def example_simps)

lemma stopping_reachable: "reachable stopping"
proof -
  let ?s1 = "send SchedulerStartedSignal ((send ExecutorStart fresh)\<lparr>started := True\<rparr>)"
  let ?j = "every 10 1\<lparr>stopTime := \<lparr>inst = 16, tloc = UTC\<rparr>\<rparr>"
  have "prepareFirstRun (clock_at 5 []) ?j ?s1 = Some (stopping_job, False, snd (AfterFunc (clock_at 5 []) 1 10 ?s1))"
    by (simp add: prepareFirstRun_def job_next_def duration_next_def arm_first_def stopping_job_def armed_job_def past_stop_def
      AfterFunc_def Sub_def example_simps send_def Add_def started_at_def IsZero_def Before_def zero_time_def)
  moreover have "started ?s1" by (simp add: send_def)
  ultimately have "selectNewJob (clock_at 5 []) ?j ?s1 = Some stopping"
    by (simp add: selectNewJob_def stopping_def)
  moreover have "new_job ?s1 ?j" by (simp add: new_job_def example_simps send_def)
  ultimately show ?thesis using started_reachable reachable.stepped select_step.new by blast
qed


end
