(* ===== verification/Client.thy ===== *)
theory Client
  imports JobTheorems Lifecycle LimitRunners
begin

text \<open>
  The program as a client uses it: the methods of the interfaces \<open>Scheduler\<close> and \<open>Job\<close> as one datatype of calls each, a
  session in which calls and steps of the scheduler's goroutine interleave, and the calls on a scheduler that has been
  shut down.
\<close>

section \<open>The interfaces\<close>

datatype scheduler_method =
    Scheduler_Jobs
  | Scheduler_NewJob jobDefinition "task option" "JobOption list"
  | Scheduler_RemoveByTags "string list"
  | Scheduler_RemoveJob uuid
  | Scheduler_Shutdown
  | Scheduler_ShutdownWithContext
  | Scheduler_Start
  | Scheduler_StopJobs
  | Scheduler_StopJobsWithContext
  | Scheduler_Update uuid jobDefinition "task option" "JobOption list"
  | Scheduler_JobsWaitingInQueue

datatype job_method =
    Job_ID | Job_IsRunning | Job_LastRun | Job_LastRunCompletedAt | Job_LastRunStartedAt | Job_Name | Job_NextRun
  | Job_NextRuns int | Job_RunNow | Job_Schedule | Job_Tags

datatype answer =
    Returned
  | Count nat
  | Failure "error option"
  | JobList "job list"
  | NewHandle "job option result"
  | Identifier uuid
  | Flag "bool result"
  | Instant "gtime result"
  | Instants "gtime list option result"
  | Text string
  | Texts "string list"
  | Timing "JobSchedule option"

text \<open>
  What a call meets: whether the goroutine receives its request (in time, or although the scheduler is shut down),
  which case the first select of a stop takes, the error of a context that ends while the call waits, whether the
  goroutine has stopped before \<open>Shutdown\<close> looks at it, and the limit mode with its queue.
\<close>

record circumstances =
  c_env :: env
  c_job_env :: job_env
  c_received :: bool
  c_select :: stop_select
  c_gives_up :: "error option"
  c_late :: bool
  c_mode :: "LimitMode option"
  c_limit :: limit_state

text \<open>A job that cannot be built because a check panics ends the program, unless the caller recovers; \<open>None\<close> stands for it.\<close>

definition new_handle :: "(internalJob option result \<times> scheduler) option \<Rightarrow> answer outcome" where
  "new_handle r = (case r of
     None \<Rightarrow> (None, None)
   | Some (r, s) \<Rightarrow> (Some (NewHandle (map_sum id (map_option jobFromInternalJob) r)), Some s))"

definition failure :: "error option outcome \<Rightarrow> answer outcome" where
  "failure r = map_prod (map_option Failure) id r"

fun call_scheduler :: "circumstances \<Rightarrow> scheduler_method \<Rightarrow> scheduler \<Rightarrow> answer outcome" where
  "call_scheduler c Scheduler_Jobs s = (Some (JobList (scheduler_Jobs (c_env c) s)), Some s)"
| "call_scheduler c (Scheduler_NewJob def tsk opts) s = new_handle (NewJob (c_job_env c) (c_env c) def tsk opts s)"
| "call_scheduler c (Scheduler_RemoveByTags tags) s = (Some Returned, Some (RemoveByTags (c_env c) (c_received c) tags s))"
| "call_scheduler c (Scheduler_RemoveJob uid) s =
     (case RemoveJob (c_env c) uid s of (err, s) \<Rightarrow> (Some (Failure err), Some s))"
| "call_scheduler c Scheduler_Shutdown s = failure (Shutdown (c_env c) (c_late c) (c_gives_up c) s)"
| "call_scheduler c Scheduler_ShutdownWithContext s = failure (ShutdownWithContext (c_env c) (c_late c) (c_gives_up c) s)"
| "call_scheduler c Scheduler_Start s = map_prod (map_option (\<lambda>_. Returned)) id (Start (c_env c) (c_received c) s)"
| "call_scheduler c Scheduler_StopJobs s = failure (StopJobs (c_env c) (c_select c) (c_gives_up c) s)"
| "call_scheduler c Scheduler_StopJobsWithContext s =
     failure (StopJobsWithContext (c_env c) (c_select c) (c_gives_up c) s)"
| "call_scheduler c (Scheduler_Update uid def tsk opts) s = new_handle (Update (c_job_env c) (c_env c) uid def tsk opts s)"
| "call_scheduler c Scheduler_JobsWaitingInQueue s = (Some (Count (JobsWaitingInQueue (c_mode c) (c_limit c))), Some s)"

text \<open>The reply to an accessor; a job that is not there is a channel closed without a value.\<close>

definition asked_job :: "circumstances \<Rightarrow> job \<Rightarrow> scheduler \<Rightarrow> job_reply" where
  "asked_job c h s = (if c_received c then reply_of (selectJobOutRequest (c_env c) (job_ID h) s) else NoReply)"

fun call_job :: "circumstances \<Rightarrow> job \<Rightarrow> job_method \<Rightarrow> scheduler \<Rightarrow> answer outcome" where
  "call_job c h Job_ID s = (Some (Identifier (handle_ID h)), Some s)"
| "call_job c h Job_IsRunning s = (Some (Flag (IsRunning (asked_job c h s))), Some s)"
| "call_job c h Job_LastRun s = (Some (Instant (LastRun (asked_job c h s))), Some s)"
| "call_job c h Job_LastRunCompletedAt s = (Some (Instant (LastRunCompletedAt (asked_job c h s))), Some s)"
| "call_job c h Job_LastRunStartedAt s = (Some (Instant (LastRunStartedAt (asked_job c h s))), Some s)"
| "call_job c h Job_Name s = (Some (Text (handle_Name h)), Some s)"
| "call_job c h Job_NextRun s = (Some (Instant (NextRun (asked_job c h s))), Some s)"
| "call_job c h (Job_NextRuns n) s = (Some (Instants (NextRuns (e_rnd (c_env c)) (asked_job c h s) n)), Some s)"
| "call_job c h Job_RunNow s =
     (if \<not> c_received c then (Some (Failure (RunNow False None)), Some s)
      else case selectRunJobRequest (c_env c) (job_ID h) s of
        None \<Rightarrow> (Some (Failure (RunNow True None)), None)
      | Some (s', reply) \<Rightarrow> (Some (Failure (RunNow True reply)), Some s'))"
| "call_job c h Job_Schedule s = (Some (Timing (handle_Schedule h)), Some s)"
| "call_job c h Job_Tags s = (Some (Texts (handle_Tags h)), Some s)"

section \<open>Sessions\<close>

text \<open>
  A session knows whether the scheduler's goroutine has ended. After its end no request is received, no value is
  sent, and \<open>Shutdown\<close> finds the scheduler not started.
\<close>

record session =
  sched :: scheduler
  ended :: bool

datatype client_call = OnScheduler scheduler_method | OnJob job job_method

definition unserved :: "circumstances \<Rightarrow> circumstances" where
  "unserved c = c\<lparr>c_env := (c_env c)\<lparr>e_send_wins := False\<rparr>, c_received := False,
     c_select := (if c_select c = Accepted then ShutdownFirst else c_select c)\<rparr>"

fun shuts_down :: "client_call \<Rightarrow> bool" where
  "shuts_down (OnScheduler Scheduler_Shutdown) = True"
| "shuts_down (OnScheduler Scheduler_ShutdownWithContext) = True"
| "shuts_down call = False"

fun dispatch_call :: "circumstances \<Rightarrow> client_call \<Rightarrow> scheduler \<Rightarrow> answer outcome" where
  "dispatch_call c (OnScheduler m) s = call_scheduler c m s"
| "dispatch_call c (OnJob h m) s = call_job c h m s"

definition session_call :: "circumstances \<Rightarrow> client_call \<Rightarrow> session \<Rightarrow> answer option \<times> session option" where
  "session_call c call st =
     (if ended st \<and> shuts_down call then (Some (Failure None), Some (st\<lparr>sched := cancel shutdownCtx (sched st)\<rparr>))
      else map_prod id (map_option (\<lambda>s. st\<lparr>sched := s, ended := ended st \<or> shuts_down call\<rparr>))
             (dispatch_call (if ended st then unserved c else c) call (sched st)))"

text \<open>Go iterates over all jobs, UUIDs are not nil, and a new job does not take the identifier of another one.\<close>

fun may_build :: "circumstances \<Rightarrow> scheduler \<Rightarrow> uuid \<Rightarrow> jobDefinition \<Rightarrow> task option \<Rightarrow> JobOption list \<Rightarrow> bool" where
  "may_build c s uid def tsk opts \<longleftrightarrow> je_new_uuid (c_job_env c) \<noteq> 0 \<and>
     (case build_job (c_job_env c) (c_env c) uid def tsk opts s of
        Some (Inr j, _) \<Rightarrow> j_id j = uid \<or> jobs s (j_id j) = None
      | _ \<Rightarrow> True)"

fun ids_differ :: "circumstances \<Rightarrow> client_call \<Rightarrow> scheduler \<Rightarrow> bool" where
  "ids_differ c (OnScheduler (Scheduler_NewJob def tsk opts)) s = may_build c s 0 def tsk opts"
| "ids_differ c (OnScheduler (Scheduler_Update uid def tsk opts)) s = may_build c s uid def tsk opts"
| "ids_differ c call s = True"

inductive in_session :: "session \<Rightarrow> bool" where
  opened: "in_session \<lparr>sched = NewScheduler_state l monitor, ended = False\<rparr>"
| called: "in_session st \<Longrightarrow> iterates (c_env c) (sched st) \<Longrightarrow> ids_differ c call (sched st) \<Longrightarrow>
    session_call c call st = (r, Some st') \<Longrightarrow> in_session st'"
| works: "in_session st \<Longrightarrow> \<not> ended st \<Longrightarrow> select_step (sched st) s \<Longrightarrow> in_session (st\<lparr>sched := s\<rparr>)"
| goes: "in_session st \<Longrightarrow> \<not> ended st \<Longrightarrow> is_shutdown (sched st) \<Longrightarrow> iterates e (sched st) \<Longrightarrow> stopScheduler e (sched st) = Some s \<Longrightarrow>
    in_session \<lparr>sched = s, ended = True\<rparr>"

section \<open>What a session keeps\<close>

definition finished :: "scheduler \<Rightarrow> bool" where
  "finished s \<longleftrightarrow> is_shutdown s \<and> \<not> started s \<and> timers s = Map.empty"

lemma stop_reachable: "reachable s \<Longrightarrow> iterates e s \<Longrightarrow> stopScheduler e s = Some s' \<Longrightarrow> reachable s'"
  by (rule reachable.stepped [OF _ select_step.stop])

lemma stop_finishes:
  assumes "reachable s" "iterates e s" "is_shutdown s" "stopScheduler e s = Some s'"
  shows "finished s'"
proof -
  have "timers s' = Map.empty" using scheduler_inv_stop(2) [OF reachable_inv [OF assms(1)] _ assms(4)] assms(2) by (simp add: iterates_def)
  moreover have "is_shutdown s'" using stop_keeps_cancelled [OF assms(4)] assms(3) by (auto simp: is_shutdown_def shutdownCtx_def)
  moreover have "\<not> started s'"
    using assms(4) by (auto simp: stopScheduler_def Let_def notifySchedulerStopped_def send_def split: option.splits if_splits)
  ultimately show ?thesis by (simp add: finished_def)
qed

lemma await_reachable:
  assumes "reachable s" "iterates e s" "await_stop e g s = (r, Some s')"
  shows "reachable s' \<and> (is_shutdown s \<longrightarrow> finished s')"
proof -
  have read: "reachable (s\<lparr>stopErrCh := None\<rparr>)" "iterates e (s\<lparr>stopErrCh := None\<rparr>)"
    "is_shutdown (s\<lparr>stopErrCh := None\<rparr>) = is_shutdown s"
    using assms(1,2) reachable_read by (simp_all add: iterates_def is_shutdown_def)
  have emptied: "finished (t\<lparr>stopErrCh := None\<rparr>) = finished t" for t by (simp add: finished_def is_shutdown_def)
  show ?thesis
    using assms(3) stop_reachable [OF assms(1,2)] stop_finishes [OF assms(1,2)] stop_reachable [OF read(1,2)]
      stop_finishes [OF read(1,2)] reachable_read read(3)
    by (auto simp: await_stop_def emptied split: option.splits)
qed

lemma notice_reachable:
  "reachable s \<Longrightarrow> reachable (notifySchedulerShutdown s)" "finished (notifySchedulerShutdown s) = finished s"
  using reachable.stepped [OF _ select_step.shutdown_notice]
  by (simp_all add: finished_def is_shutdown_def notifySchedulerShutdown_def send_def)

lemma shutdown_reachable:
  assumes "reachable s" "iterates e s" "ShutdownWithContext e late g s = (r, Some s')"
  shows "reachable s' \<and> finished s'"
proof -
  let ?s = "cancel shutdownCtx s"
  have s: "reachable ?s" "iterates e ?s" "is_shutdown ?s"
    using assms(2) reachable_cancel [OF assms(1)] by (simp_all add: iterates_def cancel_def is_shutdown_def shutdownCtx_def)
  have "stopScheduler e ?s = Some s' \<or> (\<exists>t. await_stop e None ?s = (r, Some t) \<and> s' = notifySchedulerShutdown t)"
    using assms(3) by (cases "await_stop e None ?s") (auto simp: ShutdownWithContext_def Let_def split: if_splits option.splits)
  then show ?thesis using stop_reachable [OF s(1,2)] stop_finishes [OF s] await_reachable [OF s(1,2)] s(3) notice_reachable by blast
qed

lemma start_reachable:
  assumes "reachable s" "iterates e s" "Start e accepted s = (r, Some s')"
  shows "reachable s'"
proof (cases "started s \<or> is_shutdown s \<and> \<not> accepted")
  case False
  then obtain t where t: "selectStart e s = Some t" "s' = t \<or> s' = notifySchedulerStarted t"
    using assms(3) by (auto simp: Start_def split: option.splits if_splits)
  have "reachable t" using reachable.stepped [OF assms(1) select_step.start [OF _ assms(2) t(1)]] False by simp
  then show ?thesis using t(2) reachable.stepped [OF _ select_step.start_notice] by auto
qed (use assms in \<open>auto simp: Start_def split: if_splits\<close>)

lemma stop_call_reachable:
  "reachable s \<Longrightarrow> iterates e s \<Longrightarrow> StopJobsWithContext e sel g s = (r, Some s') \<Longrightarrow> reachable s'"
  by (cases sel) (auto dest: await_reachable)

lemma built_reachable:
  assumes "reachable s" "addOrUpdateJob (c_job_env c) (c_env c) uid def tsk opts s = Some (r, s')" "may_build c s uid def tsk opts"
  shows "reachable s'"
  by (rule new_jobs_keep_reachable [OF assms(1,2)]) (use assms(3) in \<open>auto split: option.splits\<close>)

lemma remove_reachable: "reachable s \<Longrightarrow> reachable (snd (RemoveJob e uid s))"
  using reachable.stepped [OF _ select_step.remove] by (auto simp: RemoveJob_def split: option.split)

lemma tags_reachable: "reachable s \<Longrightarrow> iterates e s \<Longrightarrow> reachable (RemoveByTags e accepted tags s)"
  using reachable.stepped [OF _ select_step.remove_tags] by (simp add: RemoveByTags_def)

lemma scheduler_call_reachable:
  assumes "reachable s" "iterates (c_env c) s" "ids_differ c (OnScheduler m) s" "call_scheduler c m s = (r, Some s')"
  shows "reachable s'"
proof (cases m)
  case (Scheduler_NewJob def tsk opts)
  then show ?thesis using assms(3,4) built_reachable [OF assms(1)]
    by (auto simp: new_handle_def NewJob_def simp del: may_build.simps split: option.splits)
next
  case (Scheduler_Update uid def tsk opts)
  then show ?thesis using assms(3,4) built_reachable [OF assms(1)]
    by (auto simp: new_handle_def Update_def simp del: may_build.simps split: option.splits)
next
  case (Scheduler_RemoveJob uid)
  then show ?thesis using assms(4) remove_reachable [OF assms(1), of "c_env c" uid] by (auto split: prod.splits)
next
  case (Scheduler_RemoveByTags tags)
  then show ?thesis using assms(4) tags_reachable [OF assms(1,2)] by auto
next
  case Scheduler_Shutdown
  then show ?thesis using assms(4) shutdown_reachable [OF assms(1,2)]
    by (cases "ShutdownWithContext (c_env c) (c_late c) (c_gives_up c) s") (auto simp: failure_def Shutdown_def)
next
  case Scheduler_ShutdownWithContext
  then show ?thesis using assms(4) shutdown_reachable [OF assms(1,2)]
    by (cases "ShutdownWithContext (c_env c) (c_late c) (c_gives_up c) s") (auto simp: failure_def)
next
  case Scheduler_Start
  then show ?thesis using assms(4) start_reachable [OF assms(1,2)]
    by (cases "Start (c_env c) (c_received c) s") auto
next
  case Scheduler_StopJobs
  then show ?thesis using assms(4) stop_call_reachable [OF assms(1,2)]
    by (cases "StopJobsWithContext (c_env c) (c_select c) (c_gives_up c) s") (auto simp: failure_def StopJobs_def)
next
  case Scheduler_StopJobsWithContext
  then show ?thesis using assms(4) stop_call_reachable [OF assms(1,2)]
    by (cases "StopJobsWithContext (c_env c) (c_select c) (c_gives_up c) s") (auto simp: failure_def)
qed (use assms(1,4) in auto)

lemma job_call_reachable: "reachable s \<Longrightarrow> call_job c h m s = (r, Some s') \<Longrightarrow> reachable s'"
  using reachable.stepped [OF _ select_step.run_now] by (cases m) (auto split: if_splits option.splits)

lemma shutting_finishes:
  assumes "reachable s" "iterates (c_env c) s" "shuts_down call" "dispatch_call c call s = (r, Some s')"
  shows "finished s'"
proof -
  have "call = OnScheduler Scheduler_Shutdown \<or> call = OnScheduler Scheduler_ShutdownWithContext"
    using assms(3) by (cases call rule: shuts_down.cases) simp_all
  then show ?thesis using assms(4) shutdown_reachable [OF assms(1,2)]
    by (cases "ShutdownWithContext (c_env c) (c_late c) (c_gives_up c) s") (auto simp: failure_def Shutdown_def)
qed

section \<open>After the end\<close>

text \<open>What the client can still be told.\<close>

fun final_answer :: "stop_select \<Rightarrow> scheduler_method \<Rightarrow> answer \<Rightarrow> bool" where
  "final_answer sel Scheduler_Jobs a = (a = JobList [])"
| "final_answer sel (Scheduler_NewJob def tsk opts) a = (\<exists>r. a = NewHandle r)"
| "final_answer sel (Scheduler_RemoveByTags tags) a = (a = Returned)"
| "final_answer sel (Scheduler_RemoveJob uid) a = (a = Failure (Some ErrJobNotFound))"
| "final_answer sel Scheduler_Shutdown a = (a = Failure None)"
| "final_answer sel Scheduler_ShutdownWithContext a = (a = Failure None)"
| "final_answer sel Scheduler_Start a = (a = Returned)"
| "final_answer sel Scheduler_StopJobs a = (case sel of
     ContextFirst err \<Rightarrow> a = Failure (deadline_error (Some err)) | _ \<Rightarrow> a = Failure None)"
| "final_answer sel Scheduler_StopJobsWithContext a = (case sel of
     ContextFirst err \<Rightarrow> a = Failure (Some err) | _ \<Rightarrow> a = Failure None)"
| "final_answer sel (Scheduler_Update uid def tsk opts) a = (\<exists>r. a = NewHandle r)"
| "final_answer sel Scheduler_JobsWaitingInQueue a = (\<exists>n. a = Count n)"

definition same_jobs :: "scheduler \<Rightarrow> scheduler \<Rightarrow> bool" where
  "same_jobs s s' \<longleftrightarrow> jobs s' = jobs s \<and> (finished s \<longrightarrow> finished s')"

lemma unserved_simps [simp]:
  "e_send_wins (c_env (unserved c)) = False" "c_received (unserved c) = False" "c_select (unserved c) \<noteq> Accepted"
  "c_job_env (unserved c) = c_job_env c" "c_gives_up (unserved c) = c_gives_up c" "e_clock (c_env (unserved c)) = e_clock (c_env c)"
  by (simp_all add: unserved_def)

lemma build_frame:
  assumes "build_job je e uid def tsk opts s = Some (r, s')"
  shows "jobs s' = jobs s \<and> timers s' = timers s \<and> started s' = started s \<and> outbox s' = outbox s \<and> (is_shutdown s \<longrightarrow> is_shutdown s')"
  using assms by (auto simp: build_job_def Let_def WithCancel_def cancel_def is_shutdown_def shutdownCtx_def
    split: option.splits sum.splits check.splits)

lemma registered_frame:
  "jobs (notifyJobRegistered uid s) = jobs s" "finished (notifyJobRegistered uid s) = finished s"
  by (simp_all add: notifyJobRegistered_def send_def finished_def is_shutdown_def)

lemma add_after_end:
  assumes "finished s" "addOrUpdateJob je e uid def tsk opts s = Some (r, s')"
  shows "same_jobs s s'"
proof -
  obtain b s1 where b: "build_job je e uid def tsk opts s = Some (b, s1)"
    using assms(2) by (auto simp: addOrUpdateJob_def split: option.splits)
  note frame = build_frame [OF b]
  then have "finished s1" using assms(1) by (simp add: finished_def)
  then show ?thesis using assms(2) b frame registered_frame
    by (cases b) (auto simp: addOrUpdateJob_def same_jobs_def finished_def)
qed

lemma method_after_end:
  assumes "finished s" "\<not> shuts_down (OnScheduler m)" "call_scheduler (unserved c) m s = (r, st)"
  shows "(r = None \<and> st = None) \<or> (\<exists>a s'. r = Some a \<and> st = Some s' \<and> same_jobs s s' \<and> final_answer (c_select c) m a)"
proof -
  have down: "is_shutdown s" "\<not> started s" using assms(1) by (simp_all add: finished_def)
  have same: "same_jobs s s" by (simp add: same_jobs_def)
  show ?thesis
  proof (cases m)
    case (Scheduler_NewJob def tsk opts)
    then show ?thesis using assms(3) add_after_end [OF assms(1)]
      by (auto simp: new_handle_def NewJob_def split: option.splits)
  next
    case (Scheduler_Update uid def tsk opts)
    then show ?thesis using assms(3) add_after_end [OF assms(1)]
      by (auto simp: new_handle_def Update_def split: option.splits)
  next
    case Scheduler_StopJobs
    then show ?thesis using assms(3) same
      by (cases "c_select c") (auto simp: unserved_def failure_def StopJobs_def deadline_error_def)
  next
    case Scheduler_StopJobsWithContext
    then show ?thesis using assms(3) same by (cases "c_select c") (auto simp: unserved_def failure_def)
  qed (use assms(2,3) down same in \<open>auto simp: scheduler_Jobs_def selectAllJobsOutRequest_def RemoveByTags_def RemoveJob_def Start_def\<close>)
qed

lemma handle_after_end: "call_job (unserved c) h m s = (r, st) \<Longrightarrow> st = Some s"
  by (cases m) auto

lemma build_unserved: "build_job je (c_env (unserved c)) uid def tsk opts s = build_job je (c_env c) uid def tsk opts s"
  unfolding build_job_def s_now_def unserved_simps ..

lemma ids_unserved: "ids_differ (unserved c) call s = ids_differ c call s"
  by (cases "(c, call, s)" rule: ids_differ.cases) (simp_all add: build_unserved)

lemma call_reachable:
  assumes "reachable s" "iterates (c_env c) s" "ids_differ c call s" "dispatch_call c call s = (r, Some s')"
  shows "reachable s'"
proof (cases call)
  case (OnScheduler m)
  then show ?thesis using assms scheduler_call_reachable [OF assms(1,2)] by simp
next
  case (OnJob h m)
  then show ?thesis using assms job_call_reachable [OF assms(1)] by simp
qed

text \<open>A call on a finished scheduler, and what its answer is.\<close>

fun final_handle_answer :: "job \<Rightarrow> job_method \<Rightarrow> answer" where
  "final_handle_answer h Job_ID = Identifier (job_ID h)"
| "final_handle_answer h Job_IsRunning = Flag (Inl ErrSchedulerBusy)"
| "final_handle_answer h Job_Name = Text (job_Name h)"
| "final_handle_answer h (Job_NextRuns n) = Instants (Inl ErrSchedulerBusy)"
| "final_handle_answer h Job_RunNow = Failure (Some ErrJobRunNowFailed)"
| "final_handle_answer h Job_Schedule = Timing (job_Schedule h)"
| "final_handle_answer h Job_Tags = Texts (job_Tags h)"
| "final_handle_answer h m = Instant (Inl ErrSchedulerBusy)"

fun is_final :: "circumstances \<Rightarrow> client_call \<Rightarrow> answer \<Rightarrow> bool" where
  "is_final c (OnScheduler m) a = final_answer (c_select c) m a"
| "is_final c (OnJob h m) a = (a = final_handle_answer h m)"

fun builds_job :: "client_call \<Rightarrow> bool" where
  "builds_job (OnScheduler (Scheduler_NewJob def tsk opts)) = True"
| "builds_job (OnScheduler (Scheduler_Update uid def tsk opts)) = True"
| "builds_job call = False"

lemma stuck_method:
  assumes "finished s" "\<not> shuts_down (OnScheduler m)" "call_scheduler (unserved c) m s = (None, st)"
  shows "builds_job (OnScheduler m)"
  using assms by (cases m; cases "c_select c")
    (auto simp: finished_def unserved_def failure_def StopJobs_def Start_def RemoveJob_def)

lemma handle_answer: "call_job (unserved c) h m s = (Some (final_handle_answer h m), Some s)"
  by (cases m) (simp_all add: asked_job_def with_job_def requestJob_def IsRunning_def LastRun_def LastRunCompletedAt_def
    LastRunStartedAt_def NextRun_def NextRuns_def RunNow_def handle_ID_def handle_Name_def handle_Tags_def handle_Schedule_def)

lemma cancel_finished: "finished s \<Longrightarrow> finished (cancel shutdownCtx s)"
  by (auto simp: finished_def is_shutdown_def cancel_def shutdownCtx_def)

lemma call_after_end:
  assumes "ended st" "finished (sched st)"
  shows "(builds_job call \<and> session_call c call st = (None, None)) \<or>
    (\<exists>a st'. session_call c call st = (Some a, Some st') \<and> ended st' \<and> same_jobs (sched st) (sched st') \<and> is_final c call a)"
proof (cases "shuts_down call")
  case True
  then have "call = OnScheduler Scheduler_Shutdown \<or> call = OnScheduler Scheduler_ShutdownWithContext"
    by (cases call rule: shuts_down.cases) simp_all
  then show ?thesis using assms True cancel_finished by (auto simp: session_call_def same_jobs_def cancel_def)
next
  case False
  show ?thesis
  proof (cases call)
    case (OnJob h m)
    then show ?thesis using assms(1) handle_answer by (simp add: session_call_def same_jobs_def)
  next
    case (OnScheduler m)
    obtain r t where rt: "call_scheduler (unserved c) m (sched st) = (r, t)" by fastforce
    then have "session_call c call st = map_prod id (map_option (\<lambda>s. st\<lparr>sched := s, ended := True\<rparr>)) (r, t)"
      using False assms(1) OnScheduler by (simp add: session_call_def)
    then show ?thesis
      using method_after_end [OF assms(2) _ rt] stuck_method [OF assms(2) _, of m c t] rt False OnScheduler by auto
  qed
qed

text \<open>Whatever clients and goroutine do, the scheduler is in a state that its select loop reaches, and a goroutine that
  has ended leaves no timer.\<close>

lemma session_reachable: "in_session st \<Longrightarrow> reachable (sched st) \<and> (ended st \<longrightarrow> finished (sched st))"
proof (induction rule: in_session.induct)
  case (opened l monitor)
  show ?case by (simp add: reachable.created)
next
  case (called st c call r st')
  note ih = called.IH
  show ?case
  proof (cases "ended st \<and> shuts_down call")
    case True
    then show ?thesis using called ih reachable_cancel cancel_finished by (auto simp: session_call_def)
  next
    case False
    let ?c = "if ended st then unserved c else c"
    obtain s where s: "dispatch_call ?c call (sched st) = (r, Some s)" "st' = st\<lparr>sched := s, ended := ended st \<or> shuts_down call\<rparr>"
      using called.hyps(4) False by (cases "dispatch_call ?c call (sched st)") (auto simp: session_call_def)
    have "iterates (c_env ?c) (sched st)" using called.hyps(2) by (simp add: iterates_def unserved_def)
    moreover have "ids_differ ?c call (sched st)" using called.hyps(3) by (simp add: ids_unserved)
    ultimately have "reachable s" using call_reachable [of "sched st" ?c] ih s(1) by blast
    moreover have "finished s" if "ended st"
      using call_after_end [OF that, of call c] ih that called.hyps(4) s(2) by (auto simp: same_jobs_def)
    moreover have "finished s" if "\<not> ended st" "shuts_down call"
      using shutting_finishes [OF _ called.hyps(2) that(2)] ih s(1) that(1) by simp
    ultimately show ?thesis using s(2) by auto
  qed
next
  case (works st s)
  then show ?case using reachable.stepped by auto
next
  case (goes st e s)
  then show ?case using stop_reachable stop_finishes by auto
qed

section \<open>Results\<close>


text \<open>
  C31: After the scheduler's goroutine has ended no call hangs and none changes the jobs or arms a timer: \<open>Jobs\<close> lists nothing,
  \<open>RemoveJob\<close> finds nothing, stopping and shutting down again report no error unless the caller's own context
  has ended, the handles still give identifier, name, tags and schedule and report the scheduler as busy for the rest,
  and \<open>NewJob\<close> and \<open>Update\<close> return a job or an error without a trace in the scheduler. Only a panic in the checks of the
  last two gives no answer.
\<close>

theorem calls_after_shutdown:
  assumes "in_session st" "ended st"
  shows "(builds_job call \<and> session_call c call st = (None, None)) \<or>
    (\<exists>a st'. session_call c call st = (Some a, Some st') \<and> ended st' \<and> jobs (sched st') = jobs (sched st) \<and>
       timers (sched st') = Map.empty \<and> \<not> started (sched st') \<and> is_final c call a)"
  using call_after_end [OF assms(2), of call c] session_reachable [OF assms(1)] assms(2)
  by (auto simp: same_jobs_def finished_def)

section \<open>Examples\<close>

definition usual :: circumstances where
  "usual = \<lparr>c_env = clock_at 5 [], c_job_env = plain_env 7, c_received = True, c_select = Accepted, c_gives_up = None,
     c_late = False, c_mode = None, c_limit = limit_init\<rparr>"

definition closed_session :: session where
  "closed_session = \<lparr>sched = (NewScheduler_state UTC True)\<lparr>cancelled := {shutdownCtx}, stopErrCh := Some None,
     outbox := [NotifySchedulerStopped]\<rparr>, ended = True\<rparr>"

lemma closing: "session_call usual (OnScheduler Scheduler_Shutdown) \<lparr>sched = NewScheduler_state UTC True, ended = False\<rparr> =
    (Some (Failure None), Some closed_session)"
  by (simp add: session_call_def failure_def usual_def Shutdown_def ShutdownWithContext_def deadline_error_def
    stopScheduler_def Let_def notifySchedulerStopped_def closed_session_def clock_at_def NewScheduler_state_def cancel_def send_def)

lemma closed_in_session: "in_session closed_session"
  by (rule in_session.called [OF in_session.opened _ _ closing])
    (simp_all add: usual_def iterates_def clock_at_def NewScheduler_state_def)


text \<open>A scheduler that has been shut down announces a new job to its monitor and gives out a handle, but has no such job.\<close>

lemma job_announced_after_end:
  "\<exists>h st. session_call usual (OnScheduler (Scheduler_NewJob (durationJobDefinition 10) (Some plain_task) [])) closed_session =
      (Some (NewHandle (Inr (Some h))), Some st) \<and> job_ID h = 7 \<and> NotifyJobRegistered 7 \<in> set (outbox (sched st)) \<and>
     jobs (sched st) = Map.empty"
  by (simp add: session_call_def new_handle_def NewJob_def addOrUpdateJob_def plain_built closed_session_def usual_def
    unserved_def NewScheduler_state_def is_shutdown_def shutdownCtx_def notifyJobRegistered_def send_def jobFromInternalJob_def
    plain_job_def every_def zero_job_def)

theorem calls_after_shutdown_witness:
  "(\<exists>st. session_call usual (OnScheduler Scheduler_Jobs) closed_session = (Some (JobList []), Some st)) \<and>
   (\<exists>st. session_call usual (OnScheduler Scheduler_Shutdown) closed_session = (Some (Failure None), Some st))"
  using calls_after_shutdown [OF closed_in_session, of "OnScheduler Scheduler_Jobs" usual]
    calls_after_shutdown [OF closed_in_session, of "OnScheduler Scheduler_Shutdown" usual] by (auto simp: closed_session_def)

section \<open>Updates\<close>

lemma prepare_keeps_definition:
  assumes "prepareFirstRun e j s = Some (j', dropped, s')"
  shows "j_id j' = j_id j \<and> j_schedule j' = j_schedule j \<and> j_ctx j' = j_ctx j \<and> j_name j' = j_name j \<and> j_tags j' = j_tags j \<and>
    jobs s' = jobs s \<and> cancelled s' = cancelled s"
  using assms by (cases rule: prepareFirstRun_cases; auto simp: AfterFunc_simps started_at_def split: if_splits)+

text \<open>What is stored for a new job: the job with its first run prepared, or nothing when it has none.\<close>

definition stored_as :: "internalJob \<Rightarrow> internalJob \<Rightarrow> bool" where
  "stored_as j k \<longleftrightarrow> j_id k = j_id j \<and> j_schedule k = j_schedule j \<and> j_ctx k = j_ctx j \<and> j_name k = j_name j \<and> j_tags k = j_tags j"

lemma new_job_frame:
  assumes "selectNewJob e j s = Some s'"
  shows "(\<forall>v. v \<noteq> j_id j \<longrightarrow> jobs s' v = jobs s v) \<and> cancelled s \<subseteq> cancelled s' \<and>
    (case jobs s' (j_id j) of None \<Rightarrow> started s | Some k \<Rightarrow> stored_as j k)"
  using assms by (auto simp: selectNewJob_def selectRemoveJob_frame stored_as_def dest!: prepare_keeps_definition
    intro!: subsetD [OF selectRemoveJob_frame(1)] split: if_splits option.splits)


definition one_stored :: scheduler where
  "one_stored = send (NewJobDone 7) (store 7 (plain_job 7 1) (fresh\<lparr>fresh_ctx := 2\<rparr>))"

lemma one_stored_reachable: "reachable one_stored"
proof -
  have "reachable fresh" unfolding fresh_def by (rule reachable.created)
  then have "reachable (fresh\<lparr>fresh_ctx := 2\<rparr>)"
    using reachable_WithCancel [of fresh] by (simp add: fresh_def NewScheduler_state_def numeral_2_eq_2)
  moreover have "select_step (fresh\<lparr>fresh_ctx := 2\<rparr>) one_stored"
    by (rule select_step.new [where e = "clock_at 5 []" and j = "plain_job 7 1"])
      (simp_all add: new_job_def selectNewJob_def one_stored_def fresh_def NewScheduler_state_def plain_job_def every_def zero_job_def)
  ultimately show ?thesis by (rule reachable.stepped)
qed

lemma one_stored_simps [simp]:
  "jobs one_stored = [7 \<mapsto> plain_job 7 1]" "timers one_stored = Map.empty" "\<not> started one_stored" "\<not> is_shutdown one_stored"
  "\<not> monitored one_stored" "s_location one_stored = UTC" "\<not> is_shutdown (one_stored\<lparr>fresh_ctx := n\<rparr>)"
  by (simp_all add: one_stored_def store_def send_def fresh_def NewScheduler_state_def is_shutdown_def shutdownCtx_def)


end
