(* ===== verification/Distributed.thy ===== *)
theory Distributed
  imports ExecutorTheorems
begin

text \<open>
  Several schedulers that share a locker or an elector (src/distributed.go): what their contracts give when the runs
  of the instances interleave. The only lockers and electors of the repository are those of its tests and its
  example; to the scheduler they are parameters.
\<close>

section \<open>Lockers\<close>

text \<open>
  A locker is an object (a handle) with a state that it shares with the lockers of other instances. \<open>Lock\<close> answers with
  an error, or with the lock for the key; what \<open>Unlock\<close> answers is ignored.
\<close>

record 'l Locker =
  Lock :: "handle \<Rightarrow> string \<Rightarrow> 'l \<Rightarrow> error option \<times> 'l"
  Unlock :: "handle \<Rightarrow> string \<Rightarrow> 'l \<Rightarrow> 'l"

text \<open>
  The contract: a key is granted only when it is not held, and it stays held until it is released. A locker whose
  locks expire by themselves does not keep it.
\<close>

locale exclusive_locker =
  fixes lk :: "'l Locker" and held_by :: "'l \<Rightarrow> (handle \<times> string) set"
  assumes granted: "Lock lk h k l = (None, l') \<Longrightarrow> (h, k) \<notin> held_by l \<and> (h, k) \<in> held_by l'"
    and locking_keeps: "Lock lk h k l = (r, l') \<Longrightarrow> held_by l \<subseteq> held_by l'"
    and unlocking_keeps: "held_by l - {(h, k)} \<subseteq> held_by (Unlock lk h k l)"

section \<open>Interleaved runs\<close>

text \<open>A run under way: what it still does, the answer it gets from its locker, the key it holds, and the one it asks for.\<close>

record thread =
  todo :: "event list"
  lock_answer :: "error option"
  holds :: "(handle \<times> string) option"
  wanted :: "(handle \<times> string) option"

definition lock_key :: "executor \<Rightarrow> internalJob \<Rightarrow> (handle \<times> string) option" where
  "lock_key x j = (if x_elector x then None else map_option (\<lambda>h. (h, j_name j)) (lock_of x j))"

definition begin_run :: "world \<Rightarrow> executor \<Rightarrow> internalJob \<Rightarrow> jobIn \<Rightarrow> thread" where
  "begin_run w x j jIn = \<lparr>todo = fst (runJob w x (Some j) jIn), lock_answer = w_lock w, holds = None, wanted = lock_key x j\<rparr>"

fun touches_lock :: "event \<Rightarrow> bool" where
  "touches_lock (TakeLock h k) = True"
| "touches_lock (ReleaseLock h) = True"
| "touches_lock ev = False"

type_synonym 'l cluster = "(nat \<Rightarrow> thread option) \<times> 'l"

text \<open>Any instance may begin a run of any job at any time; the runs take their steps in any order.\<close>

inductive cluster_step :: "'l Locker \<Rightarrow> 'l cluster \<Rightarrow> 'l cluster \<Rightarrow> bool" for lk where
  begins: "c i = None \<Longrightarrow> cluster_step lk (c, l) (c(i \<mapsto> begin_run w x j jIn), l)"
| takes: "c i = Some t \<Longrightarrow> todo t = TakeLock h k # evs \<Longrightarrow> Lock lk h k l = (lock_answer t, l') \<Longrightarrow>
    cluster_step lk (c, l) (c(i \<mapsto> t\<lparr>todo := evs, holds := if lock_answer t = None then Some (h, k) else None\<rparr>), l')"
| releases: "c i = Some t \<Longrightarrow> todo t = ReleaseLock h # evs \<Longrightarrow> holds t = Some (h', k) \<Longrightarrow>
    cluster_step lk (c, l) (c(i \<mapsto> t\<lparr>todo := evs, holds := None\<rparr>), Unlock lk h' k l)"
| acts: "c i = Some t \<Longrightarrow> todo t = ev # evs \<Longrightarrow> \<not> touches_lock ev \<Longrightarrow> cluster_step lk (c, l) (c(i \<mapsto> t\<lparr>todo := evs\<rparr>), l)"
| ends: "c i = Some t \<Longrightarrow> todo t = [] \<Longrightarrow> cluster_step lk (c, l) (c(i := None), l)"

section \<open>The discipline of a run\<close>

text \<open>The key asked for is taken first, the task is called only while it is held, and the release ends the run.\<close>

fun well_locked :: "(handle \<times> string) option \<Rightarrow> error option \<Rightarrow> (handle \<times> string) option \<Rightarrow> event list \<Rightarrow> bool" where
  "well_locked want ans key [] = True"
| "well_locked want ans key (TakeLock h k # evs) =
     (key = None \<and> want = Some (h, k) \<and> well_locked want ans (if ans = None then Some (h, k) else None) evs)"
| "well_locked want ans key (ReleaseLock h # evs) = (map_option fst key = Some h \<and> well_locked want ans None evs)"
| "well_locked want ans key (CallTask # evs) = (key = want \<and> well_locked want ans key evs)"
| "well_locked want ans key (ev # evs) = well_locked want ans key evs"

definition lock_free :: "'a run \<Rightarrow> bool" where
  "lock_free m \<longleftrightarrow> list_all (\<lambda>ev. \<not> touches_lock ev) (fst m)"

lemma lock_free_bind: "lock_free (run_bind m f) \<longleftrightarrow> lock_free m \<and> (\<forall>y. snd m = Some y \<longrightarrow> lock_free (f y))"
  by (cases m) (auto simp: lock_free_def run_bind_def split: option.split prod.split)

lemma lock_free_basic [simp]:
  "lock_free (run_return y)" "lock_free (es, r) \<longleftrightarrow> list_all (\<lambda>ev. \<not> touches_lock ev) es"
  "lock_free (emit_if b es) \<longleftrightarrow> b \<longrightarrow> list_all (\<lambda>ev. \<not> touches_lock ev) es" "lock_free (call_listener w f l)"
  by (simp_all add: lock_free_def emit_if_def call_listener_def run_return_def split: option.split)

lemma lock_free_steps [simp]:
  "lock_free (sendOutForRescheduling w jIn)" "lock_free (skip_run w x jIn)" "lock_free (finish_run w x j s err)"
  "lock_free (call_task w j)"
  by (simp_all add: sendOutForRescheduling_def skip_run_def incrementJobCounter_def sendOutForNextRunUpdate_def
      send_or_done_def finish_run_def recordJobTiming_def recordJobTimingWithStatus_def call_task_def callJobWithRecover_def
      Let_def lock_free_bind split: option.split)

lemma lock_free_body: "lock_free (run_body w x j jIn)"
  by (simp add: run_body_def send_or_done_def Let_def lock_free_bind split: option.split)

lemma well_locked_quiet:
  "list_all (\<lambda>ev. \<not> touches_lock ev) es \<Longrightarrow> key = want \<or> CallTask \<notin> set es \<Longrightarrow>
     well_locked want ans key (es @ fs) = well_locked want ans key fs"
proof (induction es)
  case (Cons ev es)
  then show ?case by (cases ev) auto
qed simp

lemma no_task_in_skip: "CallTask \<notin> set (fst (skip_run w x jIn))"
  using calls_steps(2) [of w x jIn] by (simp add: calls_def count_list_0_iff)

lemma begin_well_locked: "well_locked (lock_key x j) (w_lock w) None (fst (runJob w x (Some j) jIn))"
proof (cases "may_start w j")
  case True
  have body: "well_locked want ans want (fst (run_body w x j jIn) @ fs) = well_locked want ans want fs" for want ans fs
    using lock_free_body [of w x j jIn] by (intro well_locked_quiet) (simp_all add: lock_free_def)
  have skip: "well_locked want ans key (fst (skip_run w x jIn))" for want ans key
    using well_locked_quiet [of "fst (skip_run w x jIn)" key want ans "[]"] lock_free_steps(2) [of w x jIn] no_task_in_skip
    by (simp add: lock_free_def)
  show ?thesis
  proof (cases "x_elector x")
    case True
    then show ?thesis using \<open>may_start w j\<close> body [of None _ "[]"] skip by (simp add: runJob_cases lock_key_def)
  next
    case False
    show ?thesis
    proof (cases "lock_of x j")
      case None
      then show ?thesis using True False body [of None _ "[]"] by (simp add: runJob_cases lock_key_def)
    next
      case (Some h)
      have refused: "well_locked want ans key (fst (run_bind (call_listener w f l) (\<lambda>_. skip_run w x jIn)))" for want ans key f l
        using skip by (auto simp: call_listener_def run_bind_def run_return_def split: option.split prod.split)
      show ?thesis
        using True False Some body [of "Some (h, j_name j)" _ "[ReleaseLock h]"] refused
        by (cases "w_lock w") (simp_all add: runJob_cases lock_key_def locked_run_def)
    qed
  qed
qed (simp add: runJob_cases)

section \<open>Exclusion\<close>

text \<open>Every key that a run holds is held at the locker, and by no other run.\<close>

definition thread_inv :: "(handle \<times> string) set \<Rightarrow> thread \<Rightarrow> bool" where
  "thread_inv H t \<longleftrightarrow> well_locked (wanted t) (lock_answer t) (holds t) (todo t) \<and>
     (\<forall>hk. holds t = Some hk \<longrightarrow> wanted t = Some hk \<and> hk \<in> H)"

definition cluster_inv :: "('l \<Rightarrow> (handle \<times> string) set) \<Rightarrow> 'l cluster \<Rightarrow> bool" where
  "cluster_inv held_by s \<longleftrightarrow> (\<forall>i t. fst s i = Some t \<longrightarrow> thread_inv (held_by (snd s)) t) \<and>
     (\<forall>i j t u hk. fst s i = Some t \<longrightarrow> fst s j = Some u \<longrightarrow> holds t = Some hk \<longrightarrow> holds u = Some hk \<longrightarrow> i = j)"

lemma cluster_invD:
  assumes "cluster_inv held_by (c, l)" "c i = Some t"
  shows "thread_inv (held_by l) t" "c j = Some u \<Longrightarrow> holds t = Some hk \<Longrightarrow> holds u = Some hk \<Longrightarrow> i = j"
  using assms unfolding cluster_inv_def fst_conv snd_conv by blast+

lemma cluster_invI:
  assumes "\<And>i t. c i = Some t \<Longrightarrow> thread_inv (held_by l) t"
    and "\<And>i j t u hk. c i = Some t \<Longrightarrow> c j = Some u \<Longrightarrow> holds t = Some hk \<Longrightarrow> holds u = Some hk \<Longrightarrow> i = j"
  shows "cluster_inv held_by (c, l)"
  unfolding cluster_inv_def fst_conv snd_conv using assms by (intro conjI allI impI) blast+

lemma thread_inv_begin: "thread_inv H (begin_run w x j jIn)" "holds (begin_run w x j jIn) = None"
  by (simp_all add: thread_inv_def begin_run_def begin_well_locked)

lemma well_locked_acts: "well_locked want ans key (ev # evs) \<Longrightarrow> \<not> touches_lock ev \<Longrightarrow> well_locked want ans key evs"
  by (cases ev) auto

lemma thread_inv_acts:
  assumes "thread_inv H t" "todo t = ev # evs" "\<not> touches_lock ev"
  shows "thread_inv H (t\<lparr>todo := evs\<rparr>)"
  using assms(1) well_locked_acts [OF _ assms(3)] unfolding thread_inv_def assms(2) by simp

text \<open>A run that calls its task under a lock holds that lock.\<close>

lemma caller_holds:
  assumes "thread_inv H t" "todo t = CallTask # evs" "wanted t = Some hk"
  shows "holds t = Some hk"
proof -
  have "holds t = wanted t" using assms(1) unfolding thread_inv_def assms(2) well_locked.simps by (elim conjE)
  then show ?thesis using assms(3) by simp
qed

lemma thread_inv_mono: "thread_inv H t \<Longrightarrow> (\<And>hk. holds t = Some hk \<Longrightarrow> hk \<in> H \<Longrightarrow> hk \<in> H') \<Longrightarrow> thread_inv H' t"
  unfolding thread_inv_def by blast

lemma cluster_inv_update:
  assumes "cluster_inv held_by (c, l)" "thread_inv (held_by l') t'"
    and "\<And>j u. j \<noteq> i \<Longrightarrow> c j = Some u \<Longrightarrow> thread_inv (held_by l') u"
    and "\<And>j u hk. j \<noteq> i \<Longrightarrow> c j = Some u \<Longrightarrow> holds t' = Some hk \<Longrightarrow> holds u \<noteq> Some hk"
  shows "cluster_inv held_by (c(i \<mapsto> t'), l')"
proof (rule cluster_invI)
  fix k t assume "(c(i \<mapsto> t')) k = Some t"
  then show "thread_inv (held_by l') t" using assms(2,3) by (cases "k = i") auto
next
  fix k m t u hk
  assume "(c(i \<mapsto> t')) k = Some t" "(c(i \<mapsto> t')) m = Some u" "holds t = Some hk" "holds u = Some hk"
  note t = this
  consider "k = i" "m = i" | "k = i" "m \<noteq> i" | "k \<noteq> i" "m = i" | "k \<noteq> i" "m \<noteq> i" by blast
  then show "k = m"
  proof cases
    case 2
    then show ?thesis using assms(4) [of m u hk] t by simp
  next
    case 3
    then show ?thesis using assms(4) [of k t hk] t by simp
  next
    case 4
    then have "c k = Some t" "c m = Some u" using t(1,2) by simp_all
    then show ?thesis using cluster_invD(2) [OF assms(1)] t(3,4) by blast
  qed simp
qed

context exclusive_locker begin

lemma cluster_inv_step: "cluster_step lk s s' \<Longrightarrow> cluster_inv held_by s \<Longrightarrow> cluster_inv held_by s'"
proof (induction rule: cluster_step.induct)
  case (begins c i l w x j jIn)
  show ?case
    by (rule cluster_inv_update [OF begins(2) thread_inv_begin(1)]) (use begins thread_inv_begin(2) in \<open>auto simp: cluster_inv_def\<close>)
next
  case (takes c i t h k evs l l')
  have inv: "thread_inv (held_by l) t" "\<And>j u. c j = Some u \<Longrightarrow> thread_inv (held_by l) u"
    using takes(1) cluster_invD(1) [OF takes(4)] by simp_all
  note mono = locking_keeps [OF takes(3)]
  show ?case
  proof (rule cluster_inv_update [OF takes(4)])
    show "thread_inv (held_by l') (t\<lparr>todo := evs, holds := if lock_answer t = None then Some (h, k) else None\<rparr>)"
      using inv(1) takes(2,3) granted by (auto simp: thread_inv_def)
    show "thread_inv (held_by l') u" if "c j = Some u" for j u
      using inv(2) [OF that] mono by (auto intro: thread_inv_mono)
    show "holds u \<noteq> Some hk" if "c j = Some u" "holds (t\<lparr>todo := evs, holds := if lock_answer t = None then Some (h, k) else None\<rparr>) = Some hk" for j u hk
      using inv(2) [OF that(1)] that(2) takes(3) granted by (auto simp: thread_inv_def split: if_splits)
  qed
next
  case (releases c i t h evs h' k l)
  have inv: "\<And>j u. c j = Some u \<Longrightarrow> thread_inv (held_by l) u" using cluster_invD(1) [OF releases(4)] .
  have alone: "holds u \<noteq> Some (h', k)" if "j \<noteq> i" "c j = Some u" for j u
    using cluster_invD(2) [OF releases(4,1) that(2) releases(3)] that(1) by blast
  show ?case
  proof (rule cluster_inv_update [OF releases(4)])
    show "thread_inv (held_by (Unlock lk h' k l)) (t\<lparr>todo := evs, holds := None\<rparr>)"
      using inv [OF releases(1)] releases(2) by (simp add: thread_inv_def)
    show "thread_inv (held_by (Unlock lk h' k l)) u" if "j \<noteq> i" "c j = Some u" for j u
      using inv [OF that(2)] alone [OF that] unlocking_keeps [of l h' k] by (auto intro: thread_inv_mono)
  qed simp
next
  case (acts c i t ev evs l)
  have inv: "\<And>j u. c j = Some u \<Longrightarrow> thread_inv (held_by l) u" using cluster_invD(1) [OF acts(4)] .
  show ?case
  proof (rule cluster_inv_update [OF acts(4) thread_inv_acts [OF inv [OF acts(1)] acts(2,3)]])
    show "holds u \<noteq> Some hk" if "j \<noteq> i" "c j = Some u" "holds (t\<lparr>todo := evs\<rparr>) = Some hk" for j u hk
      using cluster_invD(2) [OF acts(4,1) that(2)] that(1,3) by auto
  qed (use inv in blast)
next
  case (ends c i t l)
  show ?case
  proof (rule cluster_invI)
    fix k m u v hk
    assume "(c(i := None)) k = Some u" "(c(i := None)) m = Some v" "holds u = Some hk" "holds v = Some hk"
    moreover from this have "c k = Some u" "c m = Some v" by (simp_all split: if_splits)
    ultimately show "k = m" using cluster_invD(2) [OF ends(3)] by blast
  qed (use cluster_invD(1) [OF ends(3)] in \<open>simp split: if_splits\<close>)
qed

lemma cluster_inv_reached: "(cluster_step lk)\<^sup>*\<^sup>* (Map.empty, l) s \<Longrightarrow> cluster_inv held_by s"
  by (induction rule: rtranclp_induct) (simp add: cluster_inv_def, rule cluster_inv_step)

lemma callers_exclude:
  assumes "(cluster_step lk)\<^sup>*\<^sup>* (Map.empty, l0) (c, l)" "c i = Some t" "c i' = Some t'"
    and "todo t = CallTask # evs" "todo t' = CallTask # evs'" "wanted t = Some hk" "wanted t' = Some hk"
  shows "i = i'"
proof -
  have inv: "cluster_inv held_by (c, l)" using cluster_inv_reached [OF assms(1)] .
  have "holds t = Some hk" "holds t' = Some hk"
    using caller_holds [OF cluster_invD(1) [OF inv assms(2)] assms(4,6)] caller_holds [OF cluster_invD(1) [OF inv assms(3)] assms(5,7)] .
  then show ?thesis by (rule cluster_invD(2) [OF inv assms(2,3)])
qed

end

section \<open>The lockers of the tests\<close>

text \<open>
  The lockers of src/scheduler_test.go: one grants a single lock, for whatever key, and never takes it back (the state says
  which lockers have granted theirs), the other refuses always.
\<close>

definition testLocker :: "(handle \<Rightarrow> bool) Locker" where
  "testLocker = \<lparr>Lock = \<lambda>h k l. if l h then (Some (External ''job already locked''), l) else (None, l(h := True)),
     Unlock = \<lambda>h k l. l\<rparr>"

definition errorLocker :: "unit Locker" where
  "errorLocker = \<lparr>Lock = \<lambda>h k l. (Some (External ''locked''), l), Unlock = \<lambda>h k l. l\<rparr>"

interpretation test_locker: exclusive_locker testLocker "\<lambda>l. {hk. l (fst hk)}"
  by unfold_locales (auto simp: testLocker_def split: if_splits)

interpretation error_locker: exclusive_locker errorLocker "\<lambda>_. {}"
  by unfold_locales (simp_all add: errorLocker_def)

section \<open>One task at a time\<close>

text \<open>
  C33: With a locker that keeps its contract, the task of a job is never called by two runs at the same time: however the
  runs of the instances interleave, and whatever executors, jobs and answers they have, of the runs that ask the
  same locker for the same name at most one is at the call of its task.
\<close>

theorem locked_runs_exclude:
  assumes "exclusive_locker lk held_by" "(cluster_step lk)\<^sup>*\<^sup>* (Map.empty, l0) (c, l)"
    and "c i = Some t" "todo t = CallTask # evs" "wanted t = Some hk"
    and "c i' = Some t'" "todo t' = CallTask # evs'" "wanted t' = Some hk"
  shows "i = i'"
  by (rule exclusive_locker.callers_exclude [OF assms(1,2,3,6,4,7,5,8)])

lemma acts_all:
  "list_all (\<lambda>ev. \<not> touches_lock ev) es \<Longrightarrow> c i = Some t \<Longrightarrow> todo t = es @ fs \<Longrightarrow>
     (cluster_step lk)\<^sup>*\<^sup>* (c, l) (c(i \<mapsto> t\<lparr>todo := fs\<rparr>), l)"
proof (induction es arbitrary: c t)
  case Nil
  then have "c(i \<mapsto> t\<lparr>todo := fs\<rparr>) = c" by (simp add: fun_upd_idem)
  then show ?case by simp
next
  case (Cons ev es)
  have "cluster_step lk (c, l) (c(i \<mapsto> t\<lparr>todo := es @ fs\<rparr>), l)"
    using cluster_step.acts [of c i t ev "es @ fs" lk l] Cons.prems by simp
  moreover have "(cluster_step lk)\<^sup>*\<^sup>* (c(i \<mapsto> t\<lparr>todo := es @ fs\<rparr>), l) (c(i \<mapsto> t\<lparr>todo := fs\<rparr>), l)"
    using Cons.IH [of "c(i \<mapsto> t\<lparr>todo := es @ fs\<rparr>)" "t\<lparr>todo := es @ fs\<rparr>"] Cons.prems(1)
    by (simp add: fun_upd_same del: fun_upd_apply)
  ultimately show ?case by (rule converse_rtranclp_into_rtranclp)
qed

text \<open>A run that reaches its body calls its task, when listeners do not panic or veto it.\<close>

lemma task_in_body:
  assumes "smooth w" "snd (call_listener w (beforeJobRunsSkipIfBeforeFuncErrors j) OnBeforeSkip) = Some None"
  shows "CallTask \<in> set (fst (run_body w x j jIn))"
proof -
  obtain r where before: "snd (call_listener w (beforeJobRuns j) OnBefore) = Some r" by (rule smooth_listener [OF assms(1)])
  have "calls (run_body w x j jIn) \<noteq> 0"
    using assms(2) smooth_steps(1,2,5,6) [OF assms(1)] before
    by (cases "intervalFromCompletion j") (simp_all add: run_body_def Let_def calls_bind messages_bind)
  then show ?thesis using count_list_0_iff [of "fst (run_body w x j jIn)" CallTask] by (auto simp: calls_def)
qed

lemma begin_timed:
  "\<exists>es evs. todo (begin_run (calm None (Some [])) bare (timed 7) \<lparr>in_id = 7, shouldSendOut = False\<rparr>) =
     TakeLock 5 ''main.f'' # es @ CallTask # evs \<and> list_all (\<lambda>ev. \<not> touches_lock ev) es"
proof -
  let ?body = "run_body (calm None (Some [])) bare (timed 7) \<lparr>in_id = 7, shouldSendOut = False\<rparr>"
  have "CallTask \<in> set (fst ?body)" by (rule task_in_body) simp_all
  then obtain es evs where split: "fst ?body = es @ CallTask # evs" using split_list by metis
  have "list_all (\<lambda>ev. \<not> touches_lock ev) es" using lock_free_body [of "calm None (Some [])" bare "timed 7"] split
    by (metis list_all_append lock_free_def)
  moreover have "todo (begin_run (calm None (Some [])) bare (timed 7) \<lparr>in_id = 7, shouldSendOut = False\<rparr>) =
      TakeLock 5 ''main.f'' # es @ CallTask # (evs @ [ReleaseLock 5])"
    by (simp add: begin_run_def runJob_cases locked_run_def split)
  ultimately show ?thesis by blast
qed

theorem locked_runs_exclude_witness:
  "\<exists>c l t evs. (cluster_step testLocker)\<^sup>*\<^sup>* (Map.empty, \<lambda>_. False) (c, l) \<and> c 0 = Some t \<and> todo t = CallTask # evs \<and>
     (\<forall>i t' evs'. c i = Some t' \<longrightarrow> todo t' = CallTask # evs' \<longrightarrow> wanted t' = wanted t \<longrightarrow> i = 0)"
proof -
  let ?t = "begin_run (calm None (Some [])) bare (timed 7) \<lparr>in_id = 7, shouldSendOut = False\<rparr>"
  obtain es evs where es: "todo ?t = TakeLock 5 ''main.f'' # es @ CallTask # evs" "list_all (\<lambda>ev. \<not> touches_lock ev) es"
    using begin_timed by blast
  let ?u = "?t\<lparr>todo := es @ CallTask # evs, holds := Some (5, ''main.f'')\<rparr>"
  have free: "lock_answer ?t = None" "wanted ?t = Some (5, ''main.f'')"
    by (simp_all add: begin_run_def lock_key_def)
  let ?l = "(\<lambda>_. False)(5 := True)"
  have "cluster_step testLocker (Map.empty, \<lambda>_. False) (Map.empty(0 \<mapsto> ?t), \<lambda>_. False)" by (rule cluster_step.begins) simp
  moreover have "cluster_step testLocker (Map.empty(0 \<mapsto> ?t), \<lambda>_. False) (Map.empty(0 \<mapsto> ?u), ?l)"
    using cluster_step.takes [of "Map.empty(0 \<mapsto> ?t)" 0 ?t 5 "''main.f''" "es @ CallTask # evs" testLocker "\<lambda>_. False" ?l] es(1) free
    by (simp add: testLocker_def)
  moreover have "(cluster_step testLocker)\<^sup>*\<^sup>* (Map.empty(0 \<mapsto> ?u), ?l) (Map.empty(0 \<mapsto> ?u\<lparr>todo := CallTask # evs\<rparr>), ?l)"
    using acts_all [OF es(2), of "Map.empty(0 \<mapsto> ?u)" 0 ?u "CallTask # evs" testLocker ?l] by simp
  ultimately have reach: "(cluster_step testLocker)\<^sup>*\<^sup>* (Map.empty, \<lambda>_. False) (Map.empty(0 \<mapsto> ?u\<lparr>todo := CallTask # evs\<rparr>), ?l)"
    by (meson converse_rtranclp_into_rtranclp)
  let ?v = "?u\<lparr>todo := CallTask # evs\<rparr>" and ?c = "Map.empty(0 \<mapsto> ?u\<lparr>todo := CallTask # evs\<rparr>)"
  have v: "?c 0 = Some ?v" "todo ?v = CallTask # evs" "wanted ?v = Some (5, ''main.f'')" using free(2) by simp_all
  have "0 = i" if "?c i = Some t'" "todo t' = CallTask # evs'" "wanted t' = wanted ?v" for i :: nat and t' evs'
    using locked_runs_exclude [where c = ?c and i = 0 and t = ?v and i' = i and t' = t', OF test_locker.exclusive_locker_axioms reach v that(1,2)]
      that(3) v(3) by simp
  then show ?thesis using reach v(1,2) by (intro exI [of _ ?c] exI [of _ ?l] exI [of _ ?v] exI [of _ evs]) blast
qed

end
