(* ===== verification/ElectorExample.thy ===== *)
theory ElectorExample
  imports Distributed
begin

text \<open>
  Electors, and the example program of the repository (src/examples/elector/main.go): three nodes, each with a
  scheduler of its own that runs one job every second when its elector says that it is the leader.
\<close>

section \<open>Electors\<close>

text \<open>What an elector answers to an instance in a state of its own: nothing, or why the instance is not the leader.\<close>

type_synonym 'e Elector = "nat \<Rightarrow> 'e \<Rightarrow> error option"

text \<open>A run of an instance that has an elector, with the answer that it gets in the state \<open>e\<close>.\<close>

definition elected_run :: "'e Elector \<Rightarrow> 'e \<Rightarrow> nat \<Rightarrow> world \<Rightarrow> executor \<Rightarrow> internalJob \<Rightarrow> jobIn \<Rightarrow> unit run" where
  "elected_run isLeader e i w x j jIn = runJob (w\<lparr>w_leader := isLeader i e\<rparr>) (x\<lparr>x_elector := True\<rparr>) (Some j) jIn"

lemma elected_calls: "CallTask \<in> set (fst (elected_run isLeader e i w x j jIn)) \<Longrightarrow> isLeader i e = None"
  using no_task_in_skip by (auto simp: elected_run_def runJob_cases run_return_def split: if_splits)

lemma leader_calls:
  assumes "isLeader i e = None" "smooth w" "may_start w j"
    and "snd (call_listener w (beforeJobRunsSkipIfBeforeFuncErrors j) OnBeforeSkip) = Some None"
  shows "CallTask \<in> set (fst (elected_run isLeader e i w x j jIn))"
proof -
  let ?w = "w\<lparr>w_leader := None\<rparr>" and ?x = "x\<lparr>x_elector := True\<rparr>"
  have w: "smooth ?w" "may_start ?w j" "call_listener ?w f l = call_listener w f l" for f l
    using assms(2,3) by (simp_all add: smooth_def may_start_def call_listener_def split: option.split)
  then have "CallTask \<in> set (fst (run_body ?w ?x j jIn))" using task_in_body assms(4) by simp
  then show ?thesis using w(2) assms(1) by (simp add: elected_run_def runJob_cases)
qed

section \<open>The example\<close>

record myElector =
  num :: int
  leader :: bool

definition IsLeader :: "myElector \<Rightarrow> error option" where
  "IsLeader m = (if leader m then None else Some (External ''not leader''))"

text \<open>
  The goroutine of a node: it makes its elector, its scheduler and the job, and starts the scheduler, which goes
  on when the goroutine has ended. Nodes 0 and 1 then sleep for five seconds and change their electors.
\<close>

datatype phase = Preparing | Sleeping | Ended

record node =
  elector :: myElector
  has_started :: bool
  phase :: phase

definition new_node :: "nat \<Rightarrow> node" where
  "new_node i = \<lparr>elector = \<lparr>num = int i, leader = (i = 0)\<rparr>, has_started = False, phase = Preparing\<rparr>"

definition start_node :: "nat \<Rightarrow> node \<Rightarrow> node" where
  "start_node i n = n\<lparr>has_started := True, phase := if i = 0 \<or> i = 1 then Sleeping else Ended\<rparr>"

definition wake_node :: "nat \<Rightarrow> node \<Rightarrow> node" where
  "wake_node i n = n\<lparr>elector := (elector n)\<lparr>leader := (i = 1)\<rparr>, phase := Ended\<rparr>"

text \<open>The goroutines are not ordered among each other; a node whose scheduler or job cannot be made ends.\<close>

inductive main_step :: "(nat \<Rightarrow> node) \<Rightarrow> (nat \<Rightarrow> node) \<Rightarrow> bool" where
  fails: "i < 3 \<Longrightarrow> phase (s i) = Preparing \<Longrightarrow> main_step s (s(i := (s i)\<lparr>phase := Ended\<rparr>))"
| starts: "i < 3 \<Longrightarrow> phase (s i) = Preparing \<Longrightarrow> main_step s (s(i := start_node i (s i)))"
| wakes: "i < 3 \<Longrightarrow> phase (s i) = Sleeping \<Longrightarrow> main_step s (s(i := wake_node i (s i)))"

definition answers :: "(nat \<Rightarrow> node) Elector" where
  "answers i s = IsLeader (elector (s i))"

definition node_inv :: "nat \<Rightarrow> node \<Rightarrow> bool" where
  "node_inv i n \<longleftrightarrow> (phase n \<noteq> Ended \<longrightarrow> leader (elector n) = (i = 0)) \<and> (leader (elector n) \<longrightarrow> i = 0 \<or> i = 1) \<and>
     (i = 1 \<and> leader (elector n) \<longrightarrow> has_started n \<and> phase n = Ended) \<and> (phase n = Sleeping \<longrightarrow> has_started n)"

lemma node_inv_steps:
  "node_inv i n \<Longrightarrow> phase n = Preparing \<Longrightarrow> node_inv i (n\<lparr>phase := Ended\<rparr>)"
  "node_inv i n \<Longrightarrow> phase n = Preparing \<Longrightarrow> node_inv i (start_node i n)"
  "node_inv i n \<Longrightarrow> phase n = Sleeping \<Longrightarrow> node_inv i (wake_node i n)"
  by (simp_all add: node_inv_def start_node_def wake_node_def) auto

lemma node_inv_step: "main_step s s' \<Longrightarrow> \<forall>i. node_inv i (s i) \<Longrightarrow> \<forall>i. node_inv i (s' i)"
  by (induction rule: main_step.induct) (simp_all add: node_inv_steps)

lemma node_inv_reached: "main_step\<^sup>*\<^sup>* new_node s \<Longrightarrow> node_inv i (s i)"
proof (induction arbitrary: i rule: rtranclp_induct)
  case base
  then show ?case by (simp add: node_inv_def new_node_def)
next
  case (step s s')
  then show ?case using node_inv_step [OF step(2)] by blast
qed

text \<open>
  In the example only nodes 0 and 1 ever run the job, and node 1 only after its sleep; as long as both sleep, the
  job runs on node 0 alone.
\<close>

theorem example_runs_on_leaders:
  assumes "main_step\<^sup>*\<^sup>* new_node s" "CallTask \<in> set (fst (elected_run answers s i w x j jIn))"
  shows "i = 0 \<or> i = 1 \<and> phase (s 1) = Ended"
  using elected_calls [OF assms(2)] node_inv_reached [OF assms(1), of i]
  by (auto simp: node_inv_def answers_def IsLeader_def split: if_splits)

definition runs_on :: "nat \<Rightarrow> (nat \<Rightarrow> node) \<Rightarrow> bool" where
  "runs_on i s \<longleftrightarrow> CallTask \<in> set (fst (elected_run answers s i (calm None (Some [])) bare (timed 7) \<lparr>in_id = 7, shouldSendOut = True\<rparr>))"

lemma leaders_run: "answers i s = None \<Longrightarrow> runs_on i s"
  unfolding runs_on_def by (rule leader_calls) simp_all

text \<open>
  The change of the leader is not one step: the two sleeps end in either order. When node 1 wakes first, both nodes are
  leaders and both run the job; when node 0 wakes first, no node runs it until node 1 wakes.
\<close>

theorem example_has_two_leaders:
  "(\<exists>s. main_step\<^sup>*\<^sup>* new_node s \<and> runs_on 0 s \<and> runs_on 1 s) \<and>
   (\<exists>s. main_step\<^sup>*\<^sup>* new_node s \<and> phase (s 1) = Sleeping \<and> phase (s 0) = Ended \<and> \<not> runs_on 0 s \<and> \<not> runs_on 1 s)"
proof
  let ?a = "new_node(0 := start_node 0 (new_node 0))"
  let ?b = "?a(1 := start_node 1 (?a 1))"
  have "main_step new_node ?a" by (rule main_step.starts) (simp_all add: new_node_def)
  moreover have "main_step ?a ?b" by (rule main_step.starts) (simp_all add: new_node_def)
  ultimately have b: "main_step\<^sup>*\<^sup>* new_node ?b" by (meson rtranclp.rtrancl_into_rtrancl rtranclp.rtrancl_refl)
  let ?s = "?b(1 := wake_node 1 (?b 1))"
  have "main_step ?b ?s" by (rule main_step.wakes) (simp_all add: start_node_def)
  moreover have "answers 0 ?s = None" "answers 1 ?s = None"
    by (simp_all add: answers_def IsLeader_def new_node_def start_node_def wake_node_def)
  ultimately show "\<exists>s. main_step\<^sup>*\<^sup>* new_node s \<and> runs_on 0 s \<and> runs_on 1 s"
    using b leaders_run by (metis rtranclp.rtrancl_into_rtrancl)
  let ?s = "?b(0 := wake_node 0 (?b 0))"
  have "main_step ?b ?s" by (rule main_step.wakes) (simp_all add: start_node_def)
  moreover have none: "answers 0 ?s \<noteq> None" "answers 1 ?s \<noteq> None"
    by (simp_all add: answers_def IsLeader_def new_node_def start_node_def wake_node_def)
  moreover have "\<not> runs_on 0 ?s" "\<not> runs_on 1 ?s" using none by (auto simp: runs_on_def dest!: elected_calls)
  moreover have "phase (?s 1) = Sleeping" "phase (?s 0) = Ended" by (simp_all add: start_node_def wake_node_def)
  ultimately show "\<exists>s. main_step\<^sup>*\<^sup>* new_node s \<and> phase (s 1) = Sleeping \<and> phase (s 0) = Ended \<and> \<not> runs_on 0 s \<and> \<not> runs_on 1 s"
    using b by (metis rtranclp.rtrancl_into_rtrancl)
qed

theorem example_runs_on_leaders_witness:
  "CallTask \<notin> set (fst (elected_run answers new_node 2 (calm None (Some [])) bare (timed 7) \<lparr>in_id = 7, shouldSendOut = True\<rparr>)) \<and>
   CallTask \<in> set (fst (elected_run answers new_node 0 (calm None (Some [])) bare (timed 7) \<lparr>in_id = 7, shouldSendOut = True\<rparr>))"
proof
  show "CallTask \<notin> set (fst (elected_run answers new_node 2 (calm None (Some [])) bare (timed 7) \<lparr>in_id = 7, shouldSendOut = True\<rparr>))"
    using example_runs_on_leaders [of new_node 2] by auto
  show "CallTask \<in> set (fst (elected_run answers new_node 0 (calm None (Some [])) bare (timed 7) \<lparr>in_id = 7, shouldSendOut = True\<rparr>))"
    by (rule leader_calls) (simp_all add: answers_def IsLeader_def new_node_def)
qed

end
