(* ===== verification/Spec2Isabelle.thy ===== *)
theory Spec2Isabelle
  imports ScheduleTheorems SchedulerTheorems SingletonRunners RoundTrips EndlessJobs System ExecutorStop Monitoring Constructors
    OnTime StopTime Client ElectorExample
begin

text \<open>
  A model of gocron, the job scheduler for Go, with its correctness theorems.

  \<^bold>\<open>The program.\<close> A scheduler (src/scheduler.go) owns the jobs in one goroutine, whose select loop serves
  one channel for each request. A job (src/job.go) is built by \<open>NewJob\<close> from a definition, a task and options; its
  definition becomes a schedule whose method \<open>next\<close> gives the run after a time. The scheduler keeps for every job the
  sorted queue of its scheduled runs and one timer. A timer that fires sends the job to the executor
  (src/executor.go), which runs it at once, or through the runner of a singleton job, or through the runners of
  a scheduler with a limit. A run asks the scheduler to schedule the next one, counts itself, reports its
  timing, and talks to elector, lockers, event listeners and monitors.

  \<^bold>\<open>The theories\<close>, in the order in which they build on each other:

  \<^item> \<open>Prelude\<close>: the collections of rules and the generic lemmas on sorted lists and bounded remainders.
  \<^item> \<open>GoTime\<close>: the part of Go's package time that the code computes with: instants in nanoseconds, locations as
    zone tables, \<open>Date\<close> with the normalisation of skipped and repeated readings.
  \<^item> \<open>Slices\<close>: the queue of scheduled runs (src/util.go and the slice functions in src/job.go); the locale
    \<open>schedule_queue\<close> is the contract the scheduler relies on.
  \<^item> \<open>Schedules\<close>, \<open>Monthly\<close>, \<open>CronJobs\<close>: the methods \<open>next\<close> of the seven kinds of job and the three policies for
    daylight saving time (src/job.go); \<open>CalendarFacts\<close>, \<open>MonthlyBound\<close> and \<open>Gaps\<close> hold the lemmas on them and
    \<open>ScheduleTheorems\<close> the results: each schedule returns the first run after a time that its definition names.
  \<^item> \<open>Errors\<close>, \<open>JobTypes\<close>, \<open>JobDefs\<close>, \<open>JobOptions\<close>, \<open>NewJob\<close>, \<open>JobApi\<close>: the errors (src/errors.go), the struct
    \<open>internalJob\<close>, the setup of the definitions, the options and event listeners, \<open>addOrUpdateJob\<close> with its checks by
    reflection (src/scheduler.go, src/util.go), and the handle a caller gets. \<open>JobTheorems\<close> and \<open>RoundTrips\<close> show which
    definitions are accepted, what the built jobs satisfy, and that a job shows the schedule it was built from;
    \<open>Constructors\<close> has the functions that write a definition, and which of them are refused.
  \<^item> \<open>Advance\<close>, \<open>Scheduler\<close>, \<open>SelectLoop\<close>: the loops that step through a schedule (locale \<open>job_schedule\<close>), the handler of each
    channel of the select loop, and the loop as a step relation. \<open>SchedulerInv\<close> proves the invariant of the reachable
    states, \<open>SchedulerFacts\<close> and \<open>SchedulerTheorems\<close> what the handlers do, and \<open>Timetable\<close> that the loop implements
    an abstract plan that knows only when which job is due.
  \<^item> \<open>SchedulerOptions\<close>, \<open>Logger\<close>: the options of \<open>NewScheduler\<close> and the logger (src/logger.go).
  \<^item> \<open>Executor\<close>, \<open>ExecutorTheorems\<close>: one run of a job (\<open>runJob\<close>), as the list of what it does with its result.
  \<^item> \<open>Dispatch\<close>: what the goroutine of a received job in \<open>executor.start\<close> does with it, and what the runners do around a
    run. \<open>DispatchTheorems\<close> composes dispatch, runner and run: every tick asks for the next one exactly once.
  \<^item> \<open>Endless\<close>: the schedules that never run out (locale \<open>endless_schedule\<close>), with an instance for every kind of job but
    the one-time job; \<open>EndlessJobs\<close> shows which definitions give them.
  \<^item> \<open>Liveness\<close>: runs and scheduler together: every run of a job with an endless schedule leads to the next.
  \<^item> \<open>System\<close>: select loop, executor and the messages between them as one step relation. Every job with an endless schedule
    has one token - its armed timer, a run that waits, or a request under way - which no interleaving loses or doubles.
  \<^item> \<open>Monitoring\<close>: the calls on the monitors (src/monitor.go, src/scheduler_monitor.go) and their order in a run.
  \<^item> \<open>LimitRunners\<close>, \<open>SingletonRunners\<close>: the goroutines of the executor in limit mode and in singleton mode as step
    relations over stops and starts, with the bounds on what runs at once.
  \<^item> \<open>Lifecycle\<close>: \<open>Start\<close>, \<open>StopJobs\<close>, \<open>Shutdown\<close> and \<open>RemoveByTags\<close> as their callers see them.
  \<^item> \<open>OnSchedule\<close>, \<open>OnTime\<close>: in every reachable state the stored runs and the armed timers of a job follow from its first
    run by steps of its schedule, so schedules do not drift; daily, weekly and monthly jobs keep to the days and times
    that their definitions name. A daily interval that turns negative as an int gives no further run.
  \<^item> \<open>StopTime\<close>: what becomes of a job whose last run comes to the executor after its stop time: it loses its token.
  \<^item> \<open>Client\<close>: the methods of the interfaces \<open>Scheduler\<close> and \<open>Job\<close> as datatypes of calls, sessions in which calls and steps
    of the scheduler's goroutine interleave, what updates do, and what calls return after a shutdown.
  \<^item> \<open>Distributed\<close>: the lockers of src/distributed.go (locale \<open>exclusive_locker\<close>, with the lockers of src/scheduler_test.go
    as instances) and the interleaved runs of several schedulers: with a locker that keeps its contract a task never runs
    twice at the same time. \<open>ElectorExample\<close>: electors, and the example program src/examples/elector/main.go.
  \<^item> \<open>ExecutorStop\<close>: the wait groups and \<open>executor.stop\<close> with its goroutines as a step relation; a stop that reports
    no error has waited for every job that was under way.

  \<^bold>\<open>Conventions.\<close> A Go loop that may not end is a \<open>partial_function (option)\<close>, so \<open>None\<close> is a call that does not return; there is no
  fuel. The bound of 400 strides in the monthly search is that of the code, and \<open>MonthlyBound\<close> shows that it is
  enough, since the calendar repeats after 4800 months. A panic is the result \<open>None\<close> of a run. The queues of 1000 places
  are those of the code. Elector, lockers, listeners, clocks and tasks are inputs: their answers are fields of the records
  \<open>env\<close> (of a handler) and \<open>world\<close> (of a run). The parser and the schedules of the cron library are parameters, of which
  some theorems assume that \<open>Next\<close> returns a later time.

  \<^bold>\<open>Not modelled.\<close> The wiring of channels and goroutines by the Go runtime is modelled by its effect: a handler runs to its end, sends are
  collected in order, and the step relations interleave the goroutines of the executor. Writing log lines, overflow of durations and of
  the instants themselves, and the generated mocks are left out.
\<close>

end
